(* ===== verification/Prelude.thy ===== *)
theory Prelude
  imports Main "HOL-Library.Word" "HOL-Library.Sublist"
begin

text \<open>
  What every component of the gateway shares: the types of bytes and results, the
  fixed-width and saturating integer operations of Go, the functions of Go's
  \<open>strings\<close>, \<open>strconv\<close> and \<open>encoding/hex\<close> packages the sources call, and the
  decimal and hexadecimal round trips.  A Go string and a Go byte slice are both
  sequences of bytes; a string is modelled as a char list, a byte array or slice of
  binary data as a list of 8-bit words.
\<close>

section \<open>Collections of rules\<close>

named_theorems result_simps \<open>inversion of the error monad and of guard chains\<close>
named_theorems go_defs \<open>unfolding rules of the string functions, for evaluation\<close>

section \<open>Bytes and results\<close>

type_synonym byte = "8 word"
type_synonym bytes = "byte list"
type_synonym ('e, 'a) result = "'e + 'a"

text \<open>\<open>x, err := m; if err != nil { return err }; k(x)\<close>\<close>

definition bind_r :: "('e, 'a) result \<Rightarrow> ('a \<Rightarrow> ('e, 'b) result) \<Rightarrow> ('e, 'b) result" where
  "bind_r m k = (case m of Inl e \<Rightarrow> Inl e | Inr a \<Rightarrow> k a)"

text \<open>The same with the error replaced, as \<open>fmt.Errorf\<close> or \<open>refuse\<close> wraps it.\<close>

definition map_err :: "('e \<Rightarrow> 'f) \<Rightarrow> ('e, 'a) result \<Rightarrow> ('f, 'a) result" where
  "map_err f m = (case m of Inl e \<Rightarrow> Inl (f e) | Inr a \<Rightarrow> Inr a)"

definition or_err :: "'e \<Rightarrow> 'a option \<Rightarrow> ('e, 'a) result" where
  "or_err e m = (case m of None \<Rightarrow> Inl e | Some a \<Rightarrow> Inr a)"

definition is_ok :: "('e, 'a) result \<Rightarrow> bool" where
  "is_ok m = (case m of Inl _ \<Rightarrow> False | Inr _ \<Rightarrow> True)"

lemma bind_r_simps [simp]:
  "bind_r (Inl e) k = Inl e"
  "bind_r (Inr a) k = k a"
  by (simp_all add: bind_r_def)

lemma map_err_simps [simp]:
  "map_err f (Inl e) = Inl (f e)"
  "map_err f (Inr a) = Inr a"
  by (simp_all add: map_err_def)

lemma or_err_simps [simp]:
  "or_err e None = Inl e"
  "or_err e (Some a) = Inr a"
  by (simp_all add: or_err_def)

lemma is_ok_simps [simp]:
  "\<not> is_ok (Inl e)"
  "is_ok (Inr a)"
  by (simp_all add: is_ok_def)

lemma is_ok_iff: "is_ok m \<longleftrightarrow> (\<exists>a. m = Inr a)"
  by (cases m) simp_all

lemma bind_r_eq_Inr [result_simps]:
  "bind_r m k = Inr b \<longleftrightarrow> (\<exists>a. m = Inr a \<and> k a = Inr b)"
  by (cases m) simp_all

lemma bind_r_eq_Inl [result_simps]:
  "bind_r m k = Inl e \<longleftrightarrow> m = Inl e \<or> (\<exists>a. m = Inr a \<and> k a = Inl e)"
  by (cases m) simp_all

lemma map_err_eq_Inr [result_simps]: "map_err f m = Inr a \<longleftrightarrow> m = Inr a"
  by (cases m) simp_all

lemma map_err_eq_Inl [result_simps]:
  "map_err f m = Inl e \<longleftrightarrow> (\<exists>d. m = Inl d \<and> e = f d)"
  by (cases m) auto

lemma or_err_eq_Inr [result_simps]: "or_err e m = Inr a \<longleftrightarrow> m = Some a"
  by (cases m) simp_all

lemma or_err_eq_Inl [result_simps]: "or_err e m = Inl d \<longleftrightarrow> m = None \<and> d = e"
  by (cases m) auto

lemma guard_eq_Inr [result_simps]:
  "(if b then Inl e else k) = Inr a \<longleftrightarrow> \<not> b \<and> k = Inr a"
  by simp

lemma case_option_eq_Inr [result_simps]:
  "(case m of None \<Rightarrow> Inl e | Some a \<Rightarrow> k a) = Inr b \<longleftrightarrow> (\<exists>a. m = Some a \<and> k a = Inr b)"
  by (cases m) simp_all

section \<open>Go integers, durations and times\<close>

text \<open>
  Go's \<open>int64\<close> arithmetic wraps: \<open>i64 x\<close> is the 64-bit two's complement value
  congruent to \<open>x\<close>.  \<open>sat64\<close> is the saturation \<open>Time.Sub\<close> applies.  Durations
  count nanoseconds; a \<open>time.Time\<close> is its count of nanoseconds since the Unix epoch.
\<close>

definition i64 :: "int \<Rightarrow> int" where
  "i64 x = (x + 2 ^ 63) mod 2 ^ 64 - 2 ^ 63"

definition sat64 :: "int \<Rightarrow> int" where
  "sat64 x = max (- (2 ^ 63)) (min (2 ^ 63 - 1) x)"

definition is_int64 :: "int \<Rightarrow> bool" where
  "is_int64 x \<longleftrightarrow> - (2 ^ 63) \<le> x \<and> x < 2 ^ 63"

abbreviation nsec :: int where "nsec \<equiv> 1000000000"
abbreviation msec :: int where "msec \<equiv> 1000000"

definition unix :: "int \<Rightarrow> int" where
  "unix t = t div nsec"

definition unix_milli :: "int \<Rightarrow> int" where
  "unix_milli t = t div msec"

text \<open>\<open>Duration.Milliseconds\<close>: integer division truncates towards zero.\<close>

definition millis :: "int \<Rightarrow> int" where
  "millis d = (if 0 \<le> d then d div msec else - ((- d) div msec))"

lemma i64_id: "is_int64 x \<Longrightarrow> i64 x = x"
  by (simp add: i64_def is_int64_def)

lemma is_int64_i64: "is_int64 (i64 x)"
  by (simp add: i64_def is_int64_def)

lemma sat64_id: "is_int64 x \<Longrightarrow> sat64 x = x"
  by (simp add: sat64_def is_int64_def)

lemma is_int64_sat64: "is_int64 (sat64 x)"
  by (simp add: sat64_def is_int64_def)

section \<open>Characters\<close>

abbreviation code :: "char \<Rightarrow> nat" where "code c \<equiv> of_char c"

definition is_digit :: "char \<Rightarrow> bool" where
  "is_digit c \<longleftrightarrow> 48 \<le> code c \<and> code c \<le> 57"

definition is_lower :: "char \<Rightarrow> bool" where
  "is_lower c \<longleftrightarrow> 97 \<le> code c \<and> code c \<le> 122"

definition is_upper :: "char \<Rightarrow> bool" where
  "is_upper c \<longleftrightarrow> 65 \<le> code c \<and> code c \<le> 90"

definition digit_char :: "nat \<Rightarrow> char" where
  "digit_char n = ''0123456789'' ! n"

definition digit_val :: "char \<Rightarrow> nat" where
  "digit_val c = code c - 48"

definition to_lower_char :: "char \<Rightarrow> char" where
  "to_lower_char c = (if is_upper c then ''abcdefghijklmnopqrstuvwxyz'' ! (code c - 65) else c)"

definition to_upper_char :: "char \<Rightarrow> char" where
  "to_upper_char c = (if is_lower c then ''ABCDEFGHIJKLMNOPQRSTUVWXYZ'' ! (code c - 97) else c)"

text \<open>\<open>strings.ToLower\<close> and \<open>strings.ToUpper\<close> on ASCII text.\<close>

definition to_lower :: "string \<Rightarrow> string" where
  "to_lower s = map to_lower_char s"

definition to_upper :: "string \<Rightarrow> string" where
  "to_upper s = map to_upper_char s"

text \<open>
  \<open>strings.EqualFold\<close>.  The sources compare hexadecimal addresses with it; the ASCII
  folding below agrees with Go's Unicode folding whenever one of the two strings is
  ASCII without the letters k and s, as a hexadecimal address is.
\<close>

definition equal_fold :: "string \<Rightarrow> string \<Rightarrow> bool" where
  "equal_fold s t \<longleftrightarrow> to_lower s = to_lower t"

lemma equal_fold_refl [simp]: "equal_fold s s"
  by (simp add: equal_fold_def)

lemma equal_fold_sym: "equal_fold s t \<Longrightarrow> equal_fold t s"
  by (simp add: equal_fold_def)

lemma length_to_lower [simp]: "length (to_lower s) = length s"
  by (simp add: to_lower_def)

lemma less_10_cases:
  "(n::nat) < 10 \<Longrightarrow> n = 0 \<or> n = 1 \<or> n = 2 \<or> n = 3 \<or> n = 4 \<or> n = 5 \<or> n = 6 \<or> n = 7 \<or> n = 8 \<or> n = 9"
  by presburger

lemma less_16_cases:
  "(n::nat) < 16 \<Longrightarrow> n < 10 \<or> n = 10 \<or> n = 11 \<or> n = 12 \<or> n = 13 \<or> n = 14 \<or> n = 15"
  by presburger

lemma digit_char_code: "n < 10 \<Longrightarrow> code (digit_char n) = 48 + n"
  by (drule less_10_cases) (auto simp: digit_char_def)

lemma is_digit_digit_char [simp]: "n < 10 \<Longrightarrow> is_digit (digit_char n)"
  by (simp add: is_digit_def digit_char_code)

lemma digit_val_digit_char [simp]: "n < 10 \<Longrightarrow> digit_val (digit_char n) = n"
  by (simp add: digit_val_def digit_char_code)

lemma digit_val_less: "is_digit c \<Longrightarrow> digit_val c < 10"
  by (auto simp: is_digit_def digit_val_def)

lemma digit_char_digit_val: "is_digit c \<Longrightarrow> digit_char (digit_val c) = c"
proof -
  assume d: "is_digit c"
  then have "code (digit_char (digit_val c)) = code c"
    by (subst digit_char_code) (auto simp: digit_val_less digit_val_def is_digit_def)
  then show ?thesis by (simp add: of_char_eq_iff)
qed

section \<open>Decimal numbers\<close>

fun nat_str :: "nat \<Rightarrow> string" where
  "nat_str n = (if n < 10 then [digit_char n] else nat_str (n div 10) @ [digit_char (n mod 10)])"

declare nat_str.simps [simp del]

text \<open>\<open>big.Int.String\<close>, \<open>strconv.FormatInt(x, 10)\<close> and \<open>%d\<close>.\<close>

definition int_str :: "int \<Rightarrow> string" where
  "int_str x = (if x < 0 then CHR ''-'' # nat_str (nat (- x)) else nat_str (nat x))"

definition dec_val :: "string \<Rightarrow> nat" where
  "dec_val s = foldl (\<lambda>acc c. 10 * acc + digit_val c) 0 s"

definition all_digits :: "string \<Rightarrow> bool" where
  "all_digits s \<longleftrightarrow> s \<noteq> [] \<and> list_all is_digit s"

text \<open>The sign and the digits of \<open>big.Int.SetString(s, 10)\<close> and \<open>strconv.ParseInt\<close>.\<close>

definition signed_dec :: "string \<Rightarrow> int option" where
  "signed_dec s =
     (case s of
        [] \<Rightarrow> None
      | c # r \<Rightarrow>
          if c = CHR ''-'' then (if all_digits r then Some (- int (dec_val r)) else None)
          else if c = CHR ''+'' then (if all_digits r then Some (int (dec_val r)) else None)
          else (if all_digits s then Some (int (dec_val s)) else None))"

definition big_set_string :: "string \<Rightarrow> int option" where
  "big_set_string s = signed_dec s"

definition parse_int64 :: "string \<Rightarrow> int option" where
  "parse_int64 s =
     (case signed_dec s of
        None \<Rightarrow> None
      | Some x \<Rightarrow> if is_int64 x then Some x else None)"

lemma dec_val_Nil [simp]: "dec_val [] = 0"
  by (simp add: dec_val_def)

lemma dec_val_snoc [simp]: "dec_val (s @ [c]) = 10 * dec_val s + digit_val c"
  by (simp add: dec_val_def)

lemma dec_val_append: "dec_val (s @ t) = dec_val s * 10 ^ length t + dec_val t"
proof (induction t rule: rev_induct)
  case (snoc c t)
  have "dec_val (s @ t @ [c]) = 10 * dec_val (s @ t) + digit_val c"
    using dec_val_snoc [of "s @ t" c] by simp
  with snoc show ?case by (simp add: algebra_simps)
qed simp

lemma dec_val_Cons: "dec_val (c # s) = digit_val c * 10 ^ length s + dec_val s"
  using dec_val_append [of "[c]" s] dec_val_snoc [of "[]" c] by simp

lemma dec_val_bound: "list_all is_digit s \<Longrightarrow> dec_val s < 10 ^ length s"
proof (induction s rule: rev_induct)
  case (snoc c s)
  then have "dec_val s < 10 ^ length s" and "digit_val c < 10"
    by (simp_all add: digit_val_less)
  then have "10 * dec_val s + digit_val c < 10 * 10 ^ length s"
    by linarith
  then show ?case by simp
qed simp

lemma dec_val_nat_str [simp]: "dec_val (nat_str n) = n"
proof (induction n rule: nat_str.induct)
  case (1 n)
  show ?case
  proof (cases "n < 10")
    case True
    then show ?thesis
      using dec_val_snoc [of "[]" "digit_char n"] by (simp add: nat_str.simps [of n])
  next
    case False
    with "1" show ?thesis by (simp add: nat_str.simps [of n])
  qed
qed

lemma nat_str_digits [simp]: "list_all is_digit (nat_str n)"
proof (induction n rule: nat_str.induct)
  case (1 n)
  then show ?case
    by (cases "n < 10") (simp_all add: nat_str.simps [of n])
qed

lemma nat_str_not_Nil [simp]: "nat_str n \<noteq> []"
  by (simp add: nat_str.simps [of n])

lemma all_digits_nat_str [simp]: "all_digits (nat_str n)"
  by (simp add: all_digits_def)

lemma nat_str_inject [simp]: "nat_str m = nat_str n \<longleftrightarrow> m = n"
  by (metis dec_val_nat_str)

lemma length_nat_str: "n < 10 ^ k \<Longrightarrow> 0 < k \<Longrightarrow> length (nat_str n) \<le> k"
proof (induction n arbitrary: k rule: nat_str.induct)
  case (1 n)
  show ?case
  proof (cases "n < 10")
    case False
    with "1.prems" obtain j where j: "k = Suc j" "0 < j" "n div 10 < 10 ^ j"
      by (cases k; cases "k - 1") (auto simp: less_mult_imp_div_less mult.commute)
    from "1.IH" [OF False j(3,2)] False j show ?thesis by (simp add: nat_str.simps [of n])
  qed (use "1.prems" in \<open>simp add: nat_str.simps [of n]\<close>)
qed

lemma length_int_str: "0 \<le> x \<Longrightarrow> x < 10 ^ k \<Longrightarrow> 0 < k \<Longrightarrow> length (int_str x) \<le> k"
  by (simp add: int_str_def length_nat_str nat_less_iff)

lemma hd_nat_str_digit: "is_digit (hd (nat_str n))"
  using nat_str_digits [of n] by (cases "nat_str n") (simp_all)

lemma not_digit_sign [simp]:
  "\<not> is_digit (CHR ''-'')" "\<not> is_digit (CHR ''+'')"
  by (simp_all add: is_digit_def)

lemma signed_dec_digits:
  assumes "all_digits s"
  shows "signed_dec s = Some (int (dec_val s))"
proof (cases s)
  case Nil
  with assms show ?thesis by (simp add: all_digits_def)
next
  case (Cons c r)
  with assms have "is_digit c" by (simp add: all_digits_def)
  then have "c \<noteq> CHR ''-''" and "c \<noteq> CHR ''+''" by auto
  with Cons assms show ?thesis by (simp add: signed_dec_def)
qed

lemma signed_dec_int_str [simp]: "signed_dec (int_str x) = Some x"
proof (cases "x < 0")
  case True
  then show ?thesis by (simp add: int_str_def signed_dec_def)
next
  case False
  then show ?thesis by (simp add: int_str_def signed_dec_digits)
qed

lemma big_set_string_int_str [simp]: "big_set_string (int_str x) = Some x"
  by (simp add: big_set_string_def)

lemma parse_int64_int_str: "is_int64 x \<Longrightarrow> parse_int64 (int_str x) = Some x"
  by (simp add: parse_int64_def)

lemma parse_int64_range: "parse_int64 s = Some x \<Longrightarrow> is_int64 x"
  by (auto simp: parse_int64_def split: option.splits if_splits)

lemma int_str_not_Nil [simp]: "int_str x \<noteq> []"
  by (simp add: int_str_def)

lemma int_str_inject [simp]: "int_str x = int_str y \<longleftrightarrow> x = y"
  by (metis option.inject signed_dec_int_str)

section \<open>Binary digits, for double-precision numbers\<close>

fun bits :: "nat \<Rightarrow> nat" where
  "bits n = (if n = 0 then 0 else Suc (bits (n div 2)))"

declare bits.simps [simp del]

definition round_even :: "nat \<Rightarrow> nat \<Rightarrow> nat" where
  "round_even n m =
     (let q = n div m; r = n mod m
      in if 2 * r < m \<or> (2 * r = m \<and> even q) then q else Suc q)"

lemma bits_le: "n < 2 ^ k \<Longrightarrow> bits n \<le> k"
proof (induction k arbitrary: n)
  case 0
  then show ?case by (simp add: bits.simps [of 0])
next
  case (Suc k)
  then have "n div 2 < 2 ^ k" by simp
  with Suc.IH show ?case by (simp add: bits.simps [of n])
qed

end
