(* ===== verification/GoText.thy ===== *)
theory GoText
  imports Prelude
begin

text \<open>
  The functions of Go's \<open>strings\<close> and \<open>encoding/hex\<close> packages the sources call:
  searching, cutting, splitting and trimming on byte strings, and the hexadecimal codec
  with its round trip.
\<close>

section \<open>Searching and replacing\<close>

text \<open>\<open>strings.Contains\<close>, \<open>strings.HasPrefix\<close>, \<open>strings.ContainsAny\<close>\<close>

fun str_contains :: "string \<Rightarrow> string \<Rightarrow> bool" where
  "str_contains [] sub = (sub = [])"
| "str_contains (c # s) sub = (prefix sub (c # s) \<or> str_contains s sub)"

definition contains_any :: "string \<Rightarrow> string \<Rightarrow> bool" where
  "contains_any s cs = list_ex (\<lambda>c. c \<in> set cs) s"

text \<open>\<open>strings.Replace(s, old, new, 1)\<close> for a non-empty \<open>old\<close>\<close>

fun replace_first :: "string \<Rightarrow> string \<Rightarrow> string \<Rightarrow> string" where
  "replace_first [] old new = []"
| "replace_first (c # s) old new =
     (if prefix old (c # s) then new @ drop (length old) (c # s)
      else c # replace_first s old new)"

lemma str_contains_iff: "str_contains s sub \<longleftrightarrow> sublist sub s"
proof (induction s)
  case (Cons c s)
  then show ?case by (auto simp: sublist_Cons_right)
qed (auto simp: sublist_def)

lemma replace_first_no_match: "\<not> str_contains s old \<Longrightarrow> replace_first s old new = s"
  by (induction s) auto

section \<open>Trimming, cutting and splitting\<close>

text \<open>\<open>strings.TrimLeft\<close> and \<open>strings.TrimRight\<close> with an ASCII cutset\<close>

definition trim_left :: "string \<Rightarrow> string \<Rightarrow> string" where
  "trim_left s cs = dropWhile (\<lambda>c. c \<in> set cs) s"

definition trim_right :: "string \<Rightarrow> string \<Rightarrow> string" where
  "trim_right s cs = rev (dropWhile (\<lambda>c. c \<in> set cs) (rev s))"

definition trim_prefix :: "string \<Rightarrow> string \<Rightarrow> string" where
  "trim_prefix s p = (if prefix p s then drop (length p) s else s)"

text \<open>
  \<open>strings.TrimSpace\<close>: the ASCII white space and, in UTF-8, the other code points with
  Unicode's White Space property.
\<close>

definition space_seqs :: "string list" where
  "space_seqs =
     [[CHR 0x20], [CHR 0x09], [CHR 0x0A], [CHR 0x0B], [CHR 0x0C], [CHR 0x0D],
      [CHR 0xC2, CHR 0x85], [CHR 0xC2, CHR 0xA0], [CHR 0xE1, CHR 0x9A, CHR 0x80],
      [CHR 0xE2, CHR 0x80, CHR 0x80], [CHR 0xE2, CHR 0x80, CHR 0x81],
      [CHR 0xE2, CHR 0x80, CHR 0x82], [CHR 0xE2, CHR 0x80, CHR 0x83],
      [CHR 0xE2, CHR 0x80, CHR 0x84], [CHR 0xE2, CHR 0x80, CHR 0x85],
      [CHR 0xE2, CHR 0x80, CHR 0x86], [CHR 0xE2, CHR 0x80, CHR 0x87],
      [CHR 0xE2, CHR 0x80, CHR 0x88], [CHR 0xE2, CHR 0x80, CHR 0x89],
      [CHR 0xE2, CHR 0x80, CHR 0x8A], [CHR 0xE2, CHR 0x80, CHR 0xA8],
      [CHR 0xE2, CHR 0x80, CHR 0xA9], [CHR 0xE2, CHR 0x80, CHR 0xAF],
      [CHR 0xE2, CHR 0x81, CHR 0x9F], [CHR 0xE3, CHR 0x80, CHR 0x80]]"

definition strip_one :: "string list \<Rightarrow> string \<Rightarrow> string option" where
  "strip_one seqs s =
     (case find (\<lambda>p. prefix p s) seqs of None \<Rightarrow> None | Some p \<Rightarrow> Some (drop (length p) s))"

fun strip_all :: "nat \<Rightarrow> string list \<Rightarrow> string \<Rightarrow> string" where
  "strip_all 0 seqs s = s"
| "strip_all (Suc n) seqs s =
     (case strip_one seqs s of None \<Rightarrow> s | Some r \<Rightarrow> strip_all n seqs r)"

definition trim_space :: "string \<Rightarrow> string" where
  "trim_space s =
     (let l = strip_all (length s) space_seqs s
      in rev (strip_all (length l) (map rev space_seqs) (rev l)))"

text \<open>\<open>strings.Cut\<close> at a one-byte separator, \<open>strings.SplitN\<close> and \<open>strings.Split\<close>\<close>

definition cut_at :: "char \<Rightarrow> string \<Rightarrow> string \<times> string \<times> bool" where
  "cut_at c s =
     (let a = takeWhile (\<lambda>x. x \<noteq> c) s
      in (a, drop (Suc (length a)) s, c \<in> set s))"

fun split_n :: "nat \<Rightarrow> char \<Rightarrow> string \<Rightarrow> string list" where
  "split_n 0 c s = []"
| "split_n (Suc 0) c s = [s]"
| "split_n (Suc (Suc n)) c s =
     (case cut_at c s of (a, b, found) \<Rightarrow> if found then a # split_n (Suc n) c b else [s])"

definition split_all :: "char \<Rightarrow> string \<Rightarrow> string list" where
  "split_all c s = split_n (Suc (length s)) c s"

lemma strip_one_ascii:
  assumes "c \<notin> set (map hd space_seqs)"
  shows "strip_one space_seqs (c # s) = None"
proof -
  have "\<not> prefix p (c # s)" if p: "p \<in> set space_seqs" for p
  proof
    assume pre: "prefix p (c # s)"
    from p have ne: "p \<noteq> []" by (auto simp: space_seqs_def)
    with pre have "hd p = c" by (cases p) auto
    with p assms show False by auto
  qed
  then show ?thesis by (auto simp: strip_one_def find_None_iff split: option.splits)
qed

lemma strip_all_none: "strip_one seqs s = None \<Longrightarrow> strip_all n seqs s = s"
  by (cases n) simp_all

lemma strip_one_rev:
  assumes "c \<notin> set (map last space_seqs)"
  shows "strip_one (map rev space_seqs) (c # s) = None"
proof -
  have "\<not> prefix p (c # s)" if p: "p \<in> set (map rev space_seqs)" for p
  proof
    assume pre: "prefix p (c # s)"
    from p obtain q where q: "q \<in> set space_seqs" "p = rev q" by auto
    then have ne: "q \<noteq> []" by (auto simp: space_seqs_def)
    with pre q have "last q = c" by (cases q rule: rev_cases) auto
    with q assms show False by auto
  qed
  then show ?thesis by (auto simp: strip_one_def find_None_iff split: option.splits)
qed

text \<open>Printable ASCII is never trimmed.\<close>

lemma trim_space_id:
  assumes "\<And>c. c \<in> set s \<Longrightarrow> 32 < code c \<and> code c < 127"
  shows "trim_space s = s"
proof (cases s)
  case Nil
  then show ?thesis by (simp add: trim_space_def)
next
  case (Cons c r)
  have notin: "d \<notin> set (map hd space_seqs)" "d \<notin> set (map last space_seqs)" if "d \<in> set s" for d
    using assms [OF that] by (auto simp: space_seqs_def)
  have l: "strip_all n space_seqs s = s" for n
    using Cons notin [of c] by (intro strip_all_none) (simp add: strip_one_ascii)
  obtain d t where d: "rev s = d # t" using Cons by (cases "rev s") auto
  then have "d \<in> set s" by (metis list.set_intros(1) set_rev)
  then have "strip_one (map rev space_seqs) (rev s) = None"
    using d notin(2) by (simp add: strip_one_rev)
  then show ?thesis by (simp add: trim_space_def l strip_all_none)
qed

lemma takeWhile_sep: "c \<notin> set a \<Longrightarrow> takeWhile (\<lambda>x. x \<noteq> c) (a @ c # b) = a"
  by (induction a) auto

lemma takeWhile_no_sep: "c \<notin> set a \<Longrightarrow> takeWhile (\<lambda>x. x \<noteq> c) a = a"
  by (induction a) auto

lemma cut_at_found:
  "c \<in> set s \<Longrightarrow> cut_at c s = (a, b, f) \<Longrightarrow> s = a @ c # b \<and> c \<notin> set a \<and> f"
proof -
  assume c: "c \<in> set s" and e: "cut_at c s = (a, b, f)"
  from split_list_first [OF c] obtain ys zs where s: "s = ys @ c # zs" "c \<notin> set ys"
    by blast
  then have "takeWhile (\<lambda>x. x \<noteq> c) s = ys"
    by (simp add: takeWhile_sep)
  with e s show ?thesis by (auto simp: cut_at_def Let_def)
qed

lemma cut_at_append [simp]: "c \<notin> set a \<Longrightarrow> cut_at c (a @ c # b) = (a, b, True)"
  by (simp add: cut_at_def Let_def takeWhile_sep)

lemma cut_at_absent [simp]: "c \<notin> set s \<Longrightarrow> cut_at c s = (s, [], False)"
  by (simp add: cut_at_def Let_def takeWhile_no_sep)

lemma length_split_n: "length (split_n n c s) \<le> n"
  by (induction n c s rule: split_n.induct) (auto split: prod.splits)

section \<open>Hexadecimal\<close>

definition hex_char :: "nat \<Rightarrow> char" where
  "hex_char n = ''0123456789abcdef'' ! n"

definition hex_val :: "char \<Rightarrow> nat option" where
  "hex_val c =
     (if is_digit c then Some (code c - 48)
      else if 97 \<le> code c \<and> code c \<le> 102 then Some (code c - 87)
      else if 65 \<le> code c \<and> code c \<le> 70 then Some (code c - 55)
      else None)"

text \<open>\<open>hex.EncodeToString\<close>: lower case, high nibble first.\<close>

fun hex_encode :: "bytes \<Rightarrow> string" where
  "hex_encode [] = []"
| "hex_encode (b # bs) = hex_char (unat b div 16) # hex_char (unat b mod 16) # hex_encode bs"

text \<open>\<open>hex.Decode\<close> and \<open>hex.DecodeString\<close>: either case, an even number of digits.\<close>

fun hex_decode :: "string \<Rightarrow> bytes option" where
  "hex_decode [] = Some []"
| "hex_decode [c] = None"
| "hex_decode (c # d # s) =
     (case (hex_val c, hex_val d, hex_decode s) of
        (Some a, Some b, Some bs) \<Rightarrow> Some (word_of_nat (16 * a + b) # bs)
      | _ \<Rightarrow> None)"

lemma hex_char_code: "n < 16 \<Longrightarrow> code (hex_char n) = (if n < 10 then 48 + n else 87 + n)"
proof -
  assume n: "n < 16"
  have "\<forall>n < 16. code (''0123456789abcdef'' ! n) = (if n < 10 then 48 + n else 87 + n)"
    by (simp add: All_less_Suc numeral_eq_Suc)
  with n show ?thesis by (simp add: hex_char_def)
qed

lemma hex_val_hex_char [simp]: "n < 16 \<Longrightarrow> hex_val (hex_char n) = Some n"
  by (auto simp: hex_val_def is_digit_def hex_char_code)

lemma hex_val_less: "hex_val c = Some n \<Longrightarrow> n < 16"
  by (auto simp: hex_val_def is_digit_def split: if_splits)

lemma to_upper_char_code: "is_lower c \<Longrightarrow> code (to_upper_char c) = code c - 32"
proof -
  assume l: "is_lower c"
  have tab: "\<forall>n < 26. code (''ABCDEFGHIJKLMNOPQRSTUVWXYZ'' ! n) = 65 + n"
    by (simp add: All_less_Suc numeral_eq_Suc)
  from l have "code c - 97 < 26" "97 \<le> code c" by (auto simp: is_lower_def)
  with tab l show ?thesis by (simp add: to_upper_char_def)
qed

lemma to_lower_char_code: "is_upper c \<Longrightarrow> code (to_lower_char c) = code c + 32"
proof -
  assume l: "is_upper c"
  have tab: "\<forall>n < 26. code (''abcdefghijklmnopqrstuvwxyz'' ! n) = 97 + n"
    by (simp add: All_less_Suc numeral_eq_Suc)
  from l have "code c - 65 < 26" "65 \<le> code c" by (auto simp: is_upper_def)
  with tab l show ?thesis by (simp add: to_lower_char_def)
qed

lemma no_upper: "is_upper c \<Longrightarrow> \<not> is_upper (to_lower_char c)"
  using to_lower_char_code [of c] by (auto simp: is_upper_def)

lemma to_lower_idem: "to_lower (to_lower s) = to_lower s"
proof -
  have "to_lower_char (to_lower_char c) = to_lower_char c" for c
    using no_upper [of c] by (cases "is_upper c") (simp_all add: to_lower_char_def [of "to_lower_char c"],
      simp add: to_lower_char_def)
  then show ?thesis by (simp add: to_lower_def comp_def)
qed

lemma hex_val_to_upper [simp]: "hex_val c = Some n \<Longrightarrow> hex_val (to_upper_char c) = Some n"
proof (cases "is_lower c")
  case True
  assume "hex_val c = Some n"
  with True have n: "n = code c - 87" "97 \<le> code c" "code c \<le> 102"
    by (auto simp: hex_val_def is_digit_def is_lower_def split: if_splits)
  with True show ?thesis
    by (auto simp: hex_val_def is_digit_def to_upper_char_code)
qed (simp add: to_upper_char_def)

lemma length_hex_encode [simp]: "length (hex_encode bs) = 2 * length bs"
  by (induction bs) simp_all

lemma byte_split: "word_of_nat (16 * (unat b div 16) + unat b mod 16) = (b :: byte)"
  by simp

lemma nibble_less [simp]: "unat (b :: byte) div 16 < 16"
  using unsigned_less [of b, where ?'a = nat] by simp

lemma hex_decode_encode [simp]: "hex_decode (hex_encode bs) = Some bs"
  by (induction bs) (simp_all add: byte_split)

lemma hex_decode_length: "hex_decode s = Some bs \<Longrightarrow> length s = 2 * length bs"
  by (induction s arbitrary: bs rule: hex_decode.induct) (auto split: option.splits)

text \<open>The decoder does not see the letter case: the checksum casing of an address is lost.\<close>

lemma hex_decode_case:
  assumes "list_all2 (\<lambda>c d. c = d \<or> c = to_upper_char d) s t" "hex_decode t = Some bs"
  shows "hex_decode s = Some bs"
  using assms
proof (induction t arbitrary: s bs rule: hex_decode.induct)
  case (3 c d t)
  then obtain c' d' s' where s: "s = c' # d' # s'"
    and c: "c' = c \<or> c' = to_upper_char c" and d: "d' = d \<or> d' = to_upper_char d"
    and r: "list_all2 (\<lambda>c d. c = d \<or> c = to_upper_char d) s' t"
    by (auto simp: list_all2_Cons2)
  from "3.prems"(2) obtain a b bs' where v: "hex_val c = Some a" "hex_val d = Some b"
    "hex_decode t = Some bs'" "bs = word_of_nat (16 * a + b) # bs'"
    by (auto split: option.splits)
  from v(1,2) c d have "hex_val c' = Some a" "hex_val d' = Some b" by auto
  with "3.IH" [OF r v(3)] v s show ?case by simp
qed (auto simp: list_all2_Cons2)

text \<open>\<open>evm.Hex\<close> and the byte view of a string\<close>

definition str_bytes :: "string \<Rightarrow> bytes" where
  "str_bytes s = map of_char s"

lemma length_str_bytes [simp]: "length (str_bytes s) = length s"
  by (simp add: str_bytes_def)

lemma str_bytes_inject [simp]: "str_bytes s = str_bytes t \<longleftrightarrow> s = t"
proof -
  have "inj (of_char :: char \<Rightarrow> byte)"
  proof (rule injI)
    fix c d :: char
    assume "(of_char c :: byte) = of_char d"
    then have "word_of_nat (code c) = (word_of_nat (code d) :: byte)"
      by (simp only: of_nat_of_char)
    then have "unat (word_of_nat (code c) :: byte) = unat (word_of_nat (code d) :: byte)"
      by simp
    then have "code c = code d"
      by (simp add: unat_of_nat)
    then show "c = d" by (simp add: of_char_eq_iff)
  qed
  then show ?thesis by (simp add: str_bytes_def inj_map_eq_map)
qed

lemma equal_fold_lower: "to_lower s = to_lower t \<longleftrightarrow> equal_fold s t"
  by (simp add: equal_fold_def)

end
