(* ===== verification/Redis.thy ===== *)
theory Redis
  imports GoText
begin

text \<open>
  Redis as the sources use it.  The server is a parameter: the record \<open>redis\<close> holds one
  function per command over a state of any type, with \<open>rd_view\<close>, what a client can observe
  of the keys at a time, and \<open>rd_stream\<close>, a stream with its consumer group.  The
  documented behaviour of each command is a function on those observations (\<open>ks_incrby\<close> and
  so on); \<open>redis_laws\<close> says that the server behaves so.  Times are the server's clock in
  milliseconds.  A call over the network can be lost before or after the server ran it, or
  be run twice by the client's retry (\<open>deliver\<close>).
\<close>

section \<open>Keys and their documented commands\<close>

type_synonym fields = "(string \<times> string) list"

datatype rvalue = RString string | RHash fields

text \<open>A key holds a value and, if it expires, the time at which it is gone.\<close>

type_synonym keyspace = "string \<Rightarrow> (rvalue \<times> int option) option"

definition alive :: "int \<Rightarrow> rvalue \<times> int option \<Rightarrow> bool" where
  "alive now v = (case snd v of None \<Rightarrow> True | Some t \<Rightarrow> now < t)"

definition live_at :: "int \<Rightarrow> keyspace \<Rightarrow> keyspace" where
  "live_at now ks = (\<lambda>k. case ks k of None \<Rightarrow> None | Some v \<Rightarrow> if alive now v then Some v else None)"

definition ks_get :: "keyspace \<Rightarrow> string \<Rightarrow> (unit, string option) result" where
  "ks_get ks k =
     (case ks k of
        None \<Rightarrow> Inr None
      | Some (RString v, _) \<Rightarrow> Inr (Some v)
      | Some (RHash _, _) \<Rightarrow> Inl ())"

definition ks_set_nx_px :: "keyspace \<Rightarrow> int \<Rightarrow> string \<Rightarrow> string \<Rightarrow> int \<Rightarrow> keyspace \<times> (unit, bool) result" where
  "ks_set_nx_px ks now k v ttl =
     (if ttl \<le> 0 then (ks, Inl ())
      else if ks k \<noteq> None then (ks, Inr False)
      else (ks(k \<mapsto> (RString v, Some (now + ttl))), Inr True))"

definition ks_incrby :: "keyspace \<Rightarrow> string \<Rightarrow> int \<Rightarrow> keyspace \<times> (unit, int) result" where
  "ks_incrby ks k n =
     (case ks k of
        None \<Rightarrow> (ks(k \<mapsto> (RString (int_str n), None)), Inr n)
      | Some (RString v, e) \<Rightarrow>
          (case parse_int64 v of
             None \<Rightarrow> (ks, Inl ())
           | Some m \<Rightarrow>
               if is_int64 (m + n) then (ks(k \<mapsto> (RString (int_str (m + n)), e)), Inr (m + n))
               else (ks, Inl ()))
      | Some (RHash _, _) \<Rightarrow> (ks, Inl ()))"

definition ks_pexpire :: "keyspace \<Rightarrow> int \<Rightarrow> string \<Rightarrow> int \<Rightarrow> keyspace" where
  "ks_pexpire ks now k ttl =
     (case ks k of
        None \<Rightarrow> ks
      | Some (v, _) \<Rightarrow> if ttl \<le> 0 then ks(k := None) else ks(k \<mapsto> (v, Some (now + ttl))))"

definition ks_hmget :: "keyspace \<Rightarrow> string \<Rightarrow> string list \<Rightarrow> (unit, string option list) result" where
  "ks_hmget ks k fs =
     (case ks k of
        None \<Rightarrow> Inr (map (\<lambda>_. None) fs)
      | Some (RHash h, _) \<Rightarrow> Inr (map (map_of h) fs)
      | Some (RString _, _) \<Rightarrow> Inl ())"

definition ks_hset :: "keyspace \<Rightarrow> string \<Rightarrow> fields \<Rightarrow> keyspace \<times> (unit, unit) result" where
  "ks_hset ks k fs =
     (case ks k of
        None \<Rightarrow> (ks(k \<mapsto> (RHash (rev fs), None)), Inr ())
      | Some (RHash h, e) \<Rightarrow> (ks(k \<mapsto> (RHash (rev fs @ h), e)), Inr ())
      | Some (RString _, _) \<Rightarrow> (ks, Inl ()))"

section \<open>Streams with one consumer group\<close>

text \<open>
  A stream: its entries by id, how many of the ids added so far the group has delivered, and
  the pending entries, each with its delivery count and the time of its last delivery.
\<close>

record stream =
  sm_entries :: "(nat \<times> fields) list"
  sm_next :: nat
  sm_delivered :: nat
  sm_pending :: "(nat \<times> nat \<times> int) list"

definition empty_stream :: stream where
  "empty_stream = \<lparr>sm_entries = [], sm_next = 0, sm_delivered = 0, sm_pending = []\<rparr>"

text \<open>
  \<open>XADD\<close>: a new id after every id of the past.  With \<open>MAXLEN ~\<close> the oldest entries may be
  dropped, never below the limit: the number dropped is the server's choice.
\<close>

definition sm_xadd :: "nat \<Rightarrow> stream \<Rightarrow> fields \<Rightarrow> stream" where
  "sm_xadd dropped st fs =
     st\<lparr>sm_entries := drop dropped (sm_entries st @ [(sm_next st, fs)]), sm_next := Suc (sm_next st)\<rparr>"

definition xadd_drops :: "nat option \<Rightarrow> stream \<Rightarrow> nat \<Rightarrow> bool" where
  "xadd_drops limit st d \<longleftrightarrow>
     d = 0 \<or> (case limit of None \<Rightarrow> False | Some m \<Rightarrow> m + d \<le> Suc (length (sm_entries st)))"

text \<open>\<open>XREADGROUP ... >\<close>: up to \<open>count\<close> entries never delivered to the group, now pending once.\<close>

definition sm_new :: "nat \<Rightarrow> stream \<Rightarrow> (nat \<times> fields) list" where
  "sm_new count st = take count (filter (\<lambda>e. sm_delivered st \<le> fst e) (sm_entries st))"

definition sm_read :: "int \<Rightarrow> nat \<Rightarrow> stream \<Rightarrow> stream \<times> (nat \<times> fields) list" where
  "sm_read now count st =
     (let es = sm_new count st
      in (if es = [] then st
          else st\<lparr>sm_delivered := Suc (fst (last es)),
                  sm_pending := sm_pending st @ map (\<lambda>e. (fst e, 1, now)) es\<rparr>, es))"

text \<open>\<open>XAUTOCLAIM\<close> from an id on: idle pending entries, delivered once more.\<close>

definition sm_idle :: "int \<Rightarrow> int \<Rightarrow> nat \<Rightarrow> stream \<Rightarrow> nat list" where
  "sm_idle now min_idle start st =
     map fst (filter (\<lambda>(i, n, t). start \<le> i \<and> min_idle \<le> now - t) (sm_pending st))"

definition sm_claim :: "int \<Rightarrow> nat list \<Rightarrow> stream \<Rightarrow> stream \<times> (nat \<times> fields) list" where
  "sm_claim now ids st =
     (st\<lparr>sm_pending :=
           map (\<lambda>(i, n, t). if i \<in> set ids then (i, Suc n, now) else (i, n, t))
             (filter (\<lambda>(i, n, t). i \<notin> set ids \<or> i \<in> fst ` set (sm_entries st)) (sm_pending st))\<rparr>,
      filter (\<lambda>e. fst e \<in> set ids) (sm_entries st))"

definition sm_xack :: "nat \<Rightarrow> stream \<Rightarrow> stream" where
  "sm_xack i st = st\<lparr>sm_pending := filter (\<lambda>p. fst p \<noteq> i) (sm_pending st)\<rparr>"

definition sm_deliveries :: "nat \<Rightarrow> stream \<Rightarrow> nat option" where
  "sm_deliveries i st = map_option fst (map_of (sm_pending st) i)"

section \<open>The server as a parameter\<close>

record 'r redis =
  rd_exists :: "'r \<Rightarrow> int \<Rightarrow> string \<Rightarrow> bool"
  rd_get :: "'r \<Rightarrow> int \<Rightarrow> string \<Rightarrow> (unit, string option) result"
  rd_set_nx_px :: "'r \<Rightarrow> int \<Rightarrow> string \<Rightarrow> string \<Rightarrow> int \<Rightarrow> 'r \<times> (unit, bool) result"
  rd_incrby :: "'r \<Rightarrow> int \<Rightarrow> string \<Rightarrow> int \<Rightarrow> 'r \<times> (unit, int) result"
  rd_pexpire :: "'r \<Rightarrow> int \<Rightarrow> string \<Rightarrow> int \<Rightarrow> 'r"
  rd_del :: "'r \<Rightarrow> int \<Rightarrow> string \<Rightarrow> 'r"
  rd_hmget :: "'r \<Rightarrow> int \<Rightarrow> string \<Rightarrow> string list \<Rightarrow> (unit, string option list) result"
  rd_hset :: "'r \<Rightarrow> int \<Rightarrow> string \<Rightarrow> fields \<Rightarrow> 'r \<times> (unit, unit) result"
  rd_xadd :: "'r \<Rightarrow> int \<Rightarrow> string \<Rightarrow> nat option \<Rightarrow> fields \<Rightarrow> 'r \<times> nat"
  rd_read :: "'r \<Rightarrow> int \<Rightarrow> string \<Rightarrow> nat \<Rightarrow> 'r \<times> (nat \<times> fields) list"
  rd_claim :: "'r \<Rightarrow> int \<Rightarrow> string \<Rightarrow> int \<Rightarrow> nat \<Rightarrow> nat \<Rightarrow> 'r \<times> (nat \<times> fields) list \<times> nat"
  rd_deliveries :: "'r \<Rightarrow> int \<Rightarrow> string \<Rightarrow> nat \<Rightarrow> nat option"
  rd_xack :: "'r \<Rightarrow> int \<Rightarrow> string \<Rightarrow> nat \<Rightarrow> 'r"
  rd_view :: "'r \<Rightarrow> int \<Rightarrow> keyspace"
  rd_stream :: "'r \<Rightarrow> string \<Rightarrow> stream"

text \<open>What the key commands do to the observable keys, and that they leave the streams alone\<close>

definition key_laws :: "'r redis \<Rightarrow> bool" where
  "key_laws R \<longleftrightarrow>
     (\<forall>s t t'. t \<le> t' \<longrightarrow> rd_view R s t' = live_at t' (rd_view R s t)) \<and>
     (\<forall>s t k. rd_exists R s t k = (rd_view R s t k \<noteq> None)) \<and>
     (\<forall>s t k. rd_get R s t k = ks_get (rd_view R s t) k) \<and>
     (\<forall>s t k v ttl. rd_view R (fst (rd_set_nx_px R s t k v ttl)) t = fst (ks_set_nx_px (rd_view R s t) t k v ttl) \<and>
        snd (rd_set_nx_px R s t k v ttl) = snd (ks_set_nx_px (rd_view R s t) t k v ttl) \<and>
        rd_stream R (fst (rd_set_nx_px R s t k v ttl)) = rd_stream R s) \<and>
     (\<forall>s t k n. rd_view R (fst (rd_incrby R s t k n)) t = fst (ks_incrby (rd_view R s t) k n) \<and>
        snd (rd_incrby R s t k n) = snd (ks_incrby (rd_view R s t) k n) \<and>
        rd_stream R (fst (rd_incrby R s t k n)) = rd_stream R s) \<and>
     (\<forall>s t k ttl. rd_view R (rd_pexpire R s t k ttl) t = ks_pexpire (rd_view R s t) t k ttl \<and>
        rd_stream R (rd_pexpire R s t k ttl) = rd_stream R s) \<and>
     (\<forall>s t k. rd_view R (rd_del R s t k) t = (rd_view R s t)(k := None) \<and>
        rd_stream R (rd_del R s t k) = rd_stream R s) \<and>
     (\<forall>s t k fs. rd_hmget R s t k fs = ks_hmget (rd_view R s t) k fs) \<and>
     (\<forall>s t k fs. rd_view R (fst (rd_hset R s t k fs)) t = fst (ks_hset (rd_view R s t) k fs) \<and>
        snd (rd_hset R s t k fs) = snd (ks_hset (rd_view R s t) k fs) \<and>
        rd_stream R (fst (rd_hset R s t k fs)) = rd_stream R s)"

text \<open>What the stream commands do to the streams, and that they leave the keys alone\<close>

definition stream_laws :: "'r redis \<Rightarrow> bool" where
  "stream_laws R \<longleftrightarrow>
     (\<forall>s t k limit fs s' i. rd_xadd R s t k limit fs = (s', i) \<longrightarrow>
        i = sm_next (rd_stream R s k) \<and>
        (\<exists>d. xadd_drops limit (rd_stream R s k) d \<and>
           rd_stream R s' = (rd_stream R s)(k := sm_xadd d (rd_stream R s k) fs)) \<and>
        rd_view R s' = rd_view R s) \<and>
     (\<forall>s t k count s' es. rd_read R s t k count = (s', es) \<longrightarrow>
        rd_stream R s' = (rd_stream R s)(k := fst (sm_read t count (rd_stream R s k))) \<and>
        es = snd (sm_read t count (rd_stream R s k)) \<and> rd_view R s' = rd_view R s) \<and>
     (\<forall>s t k idle start count s' es next. rd_claim R s t k idle start count = (s', es, next) \<longrightarrow>
        (let ids = take count (sm_idle t idle start (rd_stream R s k)) in
           rd_stream R s' = (rd_stream R s)(k := fst (sm_claim t ids (rd_stream R s k))) \<and>
           es = snd (sm_claim t ids (rd_stream R s k)) \<and> rd_view R s' = rd_view R s)) \<and>
     (\<forall>s t k i. rd_deliveries R s t k i = sm_deliveries i (rd_stream R s k)) \<and>
     (\<forall>s t k i. rd_stream R (rd_xack R s t k i) = (rd_stream R s)(k := sm_xack i (rd_stream R s k)) \<and>
        rd_view R (rd_xack R s t k i) = rd_view R s)"

definition redis_laws :: "'r redis \<Rightarrow> bool" where
  "redis_laws R \<longleftrightarrow> key_laws R \<and> stream_laws R"

section \<open>Calls over the network\<close>

text \<open>
  What becomes of one call: answered; never run; run, but the answer lost; or lost once,
  run again by the client's retry and answered then.
\<close>

datatype fault = Answered | NotRun | AnswerLost | RunTwice

fun deliver :: "fault \<Rightarrow> ('r \<Rightarrow> 'r \<times> 'a) \<Rightarrow> 'r \<Rightarrow> 'r \<times> 'a option" where
  "deliver Answered f s = (case f s of (s', a) \<Rightarrow> (s', Some a))"
| "deliver NotRun f s = (s, None)"
| "deliver AnswerLost f s = (fst (f s), None)"
| "deliver RunTwice f s = (case f (fst (f s)) of (s', a) \<Rightarrow> (s', Some a))"

section \<open>A server in memory\<close>

type_synonym mem = "keyspace \<times> (string \<Rightarrow> stream)"

definition mem_redis :: "mem redis" where
  "mem_redis =
     \<lparr>rd_exists = (\<lambda>s t k. live_at t (fst s) k \<noteq> None),
      rd_get = (\<lambda>s t k. ks_get (live_at t (fst s)) k),
      rd_set_nx_px = (\<lambda>s t k v ttl. case ks_set_nx_px (live_at t (fst s)) t k v ttl of
                        (ks, r) \<Rightarrow> ((ks, snd s), r)),
      rd_incrby = (\<lambda>s t k n. case ks_incrby (live_at t (fst s)) k n of (ks, r) \<Rightarrow> ((ks, snd s), r)),
      rd_pexpire = (\<lambda>s t k ttl. (ks_pexpire (live_at t (fst s)) t k ttl, snd s)),
      rd_del = (\<lambda>s t k. ((live_at t (fst s))(k := None), snd s)),
      rd_hmget = (\<lambda>s t k fs. ks_hmget (live_at t (fst s)) k fs),
      rd_hset = (\<lambda>s t k fs. case ks_hset (live_at t (fst s)) k fs of (ks, r) \<Rightarrow> ((ks, snd s), r)),
      rd_xadd = (\<lambda>s t k limit fs.
        ((fst s, (snd s)(k := sm_xadd 0 (snd s k) fs)), sm_next (snd s k))),
      rd_read = (\<lambda>s t k count. case sm_read t count (snd s k) of
        (st, es) \<Rightarrow> ((fst s, (snd s)(k := st)), es)),
      rd_claim = (\<lambda>s t k idle start count.
        let ids = take count (sm_idle t idle start (snd s k)) in
        case sm_claim t ids (snd s k) of
          (st, es) \<Rightarrow> ((fst s, (snd s)(k := st)), es, if ids = [] then 0 else Suc (last ids))),
      rd_deliveries = (\<lambda>s t k i. sm_deliveries i (snd s k)),
      rd_xack = (\<lambda>s t k i. (fst s, (snd s)(k := sm_xack i (snd s k)))),
      rd_view = (\<lambda>s t. live_at t (fst s)),
      rd_stream = snd\<rparr>"

definition empty_mem :: mem where
  "empty_mem = (Map.empty, \<lambda>_. empty_stream)"

section \<open>Lemmas\<close>

lemma live_at_None [simp]: "ks k = None \<Longrightarrow> live_at now ks k = None"
  by (simp add: live_at_def)

lemma live_at_idem [simp]: "live_at now (live_at now ks) = live_at now ks"
  by (rule ext) (simp add: live_at_def split: option.splits)

lemma live_at_later: "t \<le> t' \<Longrightarrow> live_at t' (live_at t ks) = live_at t' ks"
  by (rule ext) (auto simp: live_at_def alive_def split: option.splits)

lemma live_at_Some: "live_at now ks k = Some v \<longleftrightarrow> ks k = Some v \<and> alive now v"
  by (auto simp: live_at_def split: option.splits if_splits)

lemma live_at_upd:
  "alive now v \<Longrightarrow> live_at now (ks(k \<mapsto> v)) = (live_at now ks)(k \<mapsto> v)"
  by (rule ext) (simp add: live_at_def)

lemma live_at_upd_same:
  "live_at now ks k = Some (v, b) \<Longrightarrow>
     live_at now ((live_at now ks)(k \<mapsto> (w, b))) = (live_at now ks)(k \<mapsto> (w, b))"
  using live_at_upd [of now "(w, b)" "live_at now ks" k] by (simp add: live_at_Some alive_def)

lemma live_at_del: "live_at now (ks(k := None)) = (live_at now ks)(k := None)"
  by (rule ext) (simp add: live_at_def)

lemma live_at_alive: "live_at now ks k = Some v \<Longrightarrow> alive now v"
  by (simp add: live_at_Some)

lemma alive_simps [simp]:
  "alive now (v, None)"
  "alive now (v, Some t) \<longleftrightarrow> now < t"
  by (simp_all add: alive_def)

lemma mem_redis_laws: "redis_laws mem_redis"
proof -
  have k: "key_laws mem_redis"
    unfolding key_laws_def mem_redis_def
    by (auto simp: live_at_later live_at_del ks_set_nx_px_def ks_incrby_def ks_pexpire_def ks_hset_def
        live_at_upd live_at_upd_same split: option.splits rvalue.splits if_splits prod.splits)
  have "stream_laws mem_redis"
    unfolding stream_laws_def mem_redis_def
    by (auto simp: xadd_drops_def Let_def split: prod.splits)
  with k show ?thesis by (simp add: redis_laws_def)
qed


lemma sm_xadd_keeps_last:
  assumes "xadd_drops limit st d" "limit \<noteq> Some 0"
  shows "(sm_next st, fs) \<in> set (sm_entries (sm_xadd d st fs))"
proof -
  have "d \<le> length (sm_entries st)" using assms by (auto simp: xadd_drops_def split: option.splits)
  then have "drop d (sm_entries st @ [(sm_next st, fs)]) = drop d (sm_entries st) @ [(sm_next st, fs)]" by simp
  then show ?thesis by (simp add: sm_xadd_def)
qed

text \<open>The key laws, one command at a time\<close>

lemma law_time: "key_laws R \<Longrightarrow> t \<le> t' \<Longrightarrow> rd_view R s t' = live_at t' (rd_view R s t)"
  by (simp add: key_laws_def)

lemma law_exists: "key_laws R \<Longrightarrow> rd_exists R s t k = (rd_view R s t k \<noteq> None)"
  by (simp add: key_laws_def)

lemma law_get: "key_laws R \<Longrightarrow> rd_get R s t k = ks_get (rd_view R s t) k"
  by (simp add: key_laws_def)

lemma law_set:
  "key_laws R \<Longrightarrow> rd_set_nx_px R s t k v ttl = (s', r) \<Longrightarrow>
     rd_view R s' t = fst (ks_set_nx_px (rd_view R s t) t k v ttl) \<and>
     r = snd (ks_set_nx_px (rd_view R s t) t k v ttl) \<and> rd_stream R s' = rd_stream R s"
  by (cases "rd_set_nx_px R s t k v ttl") (simp add: key_laws_def split: prod.splits, metis fst_conv snd_conv)

lemma law_incrby:
  "key_laws R \<Longrightarrow> rd_incrby R s t k n = (s', r) \<Longrightarrow>
     rd_view R s' t = fst (ks_incrby (rd_view R s t) k n) \<and>
     r = snd (ks_incrby (rd_view R s t) k n) \<and> rd_stream R s' = rd_stream R s"
  by (cases "rd_incrby R s t k n") (simp add: key_laws_def split: prod.splits, metis fst_conv snd_conv)

lemma law_pexpire:
  "key_laws R \<Longrightarrow> rd_view R (rd_pexpire R s t k ttl) t = ks_pexpire (rd_view R s t) t k ttl"
  "key_laws R \<Longrightarrow> rd_stream R (rd_pexpire R s t k ttl) = rd_stream R s"
  unfolding key_laws_def by blast+

lemma law_del:
  "key_laws R \<Longrightarrow> rd_view R (rd_del R s t k) t = (rd_view R s t)(k := None)"
  "key_laws R \<Longrightarrow> rd_stream R (rd_del R s t k) = rd_stream R s"
  unfolding key_laws_def by blast+

lemma law_hmget: "key_laws R \<Longrightarrow> rd_hmget R s t k fs = ks_hmget (rd_view R s t) k fs"
  by (simp add: key_laws_def)

lemma law_hset:
  "key_laws R \<Longrightarrow> rd_hset R s t k fs = (s', r) \<Longrightarrow>
     rd_view R s' t = fst (ks_hset (rd_view R s t) k fs) \<and>
     r = snd (ks_hset (rd_view R s t) k fs) \<and> rd_stream R s' = rd_stream R s"
  by (cases "rd_hset R s t k fs") (simp add: key_laws_def split: prod.splits, metis fst_conv snd_conv)

lemmas key_law_simps = law_exists law_get law_pexpire law_del law_hmget

lemma redis_lawsD: "redis_laws R \<Longrightarrow> key_laws R" "redis_laws R \<Longrightarrow> stream_laws R"
  by (simp_all add: redis_laws_def)

lemma law_xadd:
  assumes "stream_laws R" "rd_xadd R s t k limit fs = (s', i)"
  obtains d where "i = sm_next (rd_stream R s k)" "xadd_drops limit (rd_stream R s k) d"
    "rd_stream R s' = (rd_stream R s)(k := sm_xadd d (rd_stream R s k) fs)" "rd_view R s' = rd_view R s"
  using assms(1) [unfolded stream_laws_def, THEN conjunct1, rule_format, OF assms(2)] by blast

lemma law_read:
  assumes "stream_laws R" "rd_read R s t k count = (s', es)"
  shows "rd_stream R s' = (rd_stream R s)(k := fst (sm_read t count (rd_stream R s k)))"
    "es = snd (sm_read t count (rd_stream R s k))" "rd_view R s' = rd_view R s"
  using assms(1) [unfolded stream_laws_def, THEN conjunct2, THEN conjunct1, rule_format, OF assms(2)] by blast+

lemma law_claim:
  assumes "stream_laws R" "rd_claim R s t k idle start count = (s', es, next)"
  shows "rd_stream R s' = (rd_stream R s)(k := fst (sm_claim t (take count (sm_idle t idle start (rd_stream R s k)))
      (rd_stream R s k)))"
    "es = snd (sm_claim t (take count (sm_idle t idle start (rd_stream R s k))) (rd_stream R s k))"
    "rd_view R s' = rd_view R s"
  using assms(1) [unfolded stream_laws_def Let_def, THEN conjunct2, THEN conjunct2, THEN conjunct1,
      rule_format, OF assms(2)] by blast+

lemma law_deliveries:
  "stream_laws R \<Longrightarrow> rd_deliveries R s t k i = sm_deliveries i (rd_stream R s k)"
  by (simp add: stream_laws_def)

lemma law_xack:
  assumes "stream_laws R"
  shows "rd_stream R (rd_xack R s t k i) = (rd_stream R s)(k := sm_xack i (rd_stream R s k))"
    "rd_view R (rd_xack R s t k i) = rd_view R s"
  using assms by (simp_all add: stream_laws_def)

section \<open>Lemmas: well-formed streams\<close>

text \<open>
  The ids of a stream grow; pending entries are delivered ones, each pending once and
  delivered at least once.  Every command keeps this.
\<close>

definition stream_ok :: "stream \<Rightarrow> bool" where
  "stream_ok st \<longleftrightarrow>
     sorted_wrt (<) (map fst (sm_entries st)) \<and> (\<forall>e \<in> set (sm_entries st). fst e < sm_next st) \<and>
     sm_delivered st \<le> sm_next st \<and> distinct (map fst (sm_pending st)) \<and>
     (\<forall>p \<in> set (sm_pending st). fst p < sm_delivered st \<and> 1 \<le> fst (snd p))"

lemma sorted_wrt_drop: "sorted_wrt P xs \<Longrightarrow> sorted_wrt P (drop n xs)"
  by (metis append_take_drop_id sorted_wrt_append)

lemma sorted_wrt_take: "sorted_wrt P xs \<Longrightarrow> sorted_wrt P (take n xs)"
  by (metis append_take_drop_id sorted_wrt_append)

lemma empty_stream_ok [simp]: "stream_ok empty_stream"
  by (simp add: stream_ok_def empty_stream_def)

lemma xadd_ok: "stream_ok st \<Longrightarrow> stream_ok (sm_xadd d st fs)"
proof -
  assume ok: "stream_ok st"
  have "sorted_wrt (<) (map fst (drop d (sm_entries st @ [(sm_next st, fs)])))"
    unfolding drop_map [symmetric] using ok
    by (intro sorted_wrt_drop) (auto simp: stream_ok_def sorted_wrt_append)
  moreover have "\<forall>e \<in> set (drop d (sm_entries st @ [(sm_next st, fs)])). fst e < Suc (sm_next st)"
    using ok by (auto simp: stream_ok_def less_Suc_eq dest!: in_set_dropD)
  ultimately show ?thesis using ok by (auto simp: stream_ok_def sm_xadd_def)
qed

lemma sm_new_ok:
  assumes "stream_ok st" "es = sm_new count st"
  shows "sorted_wrt (<) (map fst es)" "\<forall>e \<in> set es. sm_delivered st \<le> fst e \<and> fst e < sm_next st"
    "es \<noteq> [] \<Longrightarrow> \<forall>e \<in> set es. fst e \<le> fst (last es)"
proof -
  have "sorted_wrt (<) (map fst (filter (\<lambda>e. sm_delivered st \<le> fst e) (sm_entries st)))"
    using assms(1) by (auto simp: stream_ok_def sorted_wrt_map intro: sorted_wrt_filter)
  then show s: "sorted_wrt (<) (map fst es)"
    unfolding assms(2) sm_new_def take_map [symmetric] by (rule sorted_wrt_take)
  show "\<forall>e \<in> set es. sm_delivered st \<le> fst e \<and> fst e < sm_next st"
    using assms by (auto simp: stream_ok_def sm_new_def dest!: in_set_takeD)
  assume "es \<noteq> []"
  then obtain ys y where "es = ys @ [y]" by (metis rev_exhaust)
  with s show "\<forall>e \<in> set es. fst e \<le> fst (last es)" by (auto simp: sorted_wrt_append intro: less_imp_le)
qed

lemma read_ok: "stream_ok st \<Longrightarrow> stream_ok (fst (sm_read now count st))"
proof -
  assume ok: "stream_ok st"
  define es where "es = sm_new count st"
  note n = sm_new_ok [OF ok es_def]
  show ?thesis
  proof (cases "es = []")
    case False
    have d: "distinct (map fst es)" using n(1) by (simp add: strict_sorted_iff)
    have "fst (last es) < sm_next st" using n(2) False by simp
    moreover have "map fst (map (\<lambda>e. (fst e, 1::nat, now)) es) = map fst es" by simp
    moreover have "fst p < Suc (fst (last es))" if "p \<in> set (sm_pending st)" for p
      using that ok n(2) False by (fastforce simp: stream_ok_def dest: last_in_set)
    moreover have "set (map fst (sm_pending st)) \<inter> set (map fst es) = {}"
      using ok n(2) by (fastforce simp: stream_ok_def)
    ultimately show ?thesis
      using ok False n(3) d by (auto simp: stream_ok_def sm_read_def Let_def es_def [symmetric] less_Suc_eq_le o_def)
  qed (simp add: sm_read_def Let_def es_def [symmetric] ok)
qed

lemma claim_ok: "stream_ok st \<Longrightarrow> stream_ok (fst (sm_claim now ids st))"
proof -
  assume ok: "stream_ok st"
  let ?f = "\<lambda>(i, n, t). if i \<in> set ids then (i, Suc n, now) else (i, n, t)"
  have "fst \<circ> ?f = fst" by (rule ext) (auto split: prod.splits)
  moreover have "distinct (map fst (filter P (sm_pending st)))" for P
    using ok by (simp add: stream_ok_def distinct_map_filter)
  ultimately show ?thesis
    using ok by (simp add: stream_ok_def sm_claim_def) (auto split: if_splits)
qed

lemma xack_ok: "stream_ok st \<Longrightarrow> stream_ok (sm_xack i st)"
  by (auto simp: stream_ok_def sm_xack_def distinct_map_filter)

lemma sm_xack_idem [simp]: "sm_xack i (sm_xack i st) = sm_xack i st"
  by (simp add: sm_xack_def filter_filter)

lemma sm_deliveries_xack [simp]: "sm_deliveries i (sm_xack i st) = None"
  by (simp add: sm_deliveries_def sm_xack_def map_of_eq_None_iff image_iff)

lemma sm_deliveries_iff: "stream_ok st \<Longrightarrow> sm_deliveries i st = Some n \<longleftrightarrow> (\<exists>t. (i, n, t) \<in> set (sm_pending st))"
  by (auto simp: sm_deliveries_def stream_ok_def map_of_eq_Some_iff)

end
