(* ===== verification/Evm.thy ===== *)
theory Evm
  imports GoText
begin

text \<open>
  The Ethereum primitives of \<open>internal/evm/evm.go\<close>: addresses and their checksummed
  rendering, ABI words, decimal uint256 and bytes32 parsing, signature recovery and
  signing.  Keccak-256 and secp256k1 are third-party libraries: they are the fields of
  the record \<open>crypto\<close> that the definitions take as an argument, and what the code relies
  on is stated by \<open>crypto_laws\<close>.
\<close>

section \<open>The cryptographic libraries, as a parameter\<close>

record ('pk, 'sk) crypto =
  legacy_keccak :: "bytes \<Rightarrow> bytes"
  recover_compact :: "bytes \<Rightarrow> bytes \<Rightarrow> 'pk option"
  serialize_uncompressed :: "'pk \<Rightarrow> bytes"
  scalar_overflow :: "bytes \<Rightarrow> bool"
  over_half_order :: "bytes \<Rightarrow> bool"
  sign_compact :: "'sk \<Rightarrow> bytes \<Rightarrow> bytes"
  pub_key :: "'sk \<Rightarrow> 'pk"
  secret_of_bytes :: "bytes \<Rightarrow> 'sk option"
  secret_bytes :: "'sk \<Rightarrow> bytes"

text \<open>
  The documented behaviour: a Keccak-256 digest has 32 bytes; a compact signature has 65
  bytes, a low s that does not overflow the group order, and recovers the public key that
  belongs to the signing key; a secret key serialises to 32 bytes from which it is read
  back.
\<close>

definition crypto_laws :: "('pk, 'sk) crypto \<Rightarrow> bool" where
  "crypto_laws C \<longleftrightarrow>
     (\<forall>m. length (legacy_keccak C m) = 32) \<and>
     (\<forall>k d. length d = 32 \<longrightarrow>
        length (sign_compact C k d) = 65 \<and>
        \<not> scalar_overflow C (drop 33 (sign_compact C k d)) \<and>
        \<not> over_half_order C (drop 33 (sign_compact C k d)) \<and>
        recover_compact C (sign_compact C k d) d = Some (pub_key C k)) \<and>
     (\<forall>k. length (secret_bytes C k) = 32 \<and> secret_of_bytes C (secret_bytes C k) = Some k)"

lemma keccak_length: "crypto_laws C \<Longrightarrow> length (legacy_keccak C m) = 32"
  by (simp add: crypto_laws_def)

section \<open>Errors\<close>

datatype evm_error =
    WantAddress string
  | AddressHex string
  | WantDigits string
  | OutOfRange string
  | WantBytes32 string
  | Bytes32Hex string
  | SigLength nat
  | SigRecoveryId byte
  | SigHighS
  | SigRecover
  | SigShape nat
  | SigHex
  | KeyShape
  | KeyRange

section \<open>Hashing\<close>

definition keccak256 :: "('pk, 'sk) crypto \<Rightarrow> bytes list \<Rightarrow> bytes" where
  "keccak256 C parts = legacy_keccak C (concat parts)"

section \<open>Addresses\<close>

text \<open>Go's array type \<open>[20]byte\<close>: a byte list of length 20.\<close>

type_synonym address = bytes

definition is_address :: "address \<Rightarrow> bool" where
  "is_address a \<longleftrightarrow> length a = 20"

definition zero_address :: address where
  "zero_address = replicate 20 0"

definition has_0x :: "string \<Rightarrow> bool" where
  "has_0x s \<longleftrightarrow> take 2 s = ''0x'' \<or> take 2 s = ''0X''"

definition parse_address :: "string \<Rightarrow> (evm_error, address) result" where
  "parse_address s =
     (if length s \<noteq> 42 \<or> \<not> has_0x s then Inl (WantAddress s)
      else (case hex_decode (drop 2 s) of
              None \<Rightarrow> Inl (AddressHex s)
            | Some a \<Rightarrow> Inr a))"

text \<open>The EIP-55 nibble that decides the case of the i-th hexadecimal digit.\<close>

definition checksum_nibble :: "bytes \<Rightarrow> nat \<Rightarrow> nat" where
  "checksum_nibble h i =
     (if even i then unat (h ! (i div 2)) div 16 else unat (h ! (i div 2)) mod 16)"

definition address_string :: "('pk, 'sk) crypto \<Rightarrow> address \<Rightarrow> string" where
  "address_string C a =
     (let lower = hex_encode a;
          h = keccak256 C [str_bytes lower]
      in ''0x'' @ map (\<lambda>i. if code (CHR ''a'') \<le> code (lower ! i) \<and> 8 \<le> checksum_nibble h i
                              then to_upper_char (lower ! i) else lower ! i)
                      [0..<length lower])"

section \<open>ABI words\<close>

fun nat_bytes :: "nat \<Rightarrow> bytes" where
  "nat_bytes n = (if n = 0 then [] else nat_bytes (n div 256) @ [word_of_nat (n mod 256)])"

declare nat_bytes.simps [simp del]

text \<open>\<open>big.Int.Bytes\<close>: the absolute value, big-endian, without leading zeros.\<close>

definition big_bytes :: "int \<Rightarrow> bytes" where
  "big_bytes v = nat_bytes (nat \<bar>v\<bar>)"

text \<open>\<open>Word\<close> panics on more than 32 bytes (a negative slice bound): \<open>None\<close>.\<close>

definition abi_word :: "bytes \<Rightarrow> bytes option" where
  "abi_word b = (if length b \<le> 32 then Some (replicate (32 - length b) 0 @ b) else None)"

definition uint256_word :: "int \<Rightarrow> bytes option" where
  "uint256_word v = abi_word (big_bytes v)"

definition address_word :: "address \<Rightarrow> bytes option" where
  "address_word a = abi_word a"

text \<open>\<open>big.Int.SetBytes\<close>\<close>

definition be_val :: "bytes \<Rightarrow> nat" where
  "be_val b = foldl (\<lambda>acc x. 256 * acc + unat x) 0 b"

section \<open>Parsing integers and 32-byte values\<close>

definition max_uint256 :: int where
  "max_uint256 = 2 ^ 256 - 1"

definition parse_uint256 :: "string \<Rightarrow> (evm_error, int) result" where
  "parse_uint256 s =
     (if s = [] \<or> trim_left s ''0123456789'' \<noteq> [] then Inl (WantDigits s)
      else (case big_set_string s of
              None \<Rightarrow> Inl (OutOfRange s)
            | Some v \<Rightarrow> if v > max_uint256 then Inl (OutOfRange s) else Inr v))"

definition parse_bytes32 :: "string \<Rightarrow> (evm_error, bytes) result" where
  "parse_bytes32 s =
     (if length s \<noteq> 66 \<or> \<not> has_0x s then Inl (WantBytes32 s)
      else (case hex_decode (drop 2 s) of
              None \<Rightarrow> Inl (Bytes32Hex s)
            | Some b \<Rightarrow> Inr b))"

definition hex_0x :: "bytes \<Rightarrow> string" where
  "hex_0x b = ''0x'' @ hex_encode b"

section \<open>Signatures\<close>

definition pubkey_address :: "('pk, 'sk) crypto \<Rightarrow> 'pk \<Rightarrow> address" where
  "pubkey_address C p = drop 12 (keccak256 C [drop 1 (serialize_uncompressed C p)])"

definition recover :: "('pk, 'sk) crypto \<Rightarrow> bytes \<Rightarrow> bytes \<Rightarrow> (evm_error, address) result" where
  "recover C digest sig =
     (if length sig \<noteq> 65 then Inl (SigLength (length sig))
      else
        let v = (if 27 \<le> sig ! 64 then sig ! 64 - 27 else sig ! 64);
            s = take 32 (drop 32 sig)
        in if 1 < v then Inl (SigRecoveryId (sig ! 64))
           else if scalar_overflow C s \<or> over_half_order C s then Inl SigHighS
           else (case recover_compact C ((27 + v) # take 64 sig) digest of
                   None \<Rightarrow> Inl SigRecover
                 | Some p \<Rightarrow> Inr (pubkey_address C p)))"

definition parse_signature :: "string \<Rightarrow> (evm_error, bytes) result" where
  "parse_signature s =
     (if length s \<noteq> 132 \<or> \<not> has_0x s then Inl (SigShape (length s))
      else (case hex_decode (drop 2 s) of None \<Rightarrow> Inl SigHex | Some b \<Rightarrow> Inr b))"

section \<open>Private keys (the buyer's side)\<close>

definition parse_private_key :: "('pk, 'sk) crypto \<Rightarrow> string \<Rightarrow> (evm_error, 'sk) result" where
  "parse_private_key C s =
     (case parse_bytes32 s of
        Inl _ \<Rightarrow> Inl KeyShape
      | Inr b \<Rightarrow> (case secret_of_bytes C b of None \<Rightarrow> Inl KeyRange | Some k \<Rightarrow> Inr k))"

definition key_hex :: "('pk, 'sk) crypto \<Rightarrow> 'sk \<Rightarrow> string" where
  "key_hex C k = hex_0x (secret_bytes C k)"

definition key_address :: "('pk, 'sk) crypto \<Rightarrow> 'sk \<Rightarrow> address" where
  "key_address C k = pubkey_address C (pub_key C k)"

definition sign_digest :: "('pk, 'sk) crypto \<Rightarrow> 'sk \<Rightarrow> bytes \<Rightarrow> bytes" where
  "sign_digest C k digest =
     (let compact = sign_compact C k digest in drop 1 compact @ [hd compact])"

definition personal_hash :: "('pk, 'sk) crypto \<Rightarrow> bytes \<Rightarrow> bytes" where
  "personal_hash C message =
     keccak256 C
       [str_bytes (CHR 0x19 # ''Ethereum Signed Message:'' @ [CHR 0x0A] @ nat_str (length message)),
        message]"

section \<open>Lemmas: parsing\<close>

lemma parse_address_length: "parse_address s = Inr a \<Longrightarrow> is_address a"
  by (auto simp: parse_address_def is_address_def split: if_splits option.splits
      dest: hex_decode_length)

lemma trim_left_digits: "trim_left s ''0123456789'' = [] \<longleftrightarrow> list_all is_digit s"
proof -
  have set10: "c \<in> set ''0123456789'' \<longleftrightarrow> is_digit c" for c
  proof
    assume "c \<in> set ''0123456789''"
    then show "is_digit c" by (auto simp: is_digit_def)
  next
    assume "is_digit c"
    then have "digit_val c < 10" by (rule digit_val_less)
    then have "digit_char (digit_val c) \<in> set ''0123456789''"
      unfolding digit_char_def by (intro nth_mem) simp
    then show "c \<in> set ''0123456789''"
      by (simp only: digit_char_digit_val [OF \<open>is_digit c\<close>])
  qed
  show ?thesis
    by (simp only: trim_left_def set10 dropWhile_eq_Nil_conv list_all_iff)
qed

lemma parse_uint256_Inr [result_simps]:
  "parse_uint256 s = Inr v \<longleftrightarrow> all_digits s \<and> v = int (dec_val s) \<and> v \<le> max_uint256"
proof (cases "all_digits s")
  case True
  then show ?thesis
    by (auto simp: parse_uint256_def trim_left_digits big_set_string_def signed_dec_digits all_digits_def)
next
  case False
  then show ?thesis
    by (auto simp: parse_uint256_def trim_left_digits all_digits_def)
qed

lemma parse_uint256_bounds: "parse_uint256 s = Inr v \<Longrightarrow> 0 \<le> v \<and> v \<le> max_uint256"
  by (simp add: parse_uint256_Inr)

lemma int_str_nonneg: "0 \<le> v \<Longrightarrow> int_str v = nat_str (nat v)"
  by (simp add: int_str_def)

lemma parse_uint256_int_str: "0 \<le> v \<Longrightarrow> v \<le> max_uint256 \<Longrightarrow> parse_uint256 (int_str v) = Inr v"
  by (simp add: parse_uint256_Inr int_str_nonneg)

lemma has_0x_Cons [simp]: "has_0x (CHR ''0'' # CHR ''x'' # s)"
  by (simp add: has_0x_def)

lemma parse_bytes32_hex: "length b = 32 \<Longrightarrow> parse_bytes32 (hex_0x b) = Inr b"
  by (simp add: parse_bytes32_def hex_0x_def)

lemma parse_bytes32_length: "parse_bytes32 s = Inr b \<Longrightarrow> length b = 32"
  by (auto simp: parse_bytes32_def split: if_splits option.splits dest: hex_decode_length)

lemma parse_signature_hex: "length b = 65 \<Longrightarrow> parse_signature (hex_0x b) = Inr b"
  by (simp add: parse_signature_def hex_0x_def)

lemma parse_signature_length: "parse_signature s = Inr b \<Longrightarrow> length b = 65"
  by (auto simp: parse_signature_def split: if_splits option.splits dest: hex_decode_length)

lemma parse_private_key_hex:
  "crypto_laws C \<Longrightarrow> parse_private_key C (key_hex C k) = Inr k"
  by (simp add: parse_private_key_def key_hex_def crypto_laws_def parse_bytes32_hex)

section \<open>Lemmas: the checksummed rendering\<close>

lemma length_address_string: "is_address a \<Longrightarrow> length (address_string C a) = 42"
  by (simp add: address_string_def Let_def is_address_def)

lemma address_string_case:
  "list_all2 (\<lambda>c d. c = d \<or> c = to_upper_char d) (drop 2 (address_string C a)) (hex_encode a)"
  by (simp add: address_string_def Let_def list_all2_conv_all_nth)

lemma parse_address_string:
  assumes "is_address a"
  shows "parse_address (address_string C a) = Inr a"
proof -
  have "hex_decode (drop 2 (address_string C a)) = Some a"
    by (rule hex_decode_case [OF address_string_case]) simp
  moreover have "has_0x (address_string C a)"
    by (simp add: address_string_def Let_def)
  ultimately show ?thesis
    by (simp add: parse_address_def length_address_string [OF assms])
qed

lemma address_string_inject:
  "is_address a \<Longrightarrow> is_address b \<Longrightarrow> address_string C a = address_string C b \<Longrightarrow> a = b"
  by (metis Inr_inject parse_address_string)

section \<open>Lemmas: ABI words\<close>

lemma be_val_snoc [simp]: "be_val (b @ [x]) = 256 * be_val b + unat x"
  by (simp add: be_val_def)

lemma be_val_Nil [simp]: "be_val [] = 0"
  by (simp add: be_val_def)

lemma be_val_zeros: "be_val (replicate n 0 @ b) = be_val b"
proof (induction b rule: rev_induct)
  case Nil
  show ?case by (induction n) (simp_all add: be_val_def)
next
  case (snoc x b)
  then show ?case using be_val_snoc [of "replicate n 0 @ b" x] by simp
qed

lemma nat_bytes_0 [simp]: "nat_bytes 0 = []"
  by (simp add: nat_bytes.simps [of 0])

lemma be_val_nat_bytes [simp]: "be_val (nat_bytes n) = n"
proof (induction n rule: nat_bytes.induct)
  case (1 n)
  then show ?case
    by (cases "n = 0") (simp_all add: nat_bytes.simps [of n] unat_of_nat)
qed

lemma length_nat_bytes: "n < 256 ^ k \<Longrightarrow> length (nat_bytes n) \<le> k"
proof (induction n arbitrary: k rule: nat_bytes.induct)
  case (1 n)
  show ?case
  proof (cases "n = 0")
    case True
    then show ?thesis by (simp add: nat_bytes.simps [of n])
  next
    case False
    with "1.prems" obtain j where k: "k = Suc j" by (cases k) auto
    with "1.prems" have "n div 256 < 256 ^ j"
      by (simp add: less_mult_imp_div_less mult.commute)
    with "1.IH" False k show ?thesis by (simp add: nat_bytes.simps [of n])
  qed
qed

lemma length_big_bytes: "0 \<le> v \<Longrightarrow> v \<le> max_uint256 \<Longrightarrow> length (big_bytes v) \<le> 32"
proof -
  assume "0 \<le> v" "v \<le> max_uint256"
  then have "nat v < 256 ^ 32" by (simp add: max_uint256_def)
  with \<open>0 \<le> v\<close> show ?thesis by (simp add: big_bytes_def length_nat_bytes)
qed

lemma uint256_word_Some:
  assumes "0 \<le> v" "v \<le> max_uint256"
  obtains w where "uint256_word v = Some w" "length w = 32" "int (be_val w) = v"
proof -
  let ?w = "replicate (32 - length (big_bytes v)) 0 @ big_bytes v"
  have "uint256_word v = Some ?w" and "length ?w = 32"
    using length_big_bytes [OF assms] by (simp_all add: uint256_word_def abi_word_def)
  moreover have "int (be_val ?w) = v"
    using assms by (simp add: be_val_zeros big_bytes_def)
  ultimately show thesis by (rule that)
qed

lemma uint256_word_inject:
  assumes "0 \<le> v" "v \<le> max_uint256" "0 \<le> u" "u \<le> max_uint256"
    and "uint256_word v = uint256_word u"
  shows "v = u"
  using assms uint256_word_Some [OF assms(1,2)] uint256_word_Some [OF assms(3,4)]
  by (metis option.inject)

lemma address_word_Some:
  "is_address a \<Longrightarrow> address_word a = Some (replicate 12 0 @ a)"
  by (simp add: address_word_def abi_word_def is_address_def)

section \<open>Lemmas: recovery\<close>

text \<open>
  An accepted signature has the 65-byte form, a recovery id of 0, 1, 27 or 28 and a low,
  reduced s: the second signature of the malleability pair is refused.
\<close>

lemma recover_Inr:
  assumes "recover C digest sig = Inr a"
  shows "length sig = 65"
    and "sig ! 64 \<in> {0, 1, 27, 28}"
    and "\<not> scalar_overflow C (take 32 (drop 32 sig))"
    and "\<not> over_half_order C (take 32 (drop 32 sig))"
proof -
  have low: "x \<in> {0, 1}" if "\<not> 1 < x" for x :: byte
    using that by (metis (mono_tags) insertCI linorder_not_less word_le_less_eq
        word_less_1 insert_iff)
  from assms show "length sig = 65" "\<not> scalar_overflow C (take 32 (drop 32 sig))"
    "\<not> over_half_order C (take 32 (drop 32 sig))"
    by (auto simp: recover_def Let_def split: if_splits)
  from assms have "\<not> 1 < (if 27 \<le> sig ! 64 then sig ! 64 - 27 else sig ! 64)"
    by (simp add: recover_def Let_def split: if_splits)
  then show "sig ! 64 \<in> {0, 1, 27, 28}"
    by (cases "27 \<le> sig ! 64") (auto dest!: low simp: diff_eq_eq)
qed

lemma recover_sign_digest:
  assumes C: "crypto_laws C" and d: "length d = 32"
    and v: "hd (sign_compact C k d) \<in> {27, 28}"
  shows "recover C d (sign_digest C k d) = Inr (key_address C k)"
proof -
  let ?c = "sign_compact C k d"
  from C d have len: "length ?c = 65" and s: "\<not> scalar_overflow C (drop 33 ?c)"
    "\<not> over_half_order C (drop 33 ?c)" and r: "recover_compact C ?c d = Some (pub_key C k)"
    by (simp_all add: crypto_laws_def)
  from len obtain h t where c: "?c = h # t" and t: "length t = 64" by (cases ?c) auto
  have sig: "sign_digest C k d = t @ [h]" by (simp add: sign_digest_def c)
  have s': "take 32 (drop 32 (t @ [h])) = drop 33 ?c" using t c by simp
  have "(27::byte) \<le> h" and "\<not> 1 < h - 27" and "27 + (h - 27) = h"
    using v c by auto
  then show ?thesis
    using s s' r c t by (simp add: recover_def sig Let_def nth_append key_address_def)
qed

lemma length_sign_digest:
  "crypto_laws C \<Longrightarrow> length d = 32 \<Longrightarrow> length (sign_digest C k d) = 65"
  by (simp add: sign_digest_def Let_def crypto_laws_def)

lemma length_pubkey_address: "crypto_laws C \<Longrightarrow> is_address (pubkey_address C p)"
  by (simp add: pubkey_address_def is_address_def keccak256_def keccak_length)

lemma key_address_is_address: "crypto_laws C \<Longrightarrow> is_address (key_address C k)"
  by (simp add: key_address_def length_pubkey_address)

lemma length_keccak256: "crypto_laws C \<Longrightarrow> length (keccak256 C ps) = 32"
  by (simp add: keccak256_def keccak_length)

end
