(* ===== verification/Samples.thy ===== *)
theory Samples
  imports Evm
begin

text \<open>
  Concrete inputs the witnesses evaluate: an instance of the cryptographic parameter that
  meets its laws (a truncating hash, and signatures that carry the signer's key), and two
  addresses.
\<close>

definition demo_crypto :: "(byte, byte) crypto" where
  "demo_crypto =
     \<lparr>legacy_keccak = (\<lambda>m. take 32 (rev m @ replicate 32 0)),
      recover_compact = (\<lambda>c d. Some (c ! 32)),
      serialize_uncompressed = (\<lambda>p. replicate 64 4 @ [p]),
      scalar_overflow = (\<lambda>s. False),
      over_half_order = (\<lambda>s. s \<noteq> replicate 32 0),
      sign_compact = (\<lambda>k d. 27 # replicate 31 0 @ [k] @ replicate 32 0),
      pub_key = (\<lambda>k. k),
      secret_of_bytes = (\<lambda>b. Some (last b)),
      secret_bytes = (\<lambda>k. replicate 31 0 @ [k])\<rparr>"

lemma demo_laws: "crypto_laws demo_crypto"
  by (auto simp: crypto_laws_def demo_crypto_def nth_append)

lemma demo_sign: "hd (sign_compact demo_crypto k d) \<in> {27, 28}"
  by (simp add: demo_crypto_def)

definition demo_payTo :: address where
  "demo_payTo = replicate 19 0 @ [7]"

lemma is_address_demo [simp]: "is_address demo_payTo"
  by (simp add: demo_payTo_def is_address_def)

end
