(* ===== verification/Json.thy ===== *)
theory Json
  imports GoText
begin

text \<open>
  The parts of Go's \<open>encoding/json\<close> the wire codecs use: JSON values, the compact
  printer \<open>json.Marshal\<close> applies (with its HTML escaping), a parser for JSON text, their
  round trip, and the way Go decodes a value into the fields of a struct.  Text is a byte
  string, taken to be valid UTF-8 (\<open>utf8_text\<close>) where a theorem says so (Go replaces invalid sequences), and the parser does not
  have Go's nesting limit of 10000.
\<close>

section \<open>Values and printer\<close>

datatype json =
    JNull
  | JBool bool
  | JNum string
  | JStr string
  | JArr "json list"
  | JObj "(string \<times> json) list"

definition hex4 :: "nat \<Rightarrow> string" where
  "hex4 n = [hex_char (n div 4096 mod 16), hex_char (n div 256 mod 16),
             hex_char (n div 16 mod 16), hex_char (n mod 16)]"

definition esc_char :: "char \<Rightarrow> string" where
  "esc_char c =
     (if c = CHR 0x22 \<or> c = CHR 0x5C then [CHR 0x5C, c]
      else if c = CHR 0x08 then [CHR 0x5C, CHR ''b'']
      else if c = CHR 0x0C then [CHR 0x5C, CHR ''f'']
      else if c = CHR 0x0A then [CHR 0x5C, CHR ''n'']
      else if c = CHR 0x0D then [CHR 0x5C, CHR ''r'']
      else if c = CHR 0x09 then [CHR 0x5C, CHR ''t'']
      else if code c < 32 \<or> c = CHR ''<'' \<or> c = CHR ''>'' \<or> c = CHR ''&''
        then [CHR 0x5C, CHR ''u''] @ hex4 (code c)
      else [c])"

text \<open>The line separators U+2028 and U+2029 are escaped too.\<close>

fun esc_str :: "string \<Rightarrow> string" where
  "esc_str [] = []"
| "esc_str (c # s) =
     (if prefix [CHR 0xE2, CHR 0x80, CHR 0xA8] (c # s)
      then [CHR 0x5C] @ ''u2028'' @ esc_str (drop 2 s)
      else if prefix [CHR 0xE2, CHR 0x80, CHR 0xA9] (c # s)
      then [CHR 0x5C] @ ''u2029'' @ esc_str (drop 2 s)
      else esc_char c @ esc_str s)"

definition print_str :: "string \<Rightarrow> string" where
  "print_str s = [CHR 0x22] @ esc_str s @ [CHR 0x22]"

fun sep_by :: "string list \<Rightarrow> string" where
  "sep_by [] = []"
| "sep_by [x] = x"
| "sep_by (x # y # xs) = x @ CHR '','' # sep_by (y # xs)"

fun print_json :: "json \<Rightarrow> string" where
  "print_json JNull = ''null''"
| "print_json (JBool b) = (if b then ''true'' else ''false'')"
| "print_json (JNum s) = s"
| "print_json (JStr s) = print_str s"
| "print_json (JArr xs) = ''['' @ sep_by (map print_json xs) @ '']''"
| "print_json (JObj ms) =
     ''{'' @ sep_by (map (\<lambda>(k, v). print_str k @ CHR '':'' # print_json v) ms) @ ''}''"

section \<open>Parser\<close>

definition is_ws :: "char \<Rightarrow> bool" where
  "is_ws c \<longleftrightarrow> c = CHR 0x20 \<or> c = CHR 0x09 \<or> c = CHR 0x0A \<or> c = CHR 0x0D"

definition skip_ws :: "string \<Rightarrow> string" where
  "skip_ws s = dropWhile is_ws s"

definition utf8 :: "nat \<Rightarrow> string" where
  "utf8 n =
     (if n < 128 then [char_of n]
      else if n < 2048 then [char_of (192 + n div 64), char_of (128 + n mod 64)]
      else if n < 65536 then
        [char_of (224 + n div 4096), char_of (128 + n div 64 mod 64), char_of (128 + n mod 64)]
      else [char_of (240 + n div 262144), char_of (128 + n div 4096 mod 64),
            char_of (128 + n div 64 mod 64), char_of (128 + n mod 64)])"

fun hex4_val :: "string \<Rightarrow> nat option" where
  "hex4_val [a, b, c, d] =
     (case (hex_val a, hex_val b, hex_val c, hex_val d) of
        (Some w, Some x, Some y, Some z) \<Rightarrow> Some (4096 * w + 256 * x + 16 * y + z)
      | _ \<Rightarrow> None)"
| "hex4_val _ = None"

definition simple_escape :: "char \<Rightarrow> char option" where
  "simple_escape e =
     (if e = CHR 0x22 \<or> e = CHR 0x5C \<or> e = CHR ''/'' then Some e
      else if e = CHR ''b'' then Some (CHR 0x08)
      else if e = CHR ''f'' then Some (CHR 0x0C)
      else if e = CHR ''n'' then Some (CHR 0x0A)
      else if e = CHR ''r'' then Some (CHR 0x0D)
      else if e = CHR ''t'' then Some (CHR 0x09)
      else None)"

definition is_surrogate :: "nat \<Rightarrow> bool" where
  "is_surrogate n \<longleftrightarrow> 55296 \<le> n \<and> n < 57344"

text \<open>The code point a second escape completes, if the two form a surrogate pair.\<close>

definition low_surrogate :: "nat \<Rightarrow> string \<Rightarrow> nat option" where
  "low_surrogate hi s =
     (if hi < 56320 \<and> take 2 s = [CHR 0x5C, CHR ''u''] then
        (case hex4_val (take 4 (drop 2 s)) of
           Some lo \<Rightarrow> if 56320 \<le> lo \<and> lo < 57344
                      then Some (65536 + (hi - 55296) * 1024 + (lo - 56320)) else None
         | None \<Rightarrow> None)
      else None)"

text \<open>The rest of a string literal, after its opening quote.\<close>

fun json_chars :: "nat \<Rightarrow> string \<Rightarrow> (string \<times> string) option" where
  "json_chars 0 s = None"
| "json_chars (Suc n) [] = None"
| "json_chars (Suc n) (c # r) =
     (if c = CHR 0x22 then Some ([], r)
      else if c = CHR 0x5C then
        (case r of
           [] \<Rightarrow> None
         | e # r2 \<Rightarrow>
             if e = CHR ''u'' then
               (case hex4_val (take 4 r2) of
                  None \<Rightarrow> None
                | Some u \<Rightarrow>
                    if is_surrogate u then
                      (case low_surrogate u (drop 4 r2) of
                         Some p \<Rightarrow> map_option (apfst (\<lambda>t. utf8 p @ t)) (json_chars n (drop 10 r2))
                       | None \<Rightarrow> map_option (apfst (\<lambda>t. utf8 65533 @ t)) (json_chars n (drop 4 r2)))
                    else map_option (apfst (\<lambda>t. utf8 u @ t)) (json_chars n (drop 4 r2)))
             else (case simple_escape e of
                     None \<Rightarrow> None
                   | Some d \<Rightarrow> map_option (apfst (Cons d)) (json_chars n r2)))
      else if code c < 32 then None
      else map_option (apfst (Cons c)) (json_chars n r))"

text \<open>A number literal: the longest prefix of number characters, checked by the grammar.\<close>

definition num_char :: "char \<Rightarrow> bool" where
  "num_char c \<longleftrightarrow> is_digit c \<or> c \<in> set ''+-.eE''"

definition int_part :: "string \<Rightarrow> bool" where
  "int_part s \<longleftrightarrow> all_digits s \<and> (hd s = CHR ''0'' \<longrightarrow> length s = 1)"

definition valid_number :: "string \<Rightarrow> bool" where
  "valid_number s =
     (let t = (if take 1 s = ''-'' then drop 1 s else s);
          i = takeWhile is_digit t;
          r = drop (length i) t;
          f = (if take 1 r = ''.'' then takeWhile is_digit (drop 1 r) else []);
          r2 = (if take 1 r = ''.'' then drop (length f + 1) r else r);
          e = drop 1 r2;
          e2 = (if take 1 e = ''+'' \<or> take 1 e = ''-'' then drop 1 e else e)
      in int_part i \<and> (take 1 r = ''.'' \<longrightarrow> f \<noteq> []) \<and>
         (r2 = [] \<or> (take 1 r2 = ''e'' \<or> take 1 r2 = ''E'') \<and> all_digits e2))"

definition json_number :: "string \<Rightarrow> (json \<times> string) option" where
  "json_number s =
     (let l = takeWhile num_char s
      in if valid_number l then Some (JNum l, drop (length l) s) else None)"

definition json_word :: "string \<Rightarrow> json \<Rightarrow> string \<Rightarrow> (json \<times> string) option" where
  "json_word w v s = (if prefix w s then Some (v, drop (length w) s) else None)"

text \<open>
  Values, elements and members, with fuel; every recursive call is reached after at
  least one consumed character, so the length of the text is enough.
\<close>

fun json_value :: "nat \<Rightarrow> string \<Rightarrow> (json \<times> string) option"
  and json_elems :: "nat \<Rightarrow> string \<Rightarrow> (json list \<times> string) option"
  and json_members :: "nat \<Rightarrow> string \<Rightarrow> ((string \<times> json) list \<times> string) option"
where
  "json_value 0 s = None"
| "json_value (Suc n) s =
     (case skip_ws s of
        [] \<Rightarrow> None
      | c # r \<Rightarrow>
          if c = CHR 0x22 then map_option (apfst JStr) (json_chars (length r) r)
          else if c = CHR ''{'' then
            (case skip_ws r of
               [] \<Rightarrow> None
             | d # r2 \<Rightarrow> if d = CHR ''}'' then Some (JObj [], r2)
                         else map_option (apfst JObj) (json_members n (d # r2)))
          else if c = CHR ''['' then
            (case skip_ws r of
               [] \<Rightarrow> None
             | d # r2 \<Rightarrow> if d = CHR '']'' then Some (JArr [], r2)
                         else map_option (apfst JArr) (json_elems n (d # r2)))
          else if c = CHR ''n'' then json_word ''null'' JNull (c # r)
          else if c = CHR ''t'' then json_word ''true'' (JBool True) (c # r)
          else if c = CHR ''f'' then json_word ''false'' (JBool False) (c # r)
          else json_number (c # r))"
| "json_elems 0 s = None"
| "json_elems (Suc n) s =
     (case json_value n s of
        None \<Rightarrow> None
      | Some (v, r) \<Rightarrow>
          (case skip_ws r of
             [] \<Rightarrow> None
           | c # r2 \<Rightarrow> if c = CHR '','' then map_option (apfst (Cons v)) (json_elems n r2)
                       else if c = CHR '']'' then Some ([v], r2) else None))"
| "json_members 0 s = None"
| "json_members (Suc n) s =
     (case skip_ws s of
        [] \<Rightarrow> None
      | q # r \<Rightarrow>
          if q \<noteq> CHR 0x22 then None
          else (case json_chars (length r) r of
             None \<Rightarrow> None
           | Some (k, r1) \<Rightarrow>
               (case skip_ws r1 of
                  [] \<Rightarrow> None
                | co # r2 \<Rightarrow>
                    if co \<noteq> CHR '':'' then None
                    else (case json_value n r2 of
                       None \<Rightarrow> None
                     | Some (v, r3) \<Rightarrow>
                         (case skip_ws r3 of
                            [] \<Rightarrow> None
                          | c # r4 \<Rightarrow>
                              if c = CHR '','' then map_option (apfst (Cons (k, v))) (json_members n r4)
                              else if c = CHR ''}'' then Some ([(k, v)], r4) else None)))))"

text \<open>\<open>json.Unmarshal\<close>'s syntax: one value and only white space after it.\<close>

definition parse_json :: "string \<Rightarrow> json option" where
  "parse_json s =
     (case json_value (Suc (Suc (length s))) s of
        None \<Rightarrow> None
      | Some (v, r) \<Rightarrow> if skip_ws r = [] then Some v else None)"

section \<open>Round trip of the printer and the parser\<close>

text \<open>
  Text: the number of code points of a byte string, \<open>None\<close> when it is not UTF-8 (an overlong
  form, a surrogate, a code point above U+10FFFF or a cut sequence).
\<close>

definition cont :: "char \<Rightarrow> bool" where
  "cont c \<longleftrightarrow> 128 \<le> code c \<and> code c < 192"

definition rune2 :: "char \<Rightarrow> char \<Rightarrow> bool" where
  "rune2 c d \<longleftrightarrow> 194 \<le> code c \<and> code c < 224 \<and> cont d"

definition rune3 :: "char \<Rightarrow> char \<Rightarrow> char \<Rightarrow> bool" where
  "rune3 c d e \<longleftrightarrow> 224 \<le> code c \<and> code c < 240 \<and> cont d \<and> cont e \<and>
     (code c = 224 \<longrightarrow> 160 \<le> code d) \<and> (code c = 237 \<longrightarrow> code d < 160)"

definition rune4 :: "char \<Rightarrow> char \<Rightarrow> char \<Rightarrow> char \<Rightarrow> bool" where
  "rune4 c d e f \<longleftrightarrow> 240 \<le> code c \<and> code c \<le> 244 \<and> cont d \<and> cont e \<and> cont f \<and>
     (code c = 240 \<longrightarrow> 144 \<le> code d) \<and> (code c = 244 \<longrightarrow> code d < 144)"

text \<open>What follows the first code point\<close>

definition rune_tail :: "char \<Rightarrow> string \<Rightarrow> string option" where
  "rune_tail c s =
     (if code c < 128 then Some s
      else
        (case s of
           d # e # f # r \<Rightarrow>
             if rune2 c d then Some (e # f # r) else if rune3 c d e then Some (f # r)
             else if rune4 c d e f then Some r else None
         | [d, e] \<Rightarrow> if rune2 c d then Some [e] else if rune3 c d e then Some [] else None
         | [d] \<Rightarrow> if rune2 c d then Some [] else None
         | [] \<Rightarrow> None))"

lemma rune_tail_length: "rune_tail c s = Some t \<Longrightarrow> length t \<le> length s"
  by (auto simp: rune_tail_def split: list.splits if_splits)

function rune_count :: "string \<Rightarrow> nat option" where
  "rune_count [] = Some 0"
| "rune_count (c # s) = (case rune_tail c s of None \<Rightarrow> None | Some t \<Rightarrow> map_option Suc (rune_count t))"
  by pat_completeness auto
termination
  by (relation "measure length") (auto dest: rune_tail_length)

definition utf8_text :: "string \<Rightarrow> bool" where
  "utf8_text s \<longleftrightarrow> rune_count s \<noteq> None"

definition ascii :: "string \<Rightarrow> bool" where
  "ascii s \<longleftrightarrow> (\<forall>c \<in> set s. code c < 128)"

lemma rune_tail_ascii [simp]: "code c < 128 \<Longrightarrow> rune_tail c s = Some s"
  by (simp add: rune_tail_def)

lemma rune_count_ascii: "ascii s \<Longrightarrow> rune_count s = Some (length s)"
  by (induction s) (simp_all add: ascii_def)

lemma rune_tail_append: "rune_tail c s = Some t \<Longrightarrow> rune_tail c (s @ b) = Some (t @ b)"
  by (auto simp: rune_tail_def split: list.splits if_splits)

lemma rune_count_append: "rune_count a = Some n \<Longrightarrow> rune_count (a @ b) = map_option ((+) n) (rune_count b)"
proof (induction a arbitrary: n rule: rune_count.induct)
  case 1
  then show ?case by (simp add: option.map_ident)
next
  case (2 c s)
  then obtain t m where t: "rune_tail c s = Some t" "rune_count t = Some m" "n = Suc m"
    by (auto split: option.splits)
  then show ?case using 2(1) [OF t(1,2)] rune_tail_append [OF t(1), of b]
    by (cases "rune_count b") simp_all
qed

lemma rune_count_le: "rune_count s = Some n \<Longrightarrow> n \<le> length s"
  by (induction s arbitrary: n rule: rune_count.induct)
    (fastforce split: option.splits dest: rune_tail_length)+

lemma ascii_utf8 [simp]: "ascii s \<Longrightarrow> utf8_text s"
  by (simp add: utf8_text_def rune_count_ascii)

lemma utf8_text_simps [simp]:
  "utf8_text []"
  "code c < 128 \<Longrightarrow> utf8_text (c # s) = utf8_text s"
  "utf8_text a \<Longrightarrow> utf8_text (a @ b) = utf8_text b"
  by (auto simp: utf8_text_def rune_count_append)

text \<open>
  The values the round trip is for: strings of UTF-8, numbers in the grammar.
\<close>

fun wf_json :: "json \<Rightarrow> bool" where
  "wf_json JNull = True"
| "wf_json (JBool b) = True"
| "wf_json (JNum s) = (valid_number s \<and> list_all num_char s \<and> s \<noteq> [] \<and> hd s \<notin> set ''ntf'')"
| "wf_json (JStr s) = utf8_text s"
| "wf_json (JArr xs) = (\<forall>x \<in> set xs. wf_json x)"
| "wf_json (JObj ms) = (\<forall>(k, v) \<in> set ms. utf8_text k \<and> wf_json v)"

fun fuel_of :: "json \<Rightarrow> nat" where
  "fuel_of (JArr xs) = Suc (length xs + sum_list (map fuel_of xs))"
| "fuel_of (JObj ms) = Suc (length ms + sum_list (map (\<lambda>(k, v). fuel_of v) ms))"
| "fuel_of _ = 1"

text \<open>What may follow a value: nothing that a number literal could take in.\<close>

definition stops :: "string \<Rightarrow> bool" where
  "stops r \<longleftrightarrow> (case r of [] \<Rightarrow> True | c # _ \<Rightarrow> \<not> num_char c)"

lemma stops_simps [simp]:
  "stops []"
  "stops (c # r) \<longleftrightarrow> \<not> num_char c"
  by (simp_all add: stops_def)

lemma num_char_simps [simp]:
  "\<not> num_char (CHR '','')" "\<not> num_char (CHR ''}'')" "\<not> num_char (CHR '']'')"
  by (simp_all add: num_char_def is_digit_def)

lemma skip_ws_Cons [simp]: "skip_ws (c # s) = (if is_ws c then skip_ws s else c # s)"
  by (simp add: skip_ws_def)

lemma skip_ws_Nil [simp]: "skip_ws [] = []"
  by (simp add: skip_ws_def)

lemma hex4_val_hex4 [simp]: "n < 65536 \<Longrightarrow> hex4_val (hex4 n) = Some n"
proof -
  assume n: "n < 65536"
  have d: "n div 256 = n div 16 div 16" "n div 4096 = n div 16 div 16 div 16"
    by (simp_all add: div_mult2_eq [symmetric])
  have "n div 16 div 16 div 16 mod 16 = n div 16 div 16 div 16"
    using n by (simp add: div_mult2_eq [symmetric])
  then have "4096 * (n div 4096) + 256 * (n div 256 mod 16) + 16 * (n div 16 mod 16) + n mod 16 = n"
    unfolding d using div_mult_mod_eq [of n 16] div_mult_mod_eq [of "n div 16" 16]
      div_mult_mod_eq [of "n div 16 div 16" 16] by linarith
  moreover have "n div 4096 < 16" using n by simp
  ultimately show ?thesis by (simp add: hex4_def)
qed

lemma length_hex4 [simp]: "length (hex4 n) = 4"
  by (simp add: hex4_def)

lemma utf8_code [simp]: "code c < 128 \<Longrightarrow> utf8 (code c) = [c]"
  by (simp add: utf8_def)

lemma not_surrogate_code: "code c < 128 \<Longrightarrow> \<not> is_surrogate (code c)"
  by (simp add: is_surrogate_def)

lemma json_chars_esc:
  "json_chars (Suc n) (esc_char c @ r) = map_option (apfst (Cons c)) (json_chars n r)"
proof -
  have [simp]: "(@) [c] = (#) c" by (rule ext) simp
  have u: "json_chars (Suc n) ([CHR 0x5C, CHR ''u''] @ hex4 (code c) @ r)
            = map_option (apfst (Cons c)) (json_chars n r)" if "code c < 128"
    using that by (simp add: not_surrogate_code)
  show ?thesis
    using u by (auto simp: esc_char_def simple_escape_def)
qed

lemma esc_char_not_Nil [simp]: "esc_char c \<noteq> []"
  by (auto simp: esc_char_def)

text \<open>The two separators come back from their escapes.\<close>

lemma json_chars_separator:
  assumes "d \<in> {CHR 0xA8, CHR 0xA9}"
  shows "json_chars (Suc n) ([CHR 0x5C] @ (if d = CHR 0xA8 then ''u2028'' else ''u2029'') @ r) =
    map_option (apfst (\<lambda>t. [CHR 0xE2, CHR 0x80, d] @ t)) (json_chars n r)"
proof -
  have u: "utf8 8232 = [CHR 0xE2, CHR 0x80, CHR 0xA8]" "utf8 8233 = [CHR 0xE2, CHR 0x80, CHR 0xA9]"
    by (simp_all add: utf8_def char_of_eq_iff)
  have h: "hex_val (CHR ''2'') = Some 2" "hex_val (CHR ''0'') = Some 0" "hex_val (CHR ''8'') = Some 8"
    "hex_val (CHR ''9'') = Some 9" by code_simp+
  have f: "(@) (utf8 8232) = (\<lambda>t. CHR 0xE2 # CHR 0x80 # CHR 0xA8 # t)"
    "(@) (utf8 8233) = (\<lambda>t. CHR 0xE2 # CHR 0x80 # CHR 0xA9 # t)" unfolding u by (simp_all add: fun_eq_iff)
  show ?thesis using assms by (auto simp: h f is_surrogate_def)
qed

lemma json_chars_print: "length s < n \<Longrightarrow> json_chars n (esc_str s @ CHR 0x22 # r) = Some (s, r)"
proof (induction s arbitrary: n rule: esc_str.induct)
  case 1
  then show ?case by (cases n) simp_all
next
  case (2 c s)
  then obtain m where n: "n = Suc m" "length s < m" by (cases n) auto
  show ?case
  proof (cases "\<exists>d \<in> {CHR 0xA8, CHR 0xA9}. prefix [CHR 0xE2, CHR 0x80, d] (c # s)")
    case True
    then obtain d t where d: "d \<in> {CHR 0xA8, CHR 0xA9}" and s: "c = CHR 0xE2" "s = CHR 0x80 # d # t"
      unfolding prefix_def by auto
    have t: "json_chars m (esc_str t @ CHR 0x22 # r) = Some (t, r)"
      using 2(1,2) d n s by auto
    have e: "esc_str (c # s) = [CHR 0x5C] @ (if d = CHR 0xA8 then ''u2028'' else ''u2029'') @ esc_str t"
      using d by (auto simp: s)
    show ?thesis
      unfolding e n(1) append_assoc json_chars_separator [OF d] t by (simp add: s)
  next
    case False
    then have "esc_str (c # s) = esc_char c @ esc_str s" by auto
    moreover have "json_chars m (esc_str s @ CHR 0x22 # r) = Some (s, r)" using 2(3) n False by auto
    ultimately show ?thesis using n by (simp add: json_chars_esc del: json_chars.simps esc_str.simps)
  qed
qed

lemma length_esc_str: "length s \<le> length (esc_str s)"
proof (induction s rule: esc_str.induct)
  case (2 c s)
  have "1 \<le> length (esc_char c)" by (simp add: Suc_le_eq)
  with 2 show ?case by (auto simp: prefix_def)
qed simp

lemma print_str_parse: "\<exists>t. print_str s @ r = CHR 0x22 # t \<and> json_chars (length t) t = Some (s, r)"
  using json_chars_print [of s "length (esc_str s @ CHR 0x22 # r)" r] length_esc_str [of s]
  by (simp add: print_str_def)

lemma json_number_print:
  assumes "wf_json (JNum s)" "stops r"
  shows "json_number (s @ r) = Some (JNum s, r)"
proof -
  have "takeWhile num_char (s @ r) = s"
    using assms by (auto simp: takeWhile_append list_all_iff takeWhile_eq_Nil_iff
        split: list.splits) (cases r; auto)
  with assms show ?thesis by (simp add: json_number_def)
qed

lemma num_hd:
  assumes "wf_json (JNum s)"
  obtains c t where "s = c # t" "num_char c" "\<not> is_ws c"
    "c \<notin> {CHR 0x22, CHR ''{'', CHR ''['', CHR ''n'', CHR ''t'', CHR ''f''}"
proof -
  from assms obtain c t where s: "s = c # t" and n: "num_char c" by (cases s) auto
  then have "is_digit c \<or> c = CHR ''+'' \<or> c = CHR ''-'' \<or> c = CHR ''.'' \<or> c = CHR ''e'' \<or> c = CHR ''E''"
    by (auto simp: num_char_def)
  then have "\<not> is_ws c"
    and "c \<notin> {CHR 0x22, CHR ''{'', CHR ''['', CHR ''n'', CHR ''t'', CHR ''f''}"
    by (auto simp: is_ws_def is_digit_def)
  with s n show thesis by (rule that)
qed


definition starts_value :: "string \<Rightarrow> bool" where
  "starts_value s \<longleftrightarrow> (case s of [] \<Rightarrow> False | c # _ \<Rightarrow> \<not> is_ws c \<and> c \<noteq> CHR '']'' \<and> c \<noteq> CHR ''}'')"

lemma starts_value_print:
  assumes "wf_json j"
  shows "starts_value (print_json j)"
proof (cases j)
  case (JNum s)
  with assms have "wf_json (JNum s)" by (simp only:)
  then obtain c t where "s = c # t" "num_char c" "\<not> is_ws c" by (rule num_hd)
  moreover from this have "c \<noteq> CHR '']''" "c \<noteq> CHR ''}''" by auto
  ultimately show ?thesis using JNum by (simp add: starts_value_def)
qed (simp_all add: starts_value_def print_str_def is_ws_def)

lemma starts_valueE:
  assumes "starts_value s"
  obtains c t where "s = c # t" "\<not> is_ws c" "c \<noteq> CHR '']''" "c \<noteq> CHR ''}''"
  using assms that by (cases s) (simp_all add: starts_value_def)

lemma json_elems_print:
  assumes "\<And>x n r. x \<in> set xs \<Longrightarrow> stops r \<Longrightarrow> fuel_of x \<le> n \<Longrightarrow>
             json_value n (print_json x @ r) = Some (x, r)"
    and "xs \<noteq> []" "length xs + sum_list (map fuel_of xs) \<le> n"
  shows "json_elems n (sep_by (map print_json xs) @ CHR '']'' # r) = Some (xs, r)"
  using assms
proof (induction xs arbitrary: n)
  case (Cons x xs)
  then obtain m where n: "n = Suc m" by (cases n) auto
  show ?case
  proof (cases xs)
    case Nil
    with Cons.prems n show ?thesis by (simp add: is_ws_def)
  next
    case (Cons y ys)
    have x: "json_value m (print_json x @ CHR '','' # s) = Some (x, CHR '','' # s)" for s
      using Cons.prems n by simp
    have "json_elems m (sep_by (map print_json xs) @ CHR '']'' # r) = Some (xs, r)"
      using Cons.prems n Cons by (intro Cons.IH) auto
    with x Cons n show ?thesis by (simp add: is_ws_def)
  qed
qed simp

lemma json_members_print:
  assumes "\<And>k v n r. (k, v) \<in> set ms \<Longrightarrow> stops r \<Longrightarrow> fuel_of v \<le> n \<Longrightarrow>
             json_value n (print_json v @ r) = Some (v, r)"
    and "ms \<noteq> []" "length ms + sum_list (map (\<lambda>(k, v). fuel_of v) ms) \<le> n"
  shows "json_members n (sep_by (map (\<lambda>(k, v). print_str k @ CHR '':'' # print_json v) ms) @ CHR ''}'' # r)
           = Some (ms, r)"
  using assms
proof (induction ms arbitrary: n)
  case (Cons m ms)
  obtain k v where m: "m = (k, v)" by (cases m)
  from Cons.prems obtain i where n: "n = Suc i" by (cases n) auto
  have v: "json_value i (print_json v @ s) = Some (v, s)" if "stops s" for s
    using Cons.prems(1) [of k v s i] Cons.prems(3) n m that by simp
  have one: "json_members (Suc i) (print_str k @ CHR '':'' # print_json v @ c # s) =
      (if c = CHR '','' then map_option (apfst (Cons (k, v))) (json_members i s)
       else if c = CHR ''}'' then Some ([(k, v)], s) else None)"
    if c: "c \<in> {CHR '','', CHR ''}''}" for c s
  proof -
    obtain t where t: "print_str k @ CHR '':'' # print_json v @ c # s = CHR 0x22 # t"
      and j: "json_chars (length t) t = Some (k, CHR '':'' # print_json v @ c # s)"
      using print_str_parse by blast
    have "json_value i (print_json v @ c # s) = Some (v, c # s)"
      using c by (intro v) auto
    with j c show ?thesis unfolding t by (auto simp: is_ws_def)
  qed
  show ?case
  proof (cases ms)
    case Nil
    with m n one [of "CHR ''}''" r] show ?thesis by simp
  next
    case (Cons m' ms')
    have "json_members i (sep_by (map (\<lambda>(k, v). print_str k @ CHR '':'' # print_json v) ms) @ CHR ''}'' # r)
            = Some (ms, r)"
    proof (rule Cons.IH)
      show "length ms + sum_list (map (\<lambda>(k, v). fuel_of v) ms) \<le> i"
        using Cons.prems(3) n m by simp
    qed (use Cons.prems(1) Cons in auto)
    with Cons m n one [of "CHR '',''"] show ?thesis by simp
  qed
qed simp

lemma json_value_print:
  "wf_json j \<Longrightarrow> stops r \<Longrightarrow> fuel_of j \<le> n \<Longrightarrow> json_value n (print_json j @ r) = Some (j, r)"
proof (induction j arbitrary: n r)
  case (JNum s)
  then obtain m where n: "n = Suc m" by (cases n) auto
  from JNum.prems(1) obtain c t where s: "s = c # t" "num_char c" "\<not> is_ws c"
    "c \<notin> {CHR 0x22, CHR ''{'', CHR ''['', CHR ''n'', CHR ''t'', CHR ''f''}"
    by (rule num_hd)
  with json_number_print [OF JNum.prems(1,2)] n show ?case by simp
next
  case (JStr s)
  then obtain m where n: "n = Suc m" by (cases n) auto
  from JStr.prems obtain t where "print_str s @ r = CHR 0x22 # t"
    "json_chars (length t) t = Some (s, r)"
    using print_str_parse [of s r] by auto
  with n show ?case by (simp add: is_ws_def)
next
  case (JArr xs)
  then obtain m where n: "n = Suc m" by (cases n) auto
  show ?case
  proof (cases "xs = []")
    case True
    with n show ?thesis by (simp add: is_ws_def)
  next
    case False
    then obtain x ys where xs: "xs = x # ys" by (cases xs) auto
    from JArr.prems xs have "starts_value (print_json x)" by (simp add: starts_value_print)
    then obtain c t where "print_json x = c # t" "\<not> is_ws c" "c \<noteq> CHR '']''"
      by (rule starts_valueE)
    then obtain t' where t': "sep_by (map print_json xs) @ CHR '']'' # r = c # t'" "\<not> is_ws c" "c \<noteq> CHR '']''"
      using xs by (cases ys) auto
    have "json_elems m (sep_by (map print_json xs) @ CHR '']'' # r) = Some (xs, r)"
      using JArr False n by (intro json_elems_print) auto
    with n t' show ?thesis by (simp add: is_ws_def)
  qed
next
  case (JObj ms)
  then obtain m where n: "n = Suc m" by (cases n) auto
  show ?case
  proof (cases "ms = []")
    case True
    with n show ?thesis by (simp add: is_ws_def)
  next
    case False
    let ?p = "sep_by (map (\<lambda>(k, v). print_str k @ CHR '':'' # print_json v) ms)"
    from False obtain k v ys where ms: "ms = (k, v) # ys" by (cases ms) auto
    then obtain t' where t': "?p @ CHR ''}'' # r = CHR 0x22 # t'"
      by (cases ys) (auto simp: print_str_def)
    have "json_members m (?p @ CHR ''}'' # r) = Some (ms, r)"
      using JObj False n by (intro json_members_print) (fastforce)+
    with n t' show ?thesis by (simp add: is_ws_def)
  qed
qed (case_tac n; auto simp: is_ws_def json_word_def)+

lemma length_sep_by:
  "length (sep_by xs) = sum_list (map length xs) + (length xs - 1)"
  by (induction xs rule: sep_by.induct) simp_all

lemma fuel_of_print: "wf_json j \<Longrightarrow> fuel_of j \<le> length (print_json j)"
proof (induction j)
  case (JArr xs)
  then have "sum_list (map fuel_of xs) \<le> sum_list (map (length \<circ> print_json) xs)"
    by (intro sum_list_mono) simp
  then show ?case by (cases xs) (simp_all add: length_sep_by)
next
  case (JObj ms)
  have "sum_list (map (\<lambda>(k, v). fuel_of v) ms)
          \<le> sum_list (map (\<lambda>(k, v). length (print_str k @ CHR '':'' # print_json v)) ms)"
  proof (rule sum_list_mono)
    fix m
    assume m: "m \<in> set ms"
    obtain k v where kv: "m = (k, v)" by (cases m)
    with JObj m have "fuel_of v \<le> length (print_json v)" by fastforce
    with kv show "(case m of (k, v) \<Rightarrow> fuel_of v)
        \<le> (case m of (k, v) \<Rightarrow> length (print_str k @ CHR '':'' # print_json v))" by simp
  qed
  then have "sum_list (map (\<lambda>(k, v). fuel_of v) ms)
      \<le> sum_list (map length (map (\<lambda>(k, v). print_str k @ CHR '':'' # print_json v) ms))"
    by (simp add: comp_def split_def)
  then show ?case by (cases ms) (simp_all add: length_sep_by)
qed (auto simp: print_str_def Suc_le_eq)

lemma parse_print_json: "wf_json j \<Longrightarrow> parse_json (print_json j) = Some j"
proof -
  assume j: "wf_json j"
  have "json_value (Suc (Suc (length (print_json j)))) (print_json j @ []) = Some (j, [])"
    using fuel_of_print [OF j] by (intro json_value_print j) simp_all
  then show ?thesis by (simp add: parse_json_def)
qed

end
