(* ===== verification/Codec.thy ===== *)
theory Codec
  imports Json
begin

text \<open>
  The header codec of \<open>internal/x402/codec.go\<close> below the wire types: base64 with the
  standard alphabet and padding on the way out; on the way in, trimming, the 16 KiB
  limit, either alphabet, padded or not, then one JSON value and nothing after it.
\<close>

section \<open>Base64\<close>

definition std_alphabet :: string where
  "std_alphabet = ''ABCDEFGHIJKLMNOPQRSTUVWXYZabcdefghijklmnopqrstuvwxyz0123456789+/''"

definition url_alphabet :: string where
  "url_alphabet = ''ABCDEFGHIJKLMNOPQRSTUVWXYZabcdefghijklmnopqrstuvwxyz0123456789-_''"

text \<open>The sextets of a byte string, and back; leftover bits of the last group are dropped.\<close>

fun sextets :: "nat list \<Rightarrow> nat list" where
  "sextets [] = []"
| "sextets [a] = [a div 4, a mod 4 * 16]"
| "sextets [a, b] = [a div 4, a mod 4 * 16 + b div 16, b mod 16 * 4]"
| "sextets (a # b # c # r) =
     [a div 4, a mod 4 * 16 + b div 16, b mod 16 * 4 + c div 64, c mod 64] @ sextets r"

fun octets :: "nat list \<Rightarrow> nat list option" where
  "octets [] = Some []"
| "octets [w] = None"
| "octets [w, x] = Some [w * 4 + x div 16]"
| "octets [w, x, y] = Some [w * 4 + x div 16, x mod 16 * 16 + y div 4]"
| "octets (w # x # y # z # r) =
     map_option (\<lambda>t. [w * 4 + x div 16, x mod 16 * 16 + y div 4, y mod 4 * 64 + z] @ t) (octets r)"

definition sextet_char :: "string \<Rightarrow> nat \<Rightarrow> char" where
  "sextet_char alphabet n = alphabet ! n"

fun index_of :: "char \<Rightarrow> string \<Rightarrow> nat option" where
  "index_of c [] = None"
| "index_of c (d # s) = (if c = d then Some 0 else map_option Suc (index_of c s))"

fun all_some :: "'a option list \<Rightarrow> 'a list option" where
  "all_some [] = Some []"
| "all_some (None # xs) = None"
| "all_some (Some x # xs) = map_option (Cons x) (all_some xs)"

definition padding :: "nat \<Rightarrow> string" where
  "padding n = replicate ((3 - n mod 3) mod 3) (CHR ''='')"

text \<open>\<open>base64.StdEncoding.EncodeToString\<close>\<close>

definition base64_encode :: "string \<Rightarrow> string" where
  "base64_encode s =
     map (sextet_char std_alphabet) (sextets (map of_char s)) @ padding (length s)"

text \<open>
  \<open>Encoding.DecodeString\<close> of an unpadded encoding: carriage returns and line feeds are
  skipped, anything else outside the alphabet is an error.
\<close>

definition base64_decode :: "string \<Rightarrow> string \<Rightarrow> string option" where
  "base64_decode alphabet s =
     (case all_some (map (\<lambda>c. index_of c alphabet)
              (filter (\<lambda>c. c \<noteq> CHR 0x0D \<and> c \<noteq> CHR 0x0A) s)) of
        None \<Rightarrow> None
      | Some ns \<Rightarrow> map_option (map char_of) (octets ns))"

section \<open>Header values\<close>

datatype codec_error =
    Empty
  | TooLong nat
  | BadBase64
  | BadJson
  | BadVersion int
  | MissingScheme
  | PayloadNotObject
  | NoAccepts

definition max_header_bytes :: nat where
  "max_header_bytes = 16384"

definition encode_header :: "json \<Rightarrow> string" where
  "encode_header v = base64_encode (print_json v)"

definition header_alphabet :: "string \<Rightarrow> string" where
  "header_alphabet s = (if contains_any s ''-_'' then url_alphabet else std_alphabet)"

text \<open>
  \<open>DecodeHeader\<close> up to the typed decode: \<open>dec.Decode\<close> followed by \<open>dec.Token\<close> expecting
  the end of the input is one value with only white space around it.
\<close>

definition decode_header :: "string \<Rightarrow> (codec_error, json) result" where
  "decode_header s =
     (let t = trim_space s
      in if t = [] then Inl Empty
         else if length t > max_header_bytes then Inl (TooLong (length t))
         else bind_r (or_err BadBase64 (base64_decode (header_alphabet t) (trim_right t ''='')))
                (\<lambda>raw. or_err BadJson (parse_json raw)))"

section \<open>Lemmas\<close>

lemma unpack:
  fixes x y k :: nat
  assumes "y < k"
  shows "(x * k + y) div k = x" "(x * k + y) mod k = y"
  using assms by simp_all

lemma div_less: "(c::nat) < 256 \<Longrightarrow> c div 4 < 64" "c < 256 \<Longrightarrow> c div 16 < 16" "c < 256 \<Longrightarrow> c div 64 < 4"
  by simp_all

lemma pack_less:
  fixes x y :: nat
  shows "x < 4 \<Longrightarrow> y < 16 \<Longrightarrow> x * 16 + y < 64" "x < 16 \<Longrightarrow> y < 4 \<Longrightarrow> x * 4 + y < 64"
  by simp_all

lemma octet_eqs:
  fixes a b c :: nat
  shows "b < 256 \<Longrightarrow> a div 4 * 4 + (a mod 4 * 16 + b div 16) div 16 = a"
    and "b < 256 \<Longrightarrow> c < 256 \<Longrightarrow>
           (a mod 4 * 16 + b div 16) mod 16 * 16 + (b mod 16 * 4 + c div 64) div 4 = b"
    and "c < 256 \<Longrightarrow> (b mod 16 * 4 + c div 64) mod 4 * 64 + c mod 64 = c"
    and "a div 4 * 4 + (a mod 4 * 16) div 16 = a"
    and "b < 256 \<Longrightarrow> (a mod 4 * 16 + b div 16) mod 16 * 16 + (b mod 16 * 4) div 4 = b"
  using unpack(1) [of "b div 16" 16 "a mod 4"] unpack(2) [of "b div 16" 16 "a mod 4"]
    unpack(1) [of "c div 64" 4 "b mod 16"] unpack(2) [of "c div 64" 4 "b mod 16"]
  by (simp_all only: div_less div_mult_mod_eq nonzero_mult_div_cancel_right zero_neq_numeral
      not_False_eq_True simp_thms)

lemma sextets_less: "\<forall>x \<in> set ns. x < 256 \<Longrightarrow> \<forall>y \<in> set (sextets ns). y < 64"
proof (induction ns rule: sextets.induct)
  case (2 a)
  then show ?case using pack_less(1) [of "a mod 4" 0] by simp
next
  case (3 a b)
  then show ?case
    using pack_less(1) [of "a mod 4" "b div 16"] pack_less(2) [of "b mod 16" 0] div_less [of a] div_less [of b]
    by simp
next
  case (4 a b c r)
  then show ?case
    using pack_less(1) [of "a mod 4" "b div 16"] pack_less(2) [of "b mod 16" "c div 64"]
      div_less [of a] div_less [of b] div_less [of c] by simp
qed simp

lemma octets_sextets: "\<forall>x \<in> set ns. x < 256 \<Longrightarrow> octets (sextets ns) = Some ns"
proof (induction ns rule: sextets.induct)
  case (4 a b c r)
  then have IH: "octets (sextets r) = Some r" and l: "b < 256" "c < 256" by simp_all
  show ?case
    by (simp only: sextets.simps append_Cons append_Nil octets.simps octet_eqs(1) [OF l(1)]
        octet_eqs(2) [OF l] octet_eqs(3) [OF l(2)] IH option.map)
qed (simp_all only: sextets.simps octets.simps octet_eqs list.set insert_iff ball_simps)

lemma index_of_nth:
  "n < length s \<Longrightarrow> distinct s \<Longrightarrow> index_of (s ! n) s = Some n"
proof (induction s arbitrary: n)
  case (Cons d s)
  then show ?case by (cases n) (auto simp: in_set_conv_nth)
qed simp

lemma distinct_std: "distinct std_alphabet"
  by (simp add: std_alphabet_def)

lemma length_std: "length std_alphabet = 64"
  by (simp add: std_alphabet_def)

lemma index_of_sextet: "n < 64 \<Longrightarrow> index_of (sextet_char std_alphabet n) std_alphabet = Some n"
  by (simp add: sextet_char_def index_of_nth distinct_std length_std)

lemma all_some_map: "\<forall>x \<in> set xs. f x = Some (g x) \<Longrightarrow> all_some (map f xs) = Some (map g xs)"
  by (induction xs) simp_all

lemma sextet_char_in: "n < 64 \<Longrightarrow> sextet_char std_alphabet n \<in> set std_alphabet"
  by (simp add: sextet_char_def length_std)

lemma std_alphabet_props:
  "c \<in> set std_alphabet \<Longrightarrow>
     32 < code c \<and> code c < 127 \<and> c \<noteq> CHR 0x0D \<and> c \<noteq> CHR 0x0A \<and> c \<noteq> CHR ''='' \<and> c \<noteq> CHR ''-'' \<and> c \<noteq> CHR ''_''"
  by (auto simp: std_alphabet_def)

lemma base64_body:
  assumes "\<forall>n \<in> set ns. n < 64"
  shows "all_some (map (\<lambda>c. index_of c std_alphabet)
           (filter (\<lambda>c. c \<noteq> CHR 0x0D \<and> c \<noteq> CHR 0x0A) (map (sextet_char std_alphabet) ns))) = Some ns"
proof -
  have "filter (\<lambda>c. c \<noteq> CHR 0x0D \<and> c \<noteq> CHR 0x0A) (map (sextet_char std_alphabet) ns)
          = map (sextet_char std_alphabet) ns"
    using assms by (auto simp: filter_id_conv dest: sextet_char_in std_alphabet_props)
  moreover have "all_some (map (\<lambda>n. index_of (sextet_char std_alphabet n) std_alphabet) ns)
          = Some (map (\<lambda>n. n) ns)"
    using assms by (intro all_some_map) (simp add: index_of_sextet)
  ultimately show ?thesis by (simp add: comp_def)
qed

lemma trim_right_padding:
  assumes "\<forall>c \<in> set s. c \<noteq> CHR ''=''"
  shows "trim_right (s @ replicate n (CHR ''='')) ''='' = s"
proof -
  have "dropWhile (\<lambda>c. c \<in> set ''='') (rev s) = rev s"
    using assms by (cases "rev s") (auto simp: rev_swap)
  moreover have "dropWhile (\<lambda>c. c \<in> set ''='') (replicate n (CHR ''='') @ rev s)
          = dropWhile (\<lambda>c. c \<in> set ''='') (rev s)"
    by (induction n) simp_all
  ultimately show ?thesis by (simp add: trim_right_def)
qed

lemma encode_chars:
  assumes "c \<in> set (base64_encode s)"
  shows "32 < code c \<and> code c < 127 \<and> c \<noteq> CHR ''-'' \<and> c \<noteq> CHR ''_''"
proof -
  have "\<forall>n \<in> set (sextets (map of_char s)). n < 64" by (rule sextets_less) simp
  with assms show ?thesis
    by (auto simp: base64_encode_def padding_def dest!: std_alphabet_props sextet_char_in)
qed

lemma base64_decode_encode:
  "base64_decode std_alphabet (trim_right (base64_encode s) ''='') = Some s"
proof -
  have l: "\<forall>n \<in> set (sextets (map of_char s)). n < 64" by (rule sextets_less) simp
  then have "\<forall>c \<in> set (map (sextet_char std_alphabet) (sextets (map of_char s))). c \<noteq> CHR ''=''"
    by (auto dest: sextet_char_in std_alphabet_props)
  then have "trim_right (base64_encode s) ''='' = map (sextet_char std_alphabet) (sextets (map of_char s))"
    by (simp add: base64_encode_def padding_def trim_right_padding)
  then show ?thesis
    using base64_body [OF l]
    by (simp add: base64_decode_def octets_sextets comp_def)
qed

lemma sextets_not_Nil: "ns \<noteq> [] \<Longrightarrow> sextets ns \<noteq> []"
  by (cases ns rule: sextets.cases) simp_all

lemma print_json_not_Nil: "wf_json v \<Longrightarrow> print_json v \<noteq> []"
  using starts_value_print [of v] by (auto simp: starts_value_def)

lemma decode_encode_header:
  assumes "wf_json v" "length (encode_header v) \<le> max_header_bytes"
  shows "decode_header (encode_header v) = Inr v"
proof -
  have t: "trim_space (encode_header v) = encode_header v"
    by (rule trim_space_id) (auto simp: encode_header_def dest: encode_chars)
  have ne: "encode_header v \<noteq> []"
    using print_json_not_Nil [OF assms(1)]
    by (simp add: encode_header_def base64_encode_def sextets_not_Nil)
  have "header_alphabet (encode_header v) = std_alphabet"
    by (auto simp: header_alphabet_def contains_any_def list_ex_iff encode_header_def dest: encode_chars)
  then show ?thesis
    using assms ne base64_decode_encode [of "print_json v"]
    by (simp add: decode_header_def t Let_def parse_print_json encode_header_def [symmetric])
qed

lemma decode_header_bound:
  "decode_header s = Inr v \<Longrightarrow> length (trim_space s) \<le> max_header_bytes"
  by (auto simp: decode_header_def Let_def split: if_splits)

section \<open>Lemmas: how long a header is\<close>

lemma length_sextets: "length (sextets ns) \<le> 2 * length ns"
  by (induction ns rule: sextets.induct) simp_all

lemma length_base64_encode: "length (base64_encode s) \<le> 2 * length s + 2"
proof -
  have "length (sextets (map of_char s :: nat list)) \<le> 2 * length s"
    using length_sextets [of "map of_char s :: nat list"] by simp
  moreover have "length (padding (length s)) \<le> 2" by (simp add: padding_def)
  ultimately show ?thesis by (simp add: base64_encode_def)
qed

lemma length_esc_char: "length (esc_char c) \<le> 6"
  by (simp add: esc_char_def)

lemma length_print_str: "length (print_str s) \<le> 6 * length s + 2"
proof -
  have "length (esc_str s) \<le> 6 * length s"
  proof (induction s rule: esc_str.induct)
    case (2 c s)
    then show ?case using length_esc_char [of c] by (auto simp: prefix_def)
  qed simp
  then show ?thesis by (simp add: print_str_def)
qed

text \<open>A bound on the printed length that only looks at the lengths of the strings\<close>

fun json_size :: "json \<Rightarrow> nat" where
  "json_size JNull = 4"
| "json_size (JBool b) = 5"
| "json_size (JNum s) = length s"
| "json_size (JStr s) = 6 * length s + 2"
| "json_size (JArr xs) = 2 + sum_list (map (\<lambda>x. Suc (json_size x)) xs)"
| "json_size (JObj ms) = 2 + sum_list (map (\<lambda>(k, v). 6 * length k + 4 + json_size v) ms)"

lemma length_sep_by_le: "length (sep_by ss) \<le> sum_list (map (\<lambda>s. Suc (length s)) ss)"
  by (induction ss rule: sep_by.induct) simp_all

lemma length_print_json: "wf_json j \<Longrightarrow> length (print_json j) \<le> json_size j"
proof (induction j)
  case (JStr s)
  then show ?case using length_print_str [of s] by simp
next
  case (JArr xs)
  have "sum_list (map (\<lambda>s. Suc (length s)) (map print_json xs)) \<le> sum_list (map (\<lambda>x. Suc (json_size x)) xs)"
    using JArr by (auto simp: comp_def intro!: sum_list_mono)
  with length_sep_by_le [of "map print_json xs"] show ?case by simp
next
  case (JObj ms)
  let ?p = "\<lambda>(k, v). print_str k @ CHR '':'' # print_json v"
  have "Suc (length (?p m)) \<le> (\<lambda>(k, v). 6 * length k + 4 + json_size v) m" if "m \<in> set ms" for m
  proof -
    obtain k v where m: "m = (k, v)" by (cases m)
    with that JObj.prems have "wf_json v" by auto
    then have "length (print_json v) \<le> json_size v" using JObj.IH [of m v] that m by auto
    with length_print_str [of k] m show ?thesis by simp
  qed
  then have "sum_list (map (\<lambda>s. Suc (length s)) (map ?p ms)) \<le>
      sum_list (map (\<lambda>(k, v). 6 * length k + 4 + json_size v) ms)"
    unfolding map_map comp_def by (rule sum_list_mono)
  with length_sep_by_le [of "map ?p ms"] show ?case by simp
qed auto

lemma length_encode_header: "wf_json j \<Longrightarrow> length (encode_header j) \<le> 2 * json_size j + 2"
  using length_base64_encode [of "print_json j"] length_print_json [of j] by (simp add: encode_header_def)

end
