(* ===== verification/X402.thy ===== *)
theory X402
  imports Codec
begin

text \<open>
  The x402 V2 wire types of \<open>internal/x402/types.go\<close>, their JSON form as
  \<open>encoding/json\<close> writes and reads the tagged structs, and the typed header codecs of
  \<open>internal/x402/codec.go\<close>.  A struct's fields are prefixed (\<open>rq_\<close> for Requirements,
  \<open>pp_\<close> for PaymentPayload, and so on); a pointer is an option; a \<open>json.RawMessage\<close>
  that is nil is \<open>None\<close>.
\<close>

section \<open>Decoding into structs\<close>

text \<open>
  Go's key folding: the letters of a key are folded to upper case, including the two
  non-ASCII code points that fold to an ASCII letter (U+017F and U+212A).
\<close>

fun fold_key :: "string \<Rightarrow> string" where
  "fold_key [] = []"
| "fold_key [c] = [to_upper_char c]"
| "fold_key (c # d # s) =
     (if [c, d] = [CHR 0xC5, CHR 0xBF] then CHR ''S'' # fold_key s
      else if prefix [CHR 0xE2, CHR 0x84, CHR 0xAA] (c # d # s) then CHR ''K'' # fold_key (drop 1 s)
      else to_upper_char c # fold_key (d # s))"

definition field_of :: "string list \<Rightarrow> string \<Rightarrow> string option" where
  "field_of names k =
     (if k \<in> set names then Some k
      else find (\<lambda>f. fold_key f = fold_key k) names)"

fun dec_fields ::
  "string list \<Rightarrow> (string \<Rightarrow> json \<Rightarrow> 'a \<Rightarrow> 'a option) \<Rightarrow> 'a \<Rightarrow> (string \<times> json) list \<Rightarrow> 'a option" where
  "dec_fields names setf cur [] = Some cur"
| "dec_fields names setf cur ((k, v) # ms) =
     (case (case field_of names k of None \<Rightarrow> Some cur | Some f \<Rightarrow> setf f v cur) of
        None \<Rightarrow> None
      | Some c \<Rightarrow> dec_fields names setf c ms)"

fun dec_struct ::
  "string list \<Rightarrow> (string \<Rightarrow> json \<Rightarrow> 'a \<Rightarrow> 'a option) \<Rightarrow> 'a \<Rightarrow> json \<Rightarrow> 'a option" where
  "dec_struct names setf cur JNull = Some cur"
| "dec_struct names setf cur (JObj ms) = dec_fields names setf cur ms"
| "dec_struct names setf cur _ = None"

fun dec_str :: "string \<Rightarrow> json \<Rightarrow> string option" where
  "dec_str cur (JStr s) = Some s"
| "dec_str cur JNull = Some cur"
| "dec_str cur _ = None"

fun dec_int :: "int \<Rightarrow> json \<Rightarrow> int option" where
  "dec_int cur (JNum l) = parse_int64 l"
| "dec_int cur JNull = Some cur"
| "dec_int cur _ = None"

fun dec_bool :: "bool \<Rightarrow> json \<Rightarrow> bool option" where
  "dec_bool cur (JBool b) = Some b"
| "dec_bool cur JNull = Some cur"
| "dec_bool cur _ = None"

fun dec_ptr :: "('a \<Rightarrow> json \<Rightarrow> 'a option) \<Rightarrow> 'a \<Rightarrow> 'a option \<Rightarrow> json \<Rightarrow> 'a option option" where
  "dec_ptr dec zero cur JNull = Some None"
| "dec_ptr dec zero cur j =
     map_option Some (dec (case cur of None \<Rightarrow> zero | Some x \<Rightarrow> x) j)"

fun dec_list :: "('a \<Rightarrow> json \<Rightarrow> 'a option) \<Rightarrow> 'a \<Rightarrow> json \<Rightarrow> 'a list option" where
  "dec_list dec zero JNull = Some []"
| "dec_list dec zero (JArr xs) = all_some (map (dec zero) xs)"
| "dec_list dec zero _ = None"

text \<open>\<open>map[string]any\<close>: kept as the JSON object's members.\<close>

fun dec_map :: "(string \<times> json) list \<Rightarrow> json \<Rightarrow> (string \<times> json) list option" where
  "dec_map cur JNull = Some []"
| "dec_map cur (JObj ms) = Some (cur @ ms)"
| "dec_map cur _ = None"

definition omit_empty :: "string \<Rightarrow> string \<Rightarrow> (string \<times> json) list" where
  "omit_empty k s = (if s = [] then [] else [(k, JStr s)])"

definition omit_map :: "string \<Rightarrow> (string \<times> json) list \<Rightarrow> (string \<times> json) list" where
  "omit_map k ms = (if ms = [] then [] else [(k, JObj ms)])"

definition jint :: "int \<Rightarrow> json" where
  "jint x = JNum (int_str x)"

section \<open>Constants\<close>

definition x402_version :: int where "x402_version = 2"

definition HeaderPaymentRequired :: string where
  "HeaderPaymentRequired = ''PAYMENT-REQUIRED''"
definition HeaderPaymentSignature :: string where
  "HeaderPaymentSignature = ''PAYMENT-SIGNATURE''"
definition HeaderPaymentResponse :: string where
  "HeaderPaymentResponse = ''PAYMENT-RESPONSE''"

definition SchemeExact :: string where "SchemeExact = ''exact''"
definition TransferEIP3009 :: string where "TransferEIP3009 = ''eip3009''"
definition TransferPermit2 :: string where "TransferPermit2 = ''permit2''"

definition ReasonInsufficientFunds :: string where
  "ReasonInsufficientFunds = ''insufficient_funds''"
definition ReasonValidAfter :: string where
  "ReasonValidAfter = ''invalid_exact_evm_payload_authorization_valid_after''"
definition ReasonValidBefore :: string where
  "ReasonValidBefore = ''invalid_exact_evm_payload_authorization_valid_before''"
definition ReasonValueMismatch :: string where
  "ReasonValueMismatch = ''invalid_exact_evm_payload_authorization_value_mismatch''"
definition ReasonSignature :: string where
  "ReasonSignature = ''invalid_exact_evm_payload_signature''"
definition ReasonRecipientMismatch :: string where
  "ReasonRecipientMismatch = ''invalid_exact_evm_payload_recipient_mismatch''"
definition ReasonInvalidNetwork :: string where "ReasonInvalidNetwork = ''invalid_network''"
definition ReasonInvalidPayload :: string where "ReasonInvalidPayload = ''invalid_payload''"
definition ReasonInvalidRequirements :: string where
  "ReasonInvalidRequirements = ''invalid_payment_requirements''"
definition ReasonInvalidScheme :: string where "ReasonInvalidScheme = ''invalid_scheme''"
definition ReasonInvalidVersion :: string where "ReasonInvalidVersion = ''invalid_x402_version''"
definition ReasonUnexpectedVerify :: string where
  "ReasonUnexpectedVerify = ''unexpected_verify_error''"

definition SettlementExtension :: string where
  "SettlementExtension = ''x402.dev/settlement''"

section \<open>Requirements\<close>

record exact_extra =
  x_method :: string
  x_name :: string
  x_version :: string

record requirements =
  rq_scheme :: string
  rq_network :: string
  rq_amount :: string
  rq_asset :: string
  rq_payTo :: string
  rq_timeout :: int
  rq_extra :: "exact_extra option"

definition zero_extra :: exact_extra where
  "zero_extra = \<lparr>x_method = [], x_name = [], x_version = []\<rparr>"

definition zero_requirements :: requirements where
  "zero_requirements =
     \<lparr>rq_scheme = [], rq_network = [], rq_amount = [], rq_asset = [], rq_payTo = [],
      rq_timeout = 0, rq_extra = None\<rparr>"

definition transfer_method :: "requirements \<Rightarrow> string" where
  "transfer_method r =
     (case rq_extra r of
        None \<Rightarrow> TransferEIP3009
      | Some e \<Rightarrow> if x_method e = [] then TransferEIP3009 else x_method e)"

definition extra_names :: "string list" where
  "extra_names = [''assetTransferMethod'', ''name'', ''version'']"

definition set_extra :: "string \<Rightarrow> json \<Rightarrow> exact_extra \<Rightarrow> exact_extra option" where
  "set_extra f v e =
     (if f = ''assetTransferMethod'' then map_option (\<lambda>s. e\<lparr>x_method := s\<rparr>) (dec_str (x_method e) v)
      else if f = ''name'' then map_option (\<lambda>s. e\<lparr>x_name := s\<rparr>) (dec_str (x_name e) v)
      else map_option (\<lambda>s. e\<lparr>x_version := s\<rparr>) (dec_str (x_version e) v))"

definition dec_extra :: "exact_extra \<Rightarrow> json \<Rightarrow> exact_extra option" where
  "dec_extra = dec_struct extra_names set_extra"

definition enc_extra :: "exact_extra \<Rightarrow> json" where
  "enc_extra e =
     JObj (omit_empty ''assetTransferMethod'' (x_method e) @ omit_empty ''name'' (x_name e)
             @ omit_empty ''version'' (x_version e))"

definition requirements_names :: "string list" where
  "requirements_names =
     [''scheme'', ''network'', ''amount'', ''asset'', ''payTo'', ''maxTimeoutSeconds'', ''extra'']"

definition set_requirements :: "string \<Rightarrow> json \<Rightarrow> requirements \<Rightarrow> requirements option" where
  "set_requirements f v r =
     (if f = ''scheme'' then map_option (\<lambda>s. r\<lparr>rq_scheme := s\<rparr>) (dec_str (rq_scheme r) v)
      else if f = ''network'' then map_option (\<lambda>s. r\<lparr>rq_network := s\<rparr>) (dec_str (rq_network r) v)
      else if f = ''amount'' then map_option (\<lambda>s. r\<lparr>rq_amount := s\<rparr>) (dec_str (rq_amount r) v)
      else if f = ''asset'' then map_option (\<lambda>s. r\<lparr>rq_asset := s\<rparr>) (dec_str (rq_asset r) v)
      else if f = ''payTo'' then map_option (\<lambda>s. r\<lparr>rq_payTo := s\<rparr>) (dec_str (rq_payTo r) v)
      else if f = ''maxTimeoutSeconds''
        then map_option (\<lambda>n. r\<lparr>rq_timeout := n\<rparr>) (dec_int (rq_timeout r) v)
      else map_option (\<lambda>e. r\<lparr>rq_extra := e\<rparr>) (dec_ptr dec_extra zero_extra (rq_extra r) v))"

definition dec_requirements :: "requirements \<Rightarrow> json \<Rightarrow> requirements option" where
  "dec_requirements = dec_struct requirements_names set_requirements"

definition enc_requirements :: "requirements \<Rightarrow> json" where
  "enc_requirements r =
     JObj ([(''scheme'', JStr (rq_scheme r)), (''network'', JStr (rq_network r)),
            (''amount'', JStr (rq_amount r)), (''asset'', JStr (rq_asset r)),
            (''payTo'', JStr (rq_payTo r)), (''maxTimeoutSeconds'', jint (rq_timeout r))]
           @ (case rq_extra r of None \<Rightarrow> [] | Some e \<Rightarrow> [(''extra'', enc_extra e)]))"

section \<open>Resource\<close>

record resource =
  rs_url :: string
  rs_description :: string
  rs_mimeType :: string
  rs_serviceName :: string
  rs_tags :: "string list"
  rs_iconUrl :: string

definition zero_resource :: resource where
  "zero_resource =
     \<lparr>rs_url = [], rs_description = [], rs_mimeType = [], rs_serviceName = [], rs_tags = [],
      rs_iconUrl = []\<rparr>"

definition resource_names :: "string list" where
  "resource_names = [''url'', ''description'', ''mimeType'', ''serviceName'', ''tags'', ''iconUrl'']"

definition set_resource :: "string \<Rightarrow> json \<Rightarrow> resource \<Rightarrow> resource option" where
  "set_resource f v r =
     (if f = ''url'' then map_option (\<lambda>s. r\<lparr>rs_url := s\<rparr>) (dec_str (rs_url r) v)
      else if f = ''description''
        then map_option (\<lambda>s. r\<lparr>rs_description := s\<rparr>) (dec_str (rs_description r) v)
      else if f = ''mimeType'' then map_option (\<lambda>s. r\<lparr>rs_mimeType := s\<rparr>) (dec_str (rs_mimeType r) v)
      else if f = ''serviceName''
        then map_option (\<lambda>s. r\<lparr>rs_serviceName := s\<rparr>) (dec_str (rs_serviceName r) v)
      else if f = ''tags'' then map_option (\<lambda>s. r\<lparr>rs_tags := s\<rparr>) (dec_list dec_str [] v)
      else map_option (\<lambda>s. r\<lparr>rs_iconUrl := s\<rparr>) (dec_str (rs_iconUrl r) v))"

definition dec_resource :: "resource \<Rightarrow> json \<Rightarrow> resource option" where
  "dec_resource = dec_struct resource_names set_resource"

definition enc_resource :: "resource \<Rightarrow> json" where
  "enc_resource r =
     JObj ([(''url'', JStr (rs_url r))] @ omit_empty ''description'' (rs_description r)
           @ omit_empty ''mimeType'' (rs_mimeType r) @ omit_empty ''serviceName'' (rs_serviceName r)
           @ (if rs_tags r = [] then [] else [(''tags'', JArr (map JStr (rs_tags r)))])
           @ omit_empty ''iconUrl'' (rs_iconUrl r))"

section \<open>PaymentRequired\<close>

record payment_required =
  pr_version :: int
  pr_error :: string
  pr_resource :: resource
  pr_accepts :: "requirements list"
  pr_extensions :: "(string \<times> json) list"

definition zero_payment_required :: payment_required where
  "zero_payment_required =
     \<lparr>pr_version = 0, pr_error = [], pr_resource = zero_resource, pr_accepts = [], pr_extensions = []\<rparr>"

definition payment_required_names :: "string list" where
  "payment_required_names = [''x402Version'', ''error'', ''resource'', ''accepts'', ''extensions'']"

definition set_payment_required :: "string \<Rightarrow> json \<Rightarrow> payment_required \<Rightarrow> payment_required option" where
  "set_payment_required f v p =
     (if f = ''x402Version'' then map_option (\<lambda>n. p\<lparr>pr_version := n\<rparr>) (dec_int (pr_version p) v)
      else if f = ''error'' then map_option (\<lambda>s. p\<lparr>pr_error := s\<rparr>) (dec_str (pr_error p) v)
      else if f = ''resource''
        then map_option (\<lambda>r. p\<lparr>pr_resource := r\<rparr>) (dec_resource (pr_resource p) v)
      else if f = ''accepts''
        then map_option (\<lambda>a. p\<lparr>pr_accepts := a\<rparr>) (dec_list dec_requirements zero_requirements v)
      else map_option (\<lambda>e. p\<lparr>pr_extensions := e\<rparr>) (dec_map (pr_extensions p) v))"

definition enc_payment_required :: "payment_required \<Rightarrow> json" where
  "enc_payment_required p =
     JObj ([(''x402Version'', jint (pr_version p))] @ omit_empty ''error'' (pr_error p)
           @ [(''resource'', enc_resource (pr_resource p)),
              (''accepts'', JArr (map enc_requirements (pr_accepts p)))]
           @ omit_map ''extensions'' (pr_extensions p))"

section \<open>PaymentPayload\<close>

record payment_payload =
  pp_version :: int
  pp_resource :: "resource option"
  pp_accepted :: requirements
  pp_payload :: "json option"
  pp_extensions :: "(string \<times> json) list"

definition zero_payment_payload :: payment_payload where
  "zero_payment_payload =
     \<lparr>pp_version = 0, pp_resource = None, pp_accepted = zero_requirements, pp_payload = None,
      pp_extensions = []\<rparr>"

definition payment_payload_names :: "string list" where
  "payment_payload_names = [''x402Version'', ''resource'', ''accepted'', ''payload'', ''extensions'']"

definition set_payment_payload :: "string \<Rightarrow> json \<Rightarrow> payment_payload \<Rightarrow> payment_payload option" where
  "set_payment_payload f v p =
     (if f = ''x402Version'' then map_option (\<lambda>n. p\<lparr>pp_version := n\<rparr>) (dec_int (pp_version p) v)
      else if f = ''resource''
        then map_option (\<lambda>r. p\<lparr>pp_resource := r\<rparr>) (dec_ptr dec_resource zero_resource (pp_resource p) v)
      else if f = ''accepted''
        then map_option (\<lambda>r. p\<lparr>pp_accepted := r\<rparr>) (dec_requirements (pp_accepted p) v)
      else if f = ''payload'' then Some (p\<lparr>pp_payload := Some v\<rparr>)
      else map_option (\<lambda>e. p\<lparr>pp_extensions := e\<rparr>) (dec_map (pp_extensions p) v))"

definition enc_payment_payload :: "payment_payload \<Rightarrow> json" where
  "enc_payment_payload p =
     JObj ([(''x402Version'', jint (pp_version p))]
           @ (case pp_resource p of None \<Rightarrow> [] | Some r \<Rightarrow> [(''resource'', enc_resource r)])
           @ [(''accepted'', enc_requirements (pp_accepted p)),
              (''payload'', case pp_payload p of None \<Rightarrow> JNull | Some j \<Rightarrow> j)]
           @ omit_map ''extensions'' (pp_extensions p))"

section \<open>The EIP-3009 scheme payload\<close>

record authorization_wire =
  w_from :: string
  w_to :: string
  w_value :: string
  w_validAfter :: string
  w_validBefore :: string
  w_nonce :: string

record eip3009_payload =
  e_signature :: string
  e_authorization :: authorization_wire

definition zero_authorization_wire :: authorization_wire where
  "zero_authorization_wire =
     \<lparr>w_from = [], w_to = [], w_value = [], w_validAfter = [], w_validBefore = [], w_nonce = []\<rparr>"

definition zero_eip3009_payload :: eip3009_payload where
  "zero_eip3009_payload = \<lparr>e_signature = [], e_authorization = zero_authorization_wire\<rparr>"

definition authorization_names :: "string list" where
  "authorization_names = [''from'', ''to'', ''value'', ''validAfter'', ''validBefore'', ''nonce'']"

definition set_authorization :: "string \<Rightarrow> json \<Rightarrow> authorization_wire \<Rightarrow> authorization_wire option" where
  "set_authorization f v a =
     (if f = ''from'' then map_option (\<lambda>s. a\<lparr>w_from := s\<rparr>) (dec_str (w_from a) v)
      else if f = ''to'' then map_option (\<lambda>s. a\<lparr>w_to := s\<rparr>) (dec_str (w_to a) v)
      else if f = ''value'' then map_option (\<lambda>s. a\<lparr>w_value := s\<rparr>) (dec_str (w_value a) v)
      else if f = ''validAfter'' then map_option (\<lambda>s. a\<lparr>w_validAfter := s\<rparr>) (dec_str (w_validAfter a) v)
      else if f = ''validBefore''
        then map_option (\<lambda>s. a\<lparr>w_validBefore := s\<rparr>) (dec_str (w_validBefore a) v)
      else map_option (\<lambda>s. a\<lparr>w_nonce := s\<rparr>) (dec_str (w_nonce a) v))"

definition dec_authorization :: "authorization_wire \<Rightarrow> json \<Rightarrow> authorization_wire option" where
  "dec_authorization = dec_struct authorization_names set_authorization"

definition enc_authorization :: "authorization_wire \<Rightarrow> json" where
  "enc_authorization a =
     JObj [(''from'', JStr (w_from a)), (''to'', JStr (w_to a)), (''value'', JStr (w_value a)),
           (''validAfter'', JStr (w_validAfter a)), (''validBefore'', JStr (w_validBefore a)),
           (''nonce'', JStr (w_nonce a))]"

definition set_eip3009 :: "string \<Rightarrow> json \<Rightarrow> eip3009_payload \<Rightarrow> eip3009_payload option" where
  "set_eip3009 f v p =
     (if f = ''signature'' then map_option (\<lambda>s. p\<lparr>e_signature := s\<rparr>) (dec_str (e_signature p) v)
      else map_option (\<lambda>a. p\<lparr>e_authorization := a\<rparr>) (dec_authorization (e_authorization p) v))"

definition enc_eip3009 :: "eip3009_payload \<Rightarrow> json" where
  "enc_eip3009 p =
     JObj [(''signature'', JStr (e_signature p)), (''authorization'', enc_authorization (e_authorization p))]"

datatype payload_error = BadShape | MissingField

text \<open>\<open>PaymentPayload.EIP3009\<close>: an absent payload is empty input to the JSON decoder, an error.\<close>

definition eip3009_of :: "payment_payload \<Rightarrow> (payload_error, eip3009_payload) result" where
  "eip3009_of p =
     bind_r (or_err BadShape
               (case pp_payload p of
                  None \<Rightarrow> None
                | Some j \<Rightarrow> dec_struct [''signature'', ''authorization''] set_eip3009 zero_eip3009_payload j))
       (\<lambda>out. let a = e_authorization out in
          if list_ex (\<lambda>v. v = [])
               [e_signature out, w_from a, w_to a, w_value a, w_validAfter a, w_validBefore a, w_nonce a]
          then Inl MissingField else Inr out)"

section \<open>SettleResponse\<close>

record settle_response =
  sr_success :: bool
  sr_errorReason :: string
  sr_payer :: string
  sr_transaction :: string
  sr_network :: string
  sr_amount :: string
  sr_extensions :: "(string \<times> json) list"

record settle_aux = settle_response +
  sr_txHash :: string
  sr_transactionHash :: string
  sr_hash :: string

definition zero_settle_aux :: settle_aux where
  "zero_settle_aux =
     \<lparr>sr_success = False, sr_errorReason = [], sr_payer = [], sr_transaction = [], sr_network = [],
      sr_amount = [], sr_extensions = [], sr_txHash = [], sr_transactionHash = [], sr_hash = []\<rparr>"

definition settle_names :: "string list" where
  "settle_names =
     [''success'', ''errorReason'', ''payer'', ''transaction'', ''network'', ''amount'', ''extensions'',
      ''txHash'', ''transactionHash'', ''hash'']"

definition set_settle :: "string \<Rightarrow> json \<Rightarrow> settle_aux \<Rightarrow> settle_aux option" where
  "set_settle f v s =
     (if f = ''success'' then map_option (\<lambda>b. s\<lparr>sr_success := b\<rparr>) (dec_bool (sr_success s) v)
      else if f = ''errorReason''
        then map_option (\<lambda>x. s\<lparr>sr_errorReason := x\<rparr>) (dec_str (sr_errorReason s) v)
      else if f = ''payer'' then map_option (\<lambda>x. s\<lparr>sr_payer := x\<rparr>) (dec_str (sr_payer s) v)
      else if f = ''transaction''
        then map_option (\<lambda>x. s\<lparr>sr_transaction := x\<rparr>) (dec_str (sr_transaction s) v)
      else if f = ''network'' then map_option (\<lambda>x. s\<lparr>sr_network := x\<rparr>) (dec_str (sr_network s) v)
      else if f = ''amount'' then map_option (\<lambda>x. s\<lparr>sr_amount := x\<rparr>) (dec_str (sr_amount s) v)
      else if f = ''extensions''
        then map_option (\<lambda>x. s\<lparr>sr_extensions := x\<rparr>) (dec_map (sr_extensions s) v)
      else if f = ''txHash'' then map_option (\<lambda>x. s\<lparr>sr_txHash := x\<rparr>) (dec_str (sr_txHash s) v)
      else if f = ''transactionHash''
        then map_option (\<lambda>x. s\<lparr>sr_transactionHash := x\<rparr>) (dec_str (sr_transactionHash s) v)
      else map_option (\<lambda>x. s\<lparr>sr_hash := x\<rparr>) (dec_str (sr_hash s) v))"

text \<open>The first non-empty alias, in the order the loop tries them.\<close>

definition first_nonempty :: "string list \<Rightarrow> string" where
  "first_nonempty xs = (case find (\<lambda>x. x \<noteq> []) xs of None \<Rightarrow> [] | Some x \<Rightarrow> x)"

definition dec_settle_response :: "json \<Rightarrow> settle_response option" where
  "dec_settle_response j =
     map_option
       (\<lambda>aux. let s = settle_response.truncate aux in
          if sr_transaction s = []
          then s\<lparr>sr_transaction := first_nonempty [sr_txHash aux, sr_transactionHash aux, sr_hash aux]\<rparr>
          else s)
       (dec_struct settle_names set_settle zero_settle_aux j)"

definition enc_settle_response :: "settle_response \<Rightarrow> json" where
  "enc_settle_response s =
     JObj ([(''success'', JBool (sr_success s))] @ omit_empty ''errorReason'' (sr_errorReason s)
           @ omit_empty ''payer'' (sr_payer s)
           @ [(''transaction'', JStr (sr_transaction s)), (''network'', JStr (sr_network s))]
           @ omit_empty ''amount'' (sr_amount s) @ omit_map ''extensions'' (sr_extensions s))"

text \<open>\<open>Pending\<close>, the receipt of a request released before settlement\<close>

definition pending_receipt :: "string \<Rightarrow> string \<Rightarrow> string \<Rightarrow> settle_response" where
  "pending_receipt network payer paymentID =
     \<lparr>sr_success = True, sr_errorReason = [], sr_payer = payer, sr_transaction = [],
      sr_network = network, sr_amount = [],
      sr_extensions =
        [(SettlementExtension, JObj [(''paymentId'', JStr paymentID), (''status'', JStr ''pending'')])]\<rparr>"

section \<open>The facilitator's requests\<close>

definition enc_facilitator_request :: "int \<Rightarrow> payment_payload \<Rightarrow> requirements \<Rightarrow> json" where
  "enc_facilitator_request v p r =
     JObj [(''x402Version'', jint v), (''paymentPayload'', enc_payment_payload p),
           (''paymentRequirements'', enc_requirements r)]"

section \<open>Typed headers\<close>

definition encode_payment_payload :: "payment_payload \<Rightarrow> string" where
  "encode_payment_payload p = encode_header (enc_payment_payload p)"

definition encode_payment_required :: "payment_required \<Rightarrow> string" where
  "encode_payment_required p = encode_header (enc_payment_required p)"

definition encode_settle_response :: "settle_response \<Rightarrow> string" where
  "encode_settle_response s = encode_header (enc_settle_response s)"

definition is_json_object :: "json option \<Rightarrow> bool" where
  "is_json_object j \<longleftrightarrow> (case j of Some (JObj _) \<Rightarrow> True | _ \<Rightarrow> False)"

definition decode_payment_payload :: "string \<Rightarrow> (codec_error, payment_payload) result" where
  "decode_payment_payload header =
     bind_r (decode_header header) (\<lambda>j.
     bind_r (or_err BadJson (dec_struct payment_payload_names set_payment_payload zero_payment_payload j)) (\<lambda>p.
       if pp_version p \<noteq> x402_version then Inl (BadVersion (pp_version p))
       else if rq_scheme (pp_accepted p) = [] \<or> rq_network (pp_accepted p) = [] then Inl MissingScheme
       else if \<not> is_json_object (pp_payload p) then Inl PayloadNotObject
       else Inr p))"

definition decode_payment_required :: "string \<Rightarrow> (codec_error, payment_required) result" where
  "decode_payment_required header =
     bind_r (decode_header header) (\<lambda>j.
     bind_r (or_err BadJson (dec_struct payment_required_names set_payment_required zero_payment_required j)) (\<lambda>r.
       if pr_version r \<noteq> x402_version then Inl (BadVersion (pr_version r))
       else if pr_accepts r = [] then Inl NoAccepts
       else Inr r))"

definition decode_settle_response :: "string \<Rightarrow> (codec_error, settle_response) result" where
  "decode_settle_response header =
     bind_r (decode_header header) (\<lambda>j. or_err BadJson (dec_settle_response j))"

end
