(* ===== verification/JsonIndent.thy ===== *)
theory JsonIndent
  imports Json
begin

text \<open>
  \<open>json.MarshalIndent(v, "", "  ")\<close>: the printer of \<open>Json\<close> with each element and member on a
  line of its own, two spaces deeper per level, a space after a member's colon, and empty
  arrays and objects closed at once; and that the parser reads it back.
\<close>

definition line_at :: "nat \<Rightarrow> string" where
  "line_at d = CHR 0x0A # replicate (2 * d) (CHR 0x20)"

fun join_with :: "string \<Rightarrow> string list \<Rightarrow> string" where
  "join_with sep [] = []"
| "join_with sep [x] = x"
| "join_with sep (x # y # xs) = x @ sep @ join_with sep (y # xs)"

fun print_indent :: "nat \<Rightarrow> json \<Rightarrow> string" where
  "print_indent d (JArr []) = ''[]''"
| "print_indent d (JArr (x # xs)) =
     ''['' @ line_at (Suc d) @ join_with (CHR '','' # line_at (Suc d)) (map (print_indent (Suc d)) (x # xs))
       @ line_at d @ '']''"
| "print_indent d (JObj []) = ''{}''"
| "print_indent d (JObj (m # ms)) =
     ''{'' @ line_at (Suc d)
       @ join_with (CHR '','' # line_at (Suc d))
           (map (\<lambda>(k, v). print_str k @ '': '' @ print_indent (Suc d) v) (m # ms))
       @ line_at d @ ''}''"
| "print_indent d j = print_json j"

section \<open>Lemmas: white space\<close>

lemma skip_ws_idem [simp]: "skip_ws (skip_ws s) = skip_ws s"
  by (induction s) simp_all

lemma skip_ws_line [simp]: "skip_ws (line_at d @ s) = skip_ws s"
proof -
  have "skip_ws (replicate n (CHR 0x20) @ s) = skip_ws s" for n by (induction n) (simp_all add: is_ws_def)
  then show ?thesis by (simp add: line_at_def is_ws_def)
qed

lemma json_value_skip: "json_value n (skip_ws s) = json_value n s"
  by (cases n) simp_all

lemma json_elems_skip: "json_elems n (skip_ws s) = json_elems n s"
  by (cases n) (simp_all add: json_value_skip)

lemma json_members_skip: "json_members n (skip_ws s) = json_members n s"
  by (cases n) simp_all

lemma json_line [simp]:
  "json_value n (line_at d @ s) = json_value n s"
  "json_elems n (line_at d @ s) = json_elems n s"
  "json_members n (line_at d @ s) = json_members n s"
  using json_value_skip [of n "line_at d @ s"] json_value_skip [of n s]
    json_elems_skip [of n "line_at d @ s"] json_elems_skip [of n s]
    json_members_skip [of n "line_at d @ s"] json_members_skip [of n s] by simp_all

lemma stops_line [simp]: "stops (line_at d @ s)"
  by (simp add: line_at_def num_char_def is_digit_def)

text \<open>Where the parser looks at the first character after an opening bracket.\<close>

lemma json_array_open:
  assumes "json_elems n s = Some (xs, r)" "starts_value (skip_ws s)"
  shows "json_value (Suc n) (CHR ''['' # s) = Some (JArr xs, r)"
proof -
  from assms(2) obtain c t where c: "skip_ws s = c # t" "c \<noteq> CHR '']''" by (rule starts_valueE)
  have "json_elems n (c # t) = Some (xs, r)" using assms(1) json_elems_skip [of n s] c(1) by simp
  with c show ?thesis by (simp add: is_ws_def)
qed

lemma json_object_open:
  assumes "json_members n s = Some (ms, r)" "skip_ws s = CHR 0x22 # t"
  shows "json_value (Suc n) (CHR ''{'' # s) = Some (JObj ms, r)"
proof -
  have "json_members n (CHR 0x22 # t) = Some (ms, r)" using assms json_members_skip [of n s] by simp
  with assms(2) show ?thesis by (simp add: is_ws_def)
qed

section \<open>Lemmas: the parser reads the indented text\<close>

lemma indent_elems:
  assumes "\<And>x n r. x \<in> set xs \<Longrightarrow> stops r \<Longrightarrow> fuel_of x \<le> n \<Longrightarrow> json_value n (print_indent d x @ r) = Some (x, r)"
    and "xs \<noteq> []" "length xs + sum_list (map fuel_of xs) \<le> n"
  shows "json_elems n (join_with (CHR '','' # line_at d) (map (print_indent d) xs) @ line_at e @ CHR '']'' # r)
    = Some (xs, r)"
  using assms
proof (induction xs arbitrary: n)
  case (Cons x xs)
  then obtain m where n: "n = Suc m" by (cases n) auto
  show ?case
  proof (cases xs)
    case Nil
    have "json_value m (print_indent d x @ line_at e @ CHR '']'' # r) = Some (x, line_at e @ CHR '']'' # r)"
      using Cons.prems n by simp
    with Nil n show ?thesis by (simp add: is_ws_def)
  next
    case (Cons y ys)
    have x: "json_value m (print_indent d x @ CHR '','' # s) = Some (x, CHR '','' # s)" for s
      using Cons.prems n by simp
    have "json_elems m (join_with (CHR '','' # line_at d) (map (print_indent d) xs) @ line_at e @ CHR '']'' # r)
        = Some (xs, r)"
      using Cons.prems n Cons by (intro Cons.IH) auto
    with x Cons n show ?thesis by (simp add: is_ws_def)
  qed
qed simp

lemma indent_members:
  assumes "\<And>k v n r. (k, v) \<in> set ms \<Longrightarrow> stops r \<Longrightarrow> fuel_of v \<le> n \<Longrightarrow>
             json_value n (print_indent d v @ r) = Some (v, r)"
    and "ms \<noteq> []" "length ms + sum_list (map (\<lambda>(k, v). fuel_of v) ms) \<le> n"
  shows "json_members n (join_with (CHR '','' # line_at d)
      (map (\<lambda>(k, v). print_str k @ '': '' @ print_indent d v) ms) @ line_at e @ CHR ''}'' # r) = Some (ms, r)"
  using assms
proof (induction ms arbitrary: n)
  case (Cons m ms)
  obtain k v where m: "m = (k, v)" by (cases m)
  from Cons.prems obtain i where n: "n = Suc i" by (cases n) auto
  have one: "json_members (Suc i) (print_str k @ '': '' @ print_indent d v @ s) =
      (case skip_ws s of
         [] \<Rightarrow> None
       | c # s' \<Rightarrow> if c = CHR '','' then map_option (apfst (Cons (k, v))) (json_members i s')
                   else if c = CHR ''}'' then Some ([(k, v)], s') else None)"
    if s: "stops s" for s
  proof -
    obtain t where t: "print_str k @ '': '' @ print_indent d v @ s = CHR 0x22 # t"
      and j: "json_chars (length t) t = Some (k, '': '' @ print_indent d v @ s)"
      using print_str_parse by blast
    have "json_value i (print_indent d v @ s) = Some (v, s)"
      using Cons.prems(1) [of k v s i] Cons.prems(3) n m s by simp
    moreover have "json_value i (CHR '' '' # x) = json_value i x" for x
      using json_value_skip [of i "CHR '' '' # x"] json_value_skip [of i x] by (simp add: is_ws_def)
    ultimately show ?thesis using j unfolding t by (simp add: is_ws_def)
  qed
  show ?case
  proof (cases ms)
    case Nil
    with m n one [of "line_at e @ CHR ''}'' # r"] show ?thesis by (simp add: is_ws_def)
  next
    case (Cons m' ms')
    have "json_members i (join_with (CHR '','' # line_at d)
        (map (\<lambda>(k, v). print_str k @ '': '' @ print_indent d v) ms) @ line_at e @ CHR ''}'' # r) = Some (ms, r)"
    proof (rule Cons.IH)
      show "length ms + sum_list (map (\<lambda>(k, v). fuel_of v) ms) \<le> i"
        using Cons.prems(3) n m by simp
    qed (use Cons.prems(1) Cons in auto)
    with Cons m n one [of "CHR '','' # line_at d @ x" for x] show ?thesis by (simp add: is_ws_def)
  qed
qed simp

lemma starts_value_indent:
  assumes "wf_json j" shows "starts_value (print_indent d j @ s)"
proof (cases j)
  case (JArr xs)
  then show ?thesis by (cases xs) (simp_all add: starts_value_def is_ws_def)
next
  case (JObj ms)
  then show ?thesis by (cases ms) (simp_all add: starts_value_def is_ws_def)
qed (use starts_value_print [OF assms] in \<open>auto simp: starts_value_def split: list.splits\<close>)

lemma json_value_indent:
  "wf_json j \<Longrightarrow> stops r \<Longrightarrow> fuel_of j \<le> n \<Longrightarrow> json_value n (print_indent d j @ r) = Some (j, r)"
proof (induction j arbitrary: d n r)
  case (JArr xs)
  then obtain m where n: "n = Suc m" by (cases n) auto
  show ?case
  proof (cases xs)
    case Nil
    with n show ?thesis by (simp add: is_ws_def)
  next
    case (Cons x ys)
    let ?t = "join_with (CHR '','' # line_at (Suc d)) (map (print_indent (Suc d)) xs) @ line_at d @ CHR '']'' # r"
    have "json_elems m ?t = Some (xs, r)"
      using JArr Cons n by (intro indent_elems) auto
    moreover have "starts_value (skip_ws ?t)"
    proof -
      have "wf_json x" using JArr.prems(1) Cons by simp
      from starts_value_indent [OF this] have v: "starts_value (print_indent (Suc d) x @ u)" for u .
      have "\<exists>u. ?t = print_indent (Suc d) x @ u" using Cons by (cases ys) auto
      then obtain u where u: "?t = print_indent (Suc d) x @ u" by blast
      from v [of u] obtain c t where "?t = c # t" "\<not> is_ws c" unfolding u by (rule starts_valueE)
      then have "skip_ws ?t = ?t" by simp
      with v [of u] u show ?thesis by simp
    qed
    ultimately have "json_value (Suc m) (CHR ''['' # line_at (Suc d) @ ?t) = Some (JArr xs, r)"
      by (intro json_array_open) simp_all
    then show ?thesis using Cons n by simp
  qed
next
  case (JObj ms)
  then obtain m where n: "n = Suc m" by (cases n) auto
  show ?case
  proof (cases ms)
    case Nil
    with n show ?thesis by (simp add: is_ws_def)
  next
    case (Cons x ys)
    let ?t = "join_with (CHR '','' # line_at (Suc d))
      (map (\<lambda>(k, v). print_str k @ '': '' @ print_indent (Suc d) v) ms) @ line_at d @ CHR ''}'' # r"
    have "json_members m ?t = Some (ms, r)"
      using JObj Cons n by (intro indent_members) (fastforce)+
    moreover have "\<exists>t. ?t = CHR 0x22 # t" using Cons by (cases x, cases ys) (auto simp: print_str_def)
    then obtain t where "?t = CHR 0x22 # t" by blast
    ultimately have "json_value (Suc m) (CHR ''{'' # line_at (Suc d) @ ?t) = Some (JObj ms, r)"
      by (intro json_object_open [where t = t]) (simp_all add: is_ws_def)
    then show ?thesis using Cons n by simp
  qed
qed (simp_all del: json_value.simps print_json.simps add: json_value_print)

lemma length_join_with:
  "length (join_with sep xs) = sum_list (map length xs) + (length xs - 1) * length sep"
  by (induction sep xs rule: join_with.induct) simp_all

lemma fuel_of_indent: "wf_json j \<Longrightarrow> fuel_of j \<le> length (print_indent d j)"
proof (induction j arbitrary: d)
  case (JArr xs)
  have "sum_list (map fuel_of xs) \<le> sum_list (map (length \<circ> print_indent (Suc d)) xs)"
    using JArr by (intro sum_list_mono) simp
  then show ?case by (cases xs) (simp_all add: length_join_with line_at_def comp_def algebra_simps)
next
  case (JObj ms)
  let ?p = "\<lambda>(k, v). print_str k @ '': '' @ print_indent (Suc d) v"
  have "sum_list (map (\<lambda>(k, v). fuel_of v) ms) \<le> sum_list (map (length \<circ> ?p) ms)"
  proof (rule sum_list_mono)
    fix m
    assume m: "m \<in> set ms"
    obtain k v where kv: "m = (k, v)" by (cases m)
    with JObj m have "fuel_of v \<le> length (print_indent (Suc d) v)" by fastforce
    with kv show "(case m of (k, v) \<Rightarrow> fuel_of v) \<le> (length \<circ> ?p) m" by simp
  qed
  then show ?case by (cases ms) (simp_all add: length_join_with line_at_def comp_def algebra_simps)
qed (auto simp: print_str_def Suc_le_eq)

lemma parse_print_indent: "wf_json j \<Longrightarrow> parse_json (print_indent d j @ r) = Some j" if "stops r" "skip_ws r = []"
proof -
  assume j: "wf_json j"
  have "json_value (Suc (Suc (length (print_indent d j @ r)))) (print_indent d j @ r) = Some (j, r)"
    using fuel_of_indent [OF j, of d] that by (intro json_value_indent j) simp_all
  with that show ?thesis by (simp add: parse_json_def)
qed

section \<open>Types with a JSON form\<close>

text \<open>
  A type that is written with \<open>json.Marshal\<close> or \<open>MarshalIndent\<close> and read with \<open>Unmarshal\<close>:
  an encoder and a decoder of which the second recovers \<open>rep x\<close> from what the first makes of
  \<open>x\<close>.  What is written is then read back from the text, in either layout.
\<close>

locale json_codec =
  fixes enc :: "'a \<Rightarrow> json"
    and dec :: "json \<Rightarrow> 'b option"
    and rep :: "'a \<Rightarrow> 'b"
    and ok :: "'a \<Rightarrow> bool"
  assumes enc_wf: "ok x \<Longrightarrow> wf_json (enc x)"
    and dec_enc: "ok x \<Longrightarrow> dec (enc x) = Some (rep x)"
begin

lemma decode_compact: "ok x \<Longrightarrow> Option.bind (parse_json (print_json (enc x))) dec = Some (rep x)"
  by (simp add: parse_print_json enc_wf dec_enc)

lemma parse_indented:
  "ok x \<Longrightarrow> stops r \<Longrightarrow> skip_ws r = [] \<Longrightarrow> parse_json (print_indent d (enc x) @ r) = Some (enc x)"
  by (simp add: parse_print_indent enc_wf)

lemma text_inject:
  "ok x \<Longrightarrow> ok y \<Longrightarrow> print_json (enc x) = print_json (enc y) \<Longrightarrow> rep x = rep y"
  using decode_compact [of x] decode_compact [of y] by simp

end

end
