(* ===== verification/X402_Codec.thy ===== *)
theory X402_Codec
  imports X402 JsonIndent
begin

text \<open>
  The codecs of the three x402 headers recover what was encoded.  The shared argument is
  the locale \<open>header_codec\<close>, which extends \<open>json_codec\<close>: a JSON encoder and decoder of one wire
  type that are inverse on the values in question give a header codec.  It is interpreted on the encoders and
  decoders of PaymentPayload, PaymentRequired and SettleResponse.
\<close>

section \<open>The shared interface\<close>

locale header_codec = json_codec enc dec "\<lambda>x. x" ok
  for enc :: "'a \<Rightarrow> json" and dec :: "json \<Rightarrow> 'a option" and ok :: "'a \<Rightarrow> bool"
begin

lemma header_roundtrip:
  assumes "ok x" "length (encode_header (enc x)) \<le> max_header_bytes"
  shows "bind_r (decode_header (encode_header (enc x))) (\<lambda>j. or_err e (dec j)) = Inr x"
  using assms by (simp add: decode_encode_header enc_wf dec_enc)

lemma header_inject:
  assumes "ok x" "ok y" "length (encode_header (enc x)) \<le> max_header_bytes"
    and eq: "encode_header (enc x) = encode_header (enc y)"
  shows "x = y"
proof -
  have "Inr x = bind_r (decode_header (encode_header (enc x))) (\<lambda>j. or_err BadJson (dec j))"
    using header_roundtrip [OF assms(1,3)] by simp
  also have "\<dots> = bind_r (decode_header (encode_header (enc y))) (\<lambda>j. or_err BadJson (dec j))"
    by (simp only: eq)
  also have "\<dots> = Inr y"
    using assms(3) eq by (intro header_roundtrip [OF assms(2)]) simp
  finally show ?thesis by simp
qed

end

section \<open>Fields\<close>

named_theorems codec_simps \<open>decoding the members an encoder writes\<close>

lemma dec_fields_append [codec_simps]:
  "dec_fields names setf cur (xs @ ys) =
     (case dec_fields names setf cur xs of None \<Rightarrow> None | Some c \<Rightarrow> dec_fields names setf c ys)"
  by (induction names setf cur xs rule: dec_fields.induct) (auto split: option.splits)

lemma dec_fields_omit_empty [codec_simps]:
  "k \<in> set names \<Longrightarrow>
     dec_fields names setf cur (omit_empty k s) = (if s = [] then Some cur else setf k (JStr s) cur)"
  by (simp add: omit_empty_def field_of_def split: option.splits)

lemma dec_fields_omit_map [codec_simps]:
  "k \<in> set names \<Longrightarrow>
     dec_fields names setf cur (omit_map k ms) = (if ms = [] then Some cur else setf k (JObj ms) cur)"
  by (simp add: omit_map_def field_of_def split: option.splits)

lemma field_of_known [codec_simps]: "k \<in> set names \<Longrightarrow> field_of names k = Some k"
  by (simp add: field_of_def)

lemma dec_int_jint [codec_simps]: "is_int64 x \<Longrightarrow> dec_int cur (jint x) = Some x"
  by (simp add: jint_def parse_int64_int_str)

lemma dec_ptr_obj [codec_simps]:
  "dec_ptr dec zero None (JObj ms) = map_option Some (dec zero (JObj ms))"
  by simp

section \<open>Numbers are well formed\<close>

lemma hd_nat_str: "n \<noteq> 0 \<Longrightarrow> hd (nat_str n) \<noteq> CHR ''0''"
proof (induction n rule: nat_str.induct)
  case (1 n)
  show ?case
  proof (cases "n < 10")
    case True
    then have "code (digit_char n) = 48 + n" by (rule digit_char_code)
    with "1.prems" have "digit_char n \<noteq> CHR ''0''" by auto
    with True show ?thesis by (simp add: nat_str.simps [of n])
  next
    case False
    then have "n div 10 \<noteq> 0" by simp
    with "1.IH" False show ?thesis by (simp add: nat_str.simps [of n])
  qed
qed

lemma int_part_nat_str: "int_part (nat_str n)"
proof (cases "n = 0")
  case True
  then show ?thesis by (simp add: int_part_def all_digits_def nat_str.simps [of 0])
qed (simp add: int_part_def hd_nat_str)

lemma takeWhile_nat_str: "takeWhile is_digit (nat_str n) = nat_str n"
  using nat_str_digits [of n] by (simp add: takeWhile_eq_all_conv list_all_iff)

lemma take1_nat_str: "take 1 (nat_str n) \<noteq> ''-''"
  using hd_nat_str_digit [of n] by (cases "nat_str n") auto

lemma num_chars_nat_str: "list_all num_char (nat_str n)"
  using nat_str_digits [of n] by (auto simp: list_all_iff num_char_def)

lemma not_word_start: "is_digit c \<Longrightarrow> c \<noteq> CHR ''n'' \<and> c \<noteq> CHR ''t'' \<and> c \<noteq> CHR ''f''"
  by (auto simp: is_digit_def)

lemma wf_jint [simp]: "wf_json (jint x)"
proof -
  have v: "valid_number (nat_str n)" "valid_number (CHR ''-'' # nat_str n)" for n
    using take1_nat_str [of n]
    by (simp_all add: valid_number_def Let_def takeWhile_nat_str int_part_nat_str)
  show ?thesis
    using v num_chars_nat_str not_word_start [OF hd_nat_str_digit]
    by (auto simp: jint_def int_str_def num_char_def)
qed

lemma jint_not_null [simp]: "jint x \<noteq> JNull"
  by (simp add: jint_def)

section \<open>Requirements and resources\<close>

definition ok_extra :: "exact_extra \<Rightarrow> bool" where
  "ok_extra e \<longleftrightarrow> utf8_text (x_method e) \<and> utf8_text (x_name e) \<and> utf8_text (x_version e)"

definition ok_requirements :: "requirements \<Rightarrow> bool" where
  "ok_requirements r \<longleftrightarrow>
     utf8_text (rq_scheme r) \<and> utf8_text (rq_network r) \<and> utf8_text (rq_amount r) \<and> utf8_text (rq_asset r) \<and>
     utf8_text (rq_payTo r) \<and> is_int64 (rq_timeout r) \<and>
     (case rq_extra r of None \<Rightarrow> True | Some e \<Rightarrow> ok_extra e)"

definition ok_resource :: "resource \<Rightarrow> bool" where
  "ok_resource r \<longleftrightarrow>
     utf8_text (rs_url r) \<and> utf8_text (rs_description r) \<and> utf8_text (rs_mimeType r) \<and>
     utf8_text (rs_serviceName r) \<and> (\<forall>t \<in> set (rs_tags r). utf8_text t) \<and> utf8_text (rs_iconUrl r)"

lemma ascii_code: "ascii s \<longleftrightarrow> list_all (\<lambda>c. code c < 128) s"
  by (simp add: ascii_def list_all_iff)

lemma wf_omit_empty [simp]: "(\<forall>(k, v) \<in> set (omit_empty k s). utf8_text k \<and> wf_json v) \<longleftrightarrow> s = [] \<or> utf8_text k \<and> utf8_text s"
  by (auto simp: omit_empty_def)

lemma set_omit_empty: "set (omit_empty k s) = (if s = [] then {} else {(k, JStr s)})"
  by (simp add: omit_empty_def)

lemma set_omit_map: "set (omit_map k ms) = (if ms = [] then {} else {(k, JObj ms)})"
  by (simp add: omit_map_def)

lemma dec_enc_extra: "dec_extra zero_extra (enc_extra e) = Some e"
  by (cases e) (simp add: dec_extra_def enc_extra_def codec_simps extra_names_def set_extra_def zero_extra_def)

lemma enc_extra_obj: "\<exists>ms. enc_extra e = JObj ms"
  by (simp add: enc_extra_def)

lemma dec_ptr_enc_extra: "dec_ptr dec_extra zero_extra None (enc_extra e) = Some (Some e)"
  using dec_enc_extra [of e] enc_extra_obj [of e] by (auto simp: codec_simps)

lemma dec_enc_requirements:
  "is_int64 (rq_timeout r) \<Longrightarrow> dec_requirements zero_requirements (enc_requirements r) = Some r"
  by (cases r) (simp add: dec_requirements_def enc_requirements_def codec_simps requirements_names_def
      set_requirements_def zero_requirements_def dec_ptr_enc_extra split: option.splits)

lemma all_some_strs: "all_some (map (dec_str [] \<circ> JStr) ts) = Some ts"
  by (induction ts) simp_all

lemma dec_enc_resource: "dec_resource zero_resource (enc_resource r) = Some r"
  by (cases r) (simp add: dec_resource_def enc_resource_def codec_simps resource_names_def
      set_resource_def zero_resource_def all_some_strs)

lemma enc_resource_obj: "\<exists>ms. enc_resource r = JObj ms"
  by (simp add: enc_resource_def)

lemma dec_ptr_enc_resource: "dec_ptr dec_resource zero_resource None (enc_resource r) = Some (Some r)"
  using dec_enc_resource [of r] enc_resource_obj [of r] by (auto simp: codec_simps)

lemma wf_enc_extra: "ok_extra e \<Longrightarrow> wf_json (enc_extra e)"
  by (auto simp: enc_extra_def ok_extra_def set_omit_empty ascii_code)

lemma wf_enc_requirements: "ok_requirements r \<Longrightarrow> wf_json (enc_requirements r)"
  by (auto simp: enc_requirements_def ok_requirements_def ascii_code wf_enc_extra split: option.splits)

lemma wf_enc_resource: "ok_resource r \<Longrightarrow> wf_json (enc_resource r)"
  by (auto simp: enc_resource_def ok_resource_def set_omit_empty ascii_code)

section \<open>The three headers\<close>

definition ok_members :: "(string \<times> json) list \<Rightarrow> bool" where
  "ok_members ms \<longleftrightarrow> (\<forall>(k, v) \<in> set ms. utf8_text k \<and> wf_json v)"

definition ok_payload :: "payment_payload \<Rightarrow> bool" where
  "ok_payload p \<longleftrightarrow>
     is_int64 (pp_version p) \<and> (case pp_resource p of None \<Rightarrow> True | Some r \<Rightarrow> ok_resource r) \<and>
     ok_requirements (pp_accepted p) \<and> (case pp_payload p of None \<Rightarrow> False | Some j \<Rightarrow> wf_json j) \<and>
     ok_members (pp_extensions p)"

definition ok_required :: "payment_required \<Rightarrow> bool" where
  "ok_required p \<longleftrightarrow>
     is_int64 (pr_version p) \<and> utf8_text (pr_error p) \<and> ok_resource (pr_resource p) \<and>
     (\<forall>r \<in> set (pr_accepts p). ok_requirements r) \<and> ok_members (pr_extensions p)"

definition ok_settle :: "settle_response \<Rightarrow> bool" where
  "ok_settle s \<longleftrightarrow>
     utf8_text (sr_errorReason s) \<and> utf8_text (sr_payer s) \<and> utf8_text (sr_transaction s) \<and>
     utf8_text (sr_network s) \<and> utf8_text (sr_amount s) \<and> ok_members (sr_extensions s)"

definition dec_payload :: "json \<Rightarrow> payment_payload option" where
  "dec_payload = dec_struct payment_payload_names set_payment_payload zero_payment_payload"

definition dec_required :: "json \<Rightarrow> payment_required option" where
  "dec_required = dec_struct payment_required_names set_payment_required zero_payment_required"

lemma dec_enc_payload:
  assumes "ok_payload p"
  shows "dec_payload (enc_payment_payload p) = Some p"
proof -
  obtain j where j: "pp_payload p = Some j" using assms by (auto simp: ok_payload_def split: option.splits)
  have a: "dec_requirements zero_requirements (enc_requirements (pp_accepted p)) = Some (pp_accepted p)"
    using assms by (simp add: ok_payload_def ok_requirements_def dec_enc_requirements)
  show ?thesis
    using assms j a
    by (cases p) (simp add: dec_payload_def enc_payment_payload_def codec_simps payment_payload_names_def
        set_payment_payload_def zero_payment_payload_def dec_ptr_enc_resource ok_payload_def split: option.splits)
qed

lemma all_some_requirements:
  "\<forall>r \<in> set rs. ok_requirements r \<Longrightarrow>
     all_some (map (dec_requirements zero_requirements \<circ> enc_requirements) rs) = Some rs"
  by (induction rs) (simp_all add: ok_requirements_def dec_enc_requirements)

lemma dec_enc_required:
  assumes "ok_required p"
  shows "dec_required (enc_payment_required p) = Some p"
  using assms all_some_requirements [of "pr_accepts p"] dec_enc_resource
  by (cases p) (simp add: dec_required_def enc_payment_required_def codec_simps payment_required_names_def
      set_payment_required_def zero_payment_required_def ok_required_def)

lemma dec_enc_settle: "dec_settle_response (enc_settle_response s) = Some s"
  by (cases s) (simp add: dec_settle_response_def enc_settle_response_def codec_simps settle_names_def
      set_settle_def zero_settle_aux_def first_nonempty_def settle_response.truncate_def Let_def)

lemma wf_omit_map: "ok_members ms \<Longrightarrow> (k, v) \<in> set (omit_map n ms) \<Longrightarrow> k = n \<and> wf_json v"
  by (auto simp: set_omit_map ok_members_def split: if_splits)

lemma wf_enc_payload: "ok_payload p \<Longrightarrow> wf_json (enc_payment_payload p)"
  by (auto simp: enc_payment_payload_def ok_payload_def wf_enc_resource wf_enc_requirements ascii_code
      dest: wf_omit_map split: option.splits)

lemma wf_enc_required: "ok_required p \<Longrightarrow> wf_json (enc_payment_required p)"
  by (auto simp: enc_payment_required_def ok_required_def wf_enc_resource wf_enc_requirements ascii_code
      set_omit_empty dest: wf_omit_map)

lemma wf_enc_settle: "ok_settle s \<Longrightarrow> wf_json (enc_settle_response s)"
  by (auto simp: enc_settle_response_def ok_settle_def ascii_code set_omit_empty dest: wf_omit_map)

interpretation payload_codec: header_codec enc_payment_payload dec_payload ok_payload
  by unfold_locales (simp_all add: wf_enc_payload dec_enc_payload)

interpretation required_codec: header_codec enc_payment_required dec_required ok_required
  by unfold_locales (simp_all add: wf_enc_required dec_enc_required)

interpretation settle_codec: header_codec enc_settle_response dec_settle_response ok_settle
  by unfold_locales (simp_all add: wf_enc_settle dec_enc_settle)

text \<open>The requirements of a job, stored as JSON text in the capture stream\<close>

interpretation requirements_codec:
  json_codec enc_requirements "dec_requirements zero_requirements" "\<lambda>x. x" ok_requirements
  by unfold_locales (simp_all add: ok_requirements_def wf_enc_requirements dec_enc_requirements)

section \<open>The typed decoders\<close>

lemma decode_payment_payload_alt:
  "decode_payment_payload h =
     bind_r (bind_r (decode_header h) (\<lambda>j. or_err BadJson (dec_payload j))) (\<lambda>p.
       if pp_version p \<noteq> x402_version then Inl (BadVersion (pp_version p))
       else if rq_scheme (pp_accepted p) = [] \<or> rq_network (pp_accepted p) = [] then Inl MissingScheme
       else if \<not> is_json_object (pp_payload p) then Inl PayloadNotObject
       else Inr p)"
  by (cases "decode_header h") (simp_all add: decode_payment_payload_def dec_payload_def)

lemma decode_payment_required_alt:
  "decode_payment_required h =
     bind_r (bind_r (decode_header h) (\<lambda>j. or_err BadJson (dec_required j))) (\<lambda>r.
       if pr_version r \<noteq> x402_version then Inl (BadVersion (pr_version r))
       else if pr_accepts r = [] then Inl NoAccepts
       else Inr r)"
  by (cases "decode_header h") (simp_all add: decode_payment_required_def dec_required_def)

lemma decode_payment_payload_Inr:
  assumes "decode_payment_payload h = Inr p"
  shows "pp_version p = x402_version" "rq_scheme (pp_accepted p) \<noteq> []" "rq_network (pp_accepted p) \<noteq> []"
    "is_json_object (pp_payload p)" "length (trim_space h) \<le> max_header_bytes"
  using assms by (auto simp: decode_payment_payload_def result_simps dest: decode_header_bound split: if_splits)

lemma payload_roundtrip:
  assumes "ok_payload p" "pp_version p = x402_version" "rq_scheme (pp_accepted p) \<noteq> []"
    "rq_network (pp_accepted p) \<noteq> []" "is_json_object (pp_payload p)"
    "length (encode_payment_payload p) \<le> max_header_bytes"
  shows "decode_payment_payload (encode_payment_payload p) = Inr p"
  using assms payload_codec.header_roundtrip [of p BadJson]
  by (simp add: decode_payment_payload_alt encode_payment_payload_def)

lemma required_roundtrip:
  assumes "ok_required p" "pr_version p = x402_version" "pr_accepts p \<noteq> []"
    "length (encode_payment_required p) \<le> max_header_bytes"
  shows "decode_payment_required (encode_payment_required p) = Inr p"
  using assms required_codec.header_roundtrip [of p BadJson]
  by (simp add: decode_payment_required_alt encode_payment_required_def)

lemma settle_roundtrip:
  assumes "ok_settle s" "length (encode_settle_response s) \<le> max_header_bytes"
  shows "decode_settle_response (encode_settle_response s) = Inr s"
  using assms settle_codec.header_roundtrip [of s BadJson]
  by (simp add: decode_settle_response_def encode_settle_response_def)

lemma enc_eip3009_obj: "is_json_object (Some (enc_eip3009 p))"
  by (simp add: enc_eip3009_def is_json_object_def)

lemma dec_enc_authorization:
  "dec_authorization zero_authorization_wire (enc_authorization a) = Some a"
  by (cases a) (simp add: dec_authorization_def enc_authorization_def codec_simps authorization_names_def
      set_authorization_def zero_authorization_wire_def)

lemma eip3009_of_enc:
  assumes "pp_payload p = Some (enc_eip3009 e)"
    and "\<not> list_ex (\<lambda>v. v = []) [e_signature e, w_from (e_authorization e), w_to (e_authorization e),
           w_value (e_authorization e), w_validAfter (e_authorization e),
           w_validBefore (e_authorization e), w_nonce (e_authorization e)]"
  shows "eip3009_of p = Inr e"
  using assms dec_enc_authorization [of "e_authorization e"]
  by (cases e) (simp add: eip3009_of_def enc_eip3009_def codec_simps set_eip3009_def
      zero_eip3009_payload_def Let_def)

section \<open>Properties\<close>

text \<open>
  C11: a payment payload that fits the header limit survives the header: what the buyer
  encodes, the filter decodes to the same payload.
\<close>

theorem payment_header_roundtrip:
  assumes "ok_payload p" "pp_version p = x402_version"
    and "rq_scheme (pp_accepted p) \<noteq> []" "rq_network (pp_accepted p) \<noteq> []"
    and "is_json_object (pp_payload p)"
    and "length (encode_payment_payload p) \<le> max_header_bytes"
  shows "decode_payment_payload (encode_payment_payload p) = Inr p"
  using assms by (rule payload_roundtrip)

definition demo_payload :: payment_payload where
  "demo_payload = zero_payment_payload
     \<lparr>pp_version := 2, pp_payload := Some (JObj []),
      pp_accepted := zero_requirements\<lparr>rq_scheme := ''exact'', rq_network := ''eip155:1''\<rparr>\<rparr>"

lemma demo_payload_ok:
  "ok_payload demo_payload" "pp_version demo_payload = x402_version"
  "rq_scheme (pp_accepted demo_payload) \<noteq> []" "rq_network (pp_accepted demo_payload) \<noteq> []"
  "is_json_object (pp_payload demo_payload)"
  "length (encode_payment_payload demo_payload) \<le> max_header_bytes"
  by code_simp+

theorem payment_header_roundtrip_witness:
  "decode_payment_payload (encode_payment_payload demo_payload) = Inr demo_payload"
  by (rule payment_header_roundtrip [OF demo_payload_ok])

text \<open>
  The filter refuses a payment header of more than 16 KiB, and what it accepts has the
  protocol's version, names a scheme and a network, and carries an object as its payload.
\<close>

theorem accepted_header_shape:
  assumes "decode_payment_payload h = Inr p"
  shows "length (trim_space h) \<le> max_header_bytes \<and> pp_version p = x402_version \<and>
    rq_scheme (pp_accepted p) \<noteq> [] \<and> rq_network (pp_accepted p) \<noteq> [] \<and>
    is_json_object (pp_payload p)"
  using decode_payment_payload_Inr [OF assms] by blast

theorem accepted_header_shape_witness:
  "length (trim_space (encode_payment_payload demo_payload)) \<le> max_header_bytes \<and>
    pp_version demo_payload = x402_version \<and> rq_scheme (pp_accepted demo_payload) \<noteq> [] \<and>
    rq_network (pp_accepted demo_payload) \<noteq> [] \<and> is_json_object (pp_payload demo_payload)"
  by (rule accepted_header_shape [OF payload_roundtrip [OF demo_payload_ok]])

end
