(* ===== verification/Eip3009.thy ===== *)
theory Eip3009
  imports Samples X402_Codec "HOL-Library.Monad_Syntax"
begin

text \<open>
  EIP-3009 TransferWithAuthorization messages under EIP-712
  (\<open>internal/x402/eip3009/eip3009.go\<close>): the token's domain, the parsed and the wire form
  of an authorization, its struct hash and the digest a payer signs.  \<open>None\<close> is the panic
  of \<open>evm.Word\<close> on a value wider than a word.
\<close>

section \<open>Domain and authorization\<close>

record domain =
  d_name :: string
  d_version :: string
  d_chain :: "64 word"
  d_contract :: address

record authorization =
  a_from :: address
  a_to :: address
  a_value :: int
  a_after :: int
  a_before :: int
  a_nonce :: bytes

definition type_hash :: "('pk, 'sk) crypto \<Rightarrow> bytes" where
  "type_hash C = keccak256 C [str_bytes
     ''TransferWithAuthorization(address from,address to,uint256 value,uint256 validAfter,uint256 validBefore,bytes32 nonce)'']"

definition domain_type_hash :: "('pk, 'sk) crypto \<Rightarrow> bytes" where
  "domain_type_hash C = keccak256 C [str_bytes
     ''EIP712Domain(string name,string version,uint256 chainId,address verifyingContract)'']"

definition separator :: "('pk, 'sk) crypto \<Rightarrow> domain \<Rightarrow> bytes option" where
  "separator C d = do {
     let name = keccak256 C [str_bytes (d_name d)];
     let version = keccak256 C [str_bytes (d_version d)];
     chain \<leftarrow> uint256_word (uint (d_chain d));
     contract \<leftarrow> address_word (d_contract d);
     Some (keccak256 C [domain_type_hash C, name, version, chain, contract])
   }"

text \<open>The bytes the struct hash is taken of.\<close>

definition struct_parts :: "('pk, 'sk) crypto \<Rightarrow> authorization \<Rightarrow> bytes list option" where
  "struct_parts C a = do {
     fr \<leftarrow> address_word (a_from a);
     to \<leftarrow> address_word (a_to a);
     val \<leftarrow> uint256_word (a_value a);
     aft \<leftarrow> uint256_word (a_after a);
     bef \<leftarrow> uint256_word (a_before a);
     Some [type_hash C, fr, to, val, aft, bef, a_nonce a]
   }"

definition struct_hash :: "('pk, 'sk) crypto \<Rightarrow> authorization \<Rightarrow> bytes option" where
  "struct_hash C a = map_option (keccak256 C) (struct_parts C a)"

definition digest :: "('pk, 'sk) crypto \<Rightarrow> domain \<Rightarrow> authorization \<Rightarrow> bytes option" where
  "digest C d a = do {
     sep \<leftarrow> separator C d;
     sh \<leftarrow> struct_hash C a;
     Some (keccak256 C [[0x19, 0x01], sep, sh])
   }"

section \<open>The wire form\<close>

datatype auth_error =
    BadFrom evm_error
  | BadTo evm_error
  | BadValue evm_error
  | BadAfter evm_error
  | BadBefore evm_error
  | BadNonce evm_error

definition parse_authorization :: "authorization_wire \<Rightarrow> (auth_error, authorization) result" where
  "parse_authorization w =
     bind_r (map_err BadFrom (parse_address (w_from w))) (\<lambda>fr.
     bind_r (map_err BadTo (parse_address (w_to w))) (\<lambda>to.
     bind_r (map_err BadValue (parse_uint256 (w_value w))) (\<lambda>val.
     bind_r (map_err BadAfter (parse_uint256 (w_validAfter w))) (\<lambda>aft.
     bind_r (map_err BadBefore (parse_uint256 (w_validBefore w))) (\<lambda>bef.
     bind_r (map_err BadNonce (parse_bytes32 (w_nonce w))) (\<lambda>non.
       Inr \<lparr>a_from = fr, a_to = to, a_value = val, a_after = aft, a_before = bef, a_nonce = non\<rparr>))))))"

definition wire_authorization :: "('pk, 'sk) crypto \<Rightarrow> authorization \<Rightarrow> authorization_wire" where
  "wire_authorization C a =
     \<lparr>w_from = address_string C (a_from a), w_to = address_string C (a_to a),
      w_value = int_str (a_value a), w_validAfter = int_str (a_after a),
      w_validBefore = int_str (a_before a), w_nonce = hex_0x (a_nonce a)\<rparr>"

section \<open>Well-formed authorizations\<close>

definition wf_authorization :: "authorization \<Rightarrow> bool" where
  "wf_authorization a \<longleftrightarrow>
     is_address (a_from a) \<and> is_address (a_to a) \<and>
     0 \<le> a_value a \<and> a_value a \<le> max_uint256 \<and> 0 \<le> a_after a \<and> a_after a \<le> max_uint256 \<and>
     0 \<le> a_before a \<and> a_before a \<le> max_uint256 \<and> length (a_nonce a) = 32"

lemma parse_authorization_wf: "parse_authorization w = Inr a \<Longrightarrow> wf_authorization a"
  by (auto simp: parse_authorization_def result_simps wf_authorization_def
      dest: parse_address_length parse_bytes32_length)

lemma parse_authorization_fields:
  assumes "parse_authorization w = Inr a"
  shows "parse_address (w_from w) = Inr (a_from a)" "parse_address (w_to w) = Inr (a_to a)"
    "parse_uint256 (w_value w) = Inr (a_value a)" "parse_uint256 (w_validAfter w) = Inr (a_after a)"
    "parse_uint256 (w_validBefore w) = Inr (a_before a)" "parse_bytes32 (w_nonce w) = Inr (a_nonce a)"
  using assms
  by (auto simp: parse_authorization_def bind_r_eq_Inr map_err_eq_Inr)

lemma parse_wire_authorization:
  "wf_authorization a \<Longrightarrow> parse_authorization (wire_authorization C a) = Inr a"
  by (simp add: parse_authorization_def wire_authorization_def wf_authorization_def
      parse_address_string parse_uint256_int_str parse_bytes32_hex)

lemma struct_parts_Some:
  assumes "wf_authorization a"
  obtains v f b where "struct_parts C a =
      Some [type_hash C, replicate 12 0 @ a_from a, replicate 12 0 @ a_to a, v, f, b, a_nonce a]"
    "uint256_word (a_value a) = Some v" "uint256_word (a_after a) = Some f"
    "uint256_word (a_before a) = Some b" "length v = 32" "length f = 32" "length b = 32"
proof -
  from assms obtain v f b where "uint256_word (a_value a) = Some v" "length v = 32"
    "uint256_word (a_after a) = Some f" "length f = 32"
    "uint256_word (a_before a) = Some b" "length b = 32"
    unfolding wf_authorization_def by (metis uint256_word_Some)
  with assms show thesis
    by (intro that [of v f b]) (simp_all add: struct_parts_def wf_authorization_def address_word_Some)
qed

lemma separator_Some:
  assumes "is_address (d_contract d)"
  obtains s where "separator C d = Some s"
proof -
  have "0 \<le> uint (d_chain d)" "uint (d_chain d) < 2 ^ 64"
    using uint_bounded [of "d_chain d"] by simp_all
  then have "uint (d_chain d) \<le> max_uint256"
    by (simp add: max_uint256_def)
  then obtain w where "uint256_word (uint (d_chain d)) = Some w"
    using uint256_word_Some [of "uint (d_chain d)"] by auto
  with assms show thesis by (intro that) (simp add: separator_def address_word_Some)
qed

lemma digest_Some:
  assumes "wf_authorization a" "is_address (d_contract d)"
  obtains h where "digest C d a = Some h"
proof -
  from assms(2) obtain s where s: "separator C d = Some s" by (rule separator_Some)
  from assms(1) obtain ps where "struct_parts C a = Some ps" by (metis struct_parts_Some)
  with s show thesis by (intro that) (simp add: digest_def struct_hash_def)
qed

lemma digest_length: "crypto_laws C \<Longrightarrow> digest C d a = Some h \<Longrightarrow> length h = 32"
  by (auto simp: digest_def length_keccak256 split: bind_splits)

text \<open>
  The hashed bytes determine every field: what a payer signs commits to the payer, the
  recipient, the value, the validity window and the nonce.
\<close>

lemma struct_parts_inject:
  assumes a: "wf_authorization a" and b: "wf_authorization b"
    and eq: "map_option concat (struct_parts C a) = map_option concat (struct_parts C b)"
  shows "a = b"
proof -
  obtain v f w where A: "struct_parts C a =
      Some [type_hash C, replicate 12 0 @ a_from a, replicate 12 0 @ a_to a, v, f, w, a_nonce a]"
    "uint256_word (a_value a) = Some v" "uint256_word (a_after a) = Some f"
    "uint256_word (a_before a) = Some w" "length v = 32" "length f = 32" "length w = 32"
    by (rule struct_parts_Some [OF a])
  obtain v' f' w' where B: "struct_parts C b =
      Some [type_hash C, replicate 12 0 @ a_from b, replicate 12 0 @ a_to b, v', f', w', a_nonce b]"
    "uint256_word (a_value b) = Some v'" "uint256_word (a_after b) = Some f'"
    "uint256_word (a_before b) = Some w'" "length v' = 32" "length f' = 32" "length w' = 32"
    by (rule struct_parts_Some [OF b])
  have "a_from a = a_from b" "a_to a = a_to b" "v = v'" "f = f'" "w = w'" "a_nonce a = a_nonce b"
    using eq A B a b by (simp_all add: wf_authorization_def is_address_def)
  moreover from this A B have "a_value a = a_value b" "a_after a = a_after b" "a_before a = a_before b"
    using a b by (auto simp: wf_authorization_def intro: uint256_word_inject)
  ultimately show ?thesis by simp
qed


text \<open>
  Every byte string hashed on the way to a digest.  Two payments with the same digest are
  the same payment in the same domain, or two of these strings are a Keccak collision.
\<close>

definition separator_parts :: "('pk, 'sk) crypto \<Rightarrow> domain \<Rightarrow> bytes list option" where
  "separator_parts C d = do {
     chain \<leftarrow> uint256_word (uint (d_chain d));
     contract \<leftarrow> address_word (d_contract d);
     Some [domain_type_hash C, keccak256 C [str_bytes (d_name d)],
           keccak256 C [str_bytes (d_version d)], chain, contract]
   }"

definition hashed :: "('pk, 'sk) crypto \<Rightarrow> domain \<Rightarrow> authorization \<Rightarrow> bytes list" where
  "hashed C d a =
     (case (separator_parts C d, struct_parts C a) of
        (Some sp, Some tp) \<Rightarrow>
          [str_bytes (d_name d), str_bytes (d_version d), concat sp, concat tp,
           concat [[0x19, 0x01], keccak256 C sp, keccak256 C tp]]
      | _ \<Rightarrow> [])"

definition collision :: "('pk, 'sk) crypto \<Rightarrow> bytes list \<Rightarrow> bytes list \<Rightarrow> bool" where
  "collision C xs ys \<longleftrightarrow>
     list_ex (\<lambda>x. list_ex (\<lambda>y. x \<noteq> y \<and> legacy_keccak C x = legacy_keccak C y) ys) xs"

lemma separator_eq: "separator C d = map_option (keccak256 C) (separator_parts C d)"
  by (auto simp: separator_def separator_parts_def Let_def split: bind_splits)

lemma separator_parts_Some:
  assumes "is_address (d_contract d)"
  obtains w where "separator_parts C d = Some [domain_type_hash C, keccak256 C [str_bytes (d_name d)],
      keccak256 C [str_bytes (d_version d)], w, replicate 12 0 @ d_contract d]"
    "uint256_word (uint (d_chain d)) = Some w" "length w = 32"
proof -
  have "0 \<le> uint (d_chain d)" "uint (d_chain d) \<le> max_uint256"
    using uint_bounded [of "d_chain d"] by (simp_all add: max_uint256_def)
  then obtain w where "uint256_word (uint (d_chain d)) = Some w" "length w = 32"
    by (rule uint256_word_Some)
  with assms show thesis
    by (intro that [of w]) (simp_all add: separator_parts_def address_word_Some)
qed

lemma separator_parts_inject:
  assumes C: "crypto_laws C"
    and a: "is_address (d_contract d)" and b: "is_address (d_contract d')"
    and eq: "map_option concat (separator_parts C d) = map_option concat (separator_parts C d')"
  shows "d_chain d = d_chain d' \<and> d_contract d = d_contract d' \<and>
    legacy_keccak C (str_bytes (d_name d)) = legacy_keccak C (str_bytes (d_name d')) \<and>
    legacy_keccak C (str_bytes (d_version d)) = legacy_keccak C (str_bytes (d_version d'))"
proof -
  obtain w where A: "separator_parts C d = Some [domain_type_hash C,
      keccak256 C [str_bytes (d_name d)], keccak256 C [str_bytes (d_version d)], w,
      replicate 12 0 @ d_contract d]" "uint256_word (uint (d_chain d)) = Some w" "length w = 32"
    by (rule separator_parts_Some [OF a])
  obtain w' where B: "separator_parts C d' = Some [domain_type_hash C,
      keccak256 C [str_bytes (d_name d')], keccak256 C [str_bytes (d_version d')], w',
      replicate 12 0 @ d_contract d']" "uint256_word (uint (d_chain d')) = Some w'" "length w' = 32"
    by (rule separator_parts_Some [OF b])
  have bnd: "0 \<le> uint x \<and> uint x \<le> max_uint256" for x :: "64 word"
    using uint_bounded [of x] by (simp add: max_uint256_def)
  have e: "keccak256 C [str_bytes (d_name d)] = keccak256 C [str_bytes (d_name d')]"
    "keccak256 C [str_bytes (d_version d)] = keccak256 C [str_bytes (d_version d')]" "w = w'"
    "d_contract d = d_contract d'"
    using eq A(1,3) B(1,3) by (simp_all add: length_keccak256 [OF C])
  moreover from e(3) A(2) B(2) have "uint (d_chain d) = uint (d_chain d')"
    using bnd uint256_word_inject by metis
  ultimately show ?thesis by (simp add: keccak256_def word_uint_eq_iff)
qed

lemma digest_inject:
  assumes C: "crypto_laws C" and wf: "wf_authorization a" "wf_authorization a'"
    and adr: "is_address (d_contract d)" "is_address (d_contract d')"
    and eq: "digest C d a = digest C d' a'"
    and nocol: "\<not> collision C (hashed C d a) (hashed C d' a')"
  shows "a = a' \<and> d = d'"
proof -
  obtain sp where sp: "separator_parts C d = Some sp" by (rule separator_parts_Some [OF adr(1)])
  obtain sp' where sp': "separator_parts C d' = Some sp'" by (rule separator_parts_Some [OF adr(2)])
  obtain tp where tp: "struct_parts C a = Some tp" by (rule struct_parts_Some [OF wf(1)])
  obtain tp' where tp': "struct_parts C a' = Some tp'" by (rule struct_parts_Some [OF wf(2)])
  note parts = sp sp' tp tp'
  have inj: "x = y" if "x \<in> set (hashed C d a)" "y \<in> set (hashed C d' a')"
      "legacy_keccak C x = legacy_keccak C y" for x y
    using nocol that by (auto simp: collision_def list_ex_iff)
  have "concat [[0x19, 0x01], keccak256 C sp, keccak256 C tp] =
      concat [[0x19, 0x01], keccak256 C sp', keccak256 C tp']"
    by (rule inj) (use eq parts in
        \<open>simp_all add: hashed_def digest_def separator_eq struct_hash_def keccak256_def\<close>)
  then have k: "legacy_keccak C (concat sp) = legacy_keccak C (concat sp')"
    "legacy_keccak C (concat tp) = legacy_keccak C (concat tp')"
    by (simp_all add: keccak256_def keccak_length [OF C])
  have "concat sp = concat sp'" and t: "concat tp = concat tp'"
    by (rule inj; use k parts in \<open>simp add: hashed_def\<close>)+
  then have s: "d_chain d = d_chain d'" "d_contract d = d_contract d'"
    "legacy_keccak C (str_bytes (d_name d)) = legacy_keccak C (str_bytes (d_name d'))"
    "legacy_keccak C (str_bytes (d_version d)) = legacy_keccak C (str_bytes (d_version d'))"
    using separator_parts_inject [OF C adr] parts by simp_all
  have "str_bytes (d_name d) = str_bytes (d_name d')"
    by (rule inj) (use s parts in \<open>simp_all add: hashed_def\<close>)
  moreover have "str_bytes (d_version d) = str_bytes (d_version d')"
    by (rule inj) (use s parts in \<open>simp_all add: hashed_def\<close>)
  moreover have "a = a'"
    using struct_parts_inject [OF wf, of C] t tp tp' by simp
  ultimately show ?thesis using s(1,2) by simp
qed

section \<open>Properties\<close>

text \<open>
  C12: the digest a payer signs commits to the whole payment.  Two payments with the same
  digest agree in every field of the authorization and of the token's domain, unless two
  of the byte strings hashed on the way are a Keccak collision.
\<close>

theorem digest_binds_payment:
  assumes "crypto_laws C" "wf_authorization a" "wf_authorization a'"
    and "is_address (d_contract d)" "is_address (d_contract d')"
    and "digest C d a = digest C d' a'"
    and "\<not> collision C (hashed C d a) (hashed C d' a')"
  shows "a = a' \<and> d = d'"
  using assms by (rule digest_inject)

definition demo_auth :: authorization where
  "demo_auth =
     \<lparr>a_from = key_address demo_crypto 5, a_to = demo_payTo, a_value = 1000, a_after = 0,
      a_before = 50, a_nonce = replicate 31 1 @ [2]\<rparr>"

definition demo_domain :: domain where
  "demo_domain = \<lparr>d_name = ''Coin'', d_version = ''1'', d_chain = 72344, d_contract = demo_payTo\<rparr>"

lemma demo_auth_wf: "wf_authorization demo_auth"
  by (simp add: wf_authorization_def demo_auth_def key_address_is_address demo_laws max_uint256_def)

lemma demo_domain_address: "is_address (d_contract demo_domain)"
  by (simp add: demo_domain_def)

lemma demo_separator: "separator_parts demo_crypto demo_domain = Some [domain_type_hash demo_crypto, keccak256 demo_crypto [str_bytes ''Coin''],
     keccak256 demo_crypto [str_bytes ''1''], replicate 29 0 @ [1, 0x1a, 0x98], replicate 12 0 @ demo_payTo]"
  by (simp add: separator_parts_def demo_domain_def uint256_word_def big_bytes_def abi_word_def nat_bytes.simps address_word_Some)
lemma demo_struct: "struct_parts demo_crypto demo_auth = Some [type_hash demo_crypto, replicate 12 0 @ key_address demo_crypto 5, replicate 12 0 @ demo_payTo,
   replicate 30 0 @ [3,0xe8], replicate 32 0, replicate 31 0 @ [50], replicate 31 1 @ [2]]"
  by (simp add: struct_parts_def demo_auth_def uint256_word_def big_bytes_def abi_word_def nat_bytes.simps address_word_Some key_address_is_address demo_laws)

lemma demo_keccak: "m \<noteq> [] \<Longrightarrow> hd (legacy_keccak demo_crypto m) = last m"
  by (cases m rule: rev_cases) (simp_all add: demo_crypto_def)

lemma demo_hashed_last:
  "map (hd \<circ> legacy_keccak demo_crypto) (hashed demo_crypto demo_domain demo_auth) = [110, 49, 7, 2, 1]"
proof -
  have "last (keccak256 demo_crypto (ps @ [replicate 31 1 @ [2]])) = 1" for ps
    by (simp add: keccak256_def demo_crypto_def last_conv_nth)
  note l = this [of "[type_hash demo_crypto, replicate 12 0 @ key_address demo_crypto 5,
      replicate 12 0 @ demo_payTo, replicate 30 0 @ [3, 0xe8], replicate 32 0, replicate 31 0 @ [50]]", simplified]
  have n: "d_name demo_domain = ''Coin''" "d_version demo_domain = ''1''"
    by (simp_all add: demo_domain_def)
  have p: "demo_payTo \<noteq> []" "last demo_payTo = 7" by (simp_all add: demo_payTo_def)
  have k: "keccak256 demo_crypto ps \<noteq> []" for ps
    using length_keccak256 [OF demo_laws, of ps] by auto
  show ?thesis
    by (simp add: k hashed_def demo_separator demo_struct n p str_bytes_def demo_keccak last_append l)
qed

lemma demo_no_collision:
  "\<not> collision demo_crypto (hashed demo_crypto demo_domain demo_auth) (hashed demo_crypto demo_domain demo_auth)"
proof -
  have "distinct (map (hd \<circ> legacy_keccak demo_crypto) (hashed demo_crypto demo_domain demo_auth))"
    by (simp add: demo_hashed_last)
  then have "inj_on (hd \<circ> legacy_keccak demo_crypto) (set (hashed demo_crypto demo_domain demo_auth))"
    by (simp add: distinct_map)
  then show ?thesis
    unfolding collision_def list_ex_iff inj_on_def by auto
qed
theorem digest_binds_payment_witness:
  "demo_auth = demo_auth \<and> demo_domain = demo_domain"
  by (rule digest_binds_payment [OF demo_laws demo_auth_wf demo_auth_wf demo_domain_address
        demo_domain_address refl demo_no_collision])

text \<open>
  An authorization survives its wire form: the checksummed addresses, the decimal
  numbers and the hexadecimal nonce parse back to the authorization that was sent.
\<close>

theorem authorization_roundtrip:
  assumes "wf_authorization a"
  shows "parse_authorization (wire_authorization C a) = Inr a"
  using assms by (rule parse_wire_authorization)

theorem authorization_roundtrip_witness:
  "parse_authorization (wire_authorization demo_crypto demo_auth) = Inr demo_auth"
  by (rule authorization_roundtrip [OF demo_auth_wf])

end
