(* ===== verification/Radius.thy ===== *)
theory Radius
  imports Eip3009
begin

text \<open>
  The Radius network profiles of \<open>internal/radius/radius.go\<close>, the SBC amount notation, and
  the JSON-RPC calls of \<open>internal/radius/rpc.go\<close> over an HTTP client that is a parameter:
  a function from the posted body to a transport error or a status and a response body.
  The keepalive loop, the HTTP client's timeouts and the logging are not modelled.
\<close>

section \<open>Profiles\<close>

definition SBC :: string where
  "SBC = ''0x33ad9e4BD16B69B5BFdED37D8B5D9fF9aba014Fb''"
definition SBCName :: string where "SBCName = ''Stable Coin''"
definition SBCVersion :: string where "SBCVersion = ''1''"
definition SBCDecimals :: nat where "SBCDecimals = 6"

record profile =
  p_name :: string
  p_chain :: "64 word"
  p_rpc :: string
  p_facilitator :: string
  p_faucet :: string
  p_explorer :: string

definition Testnet :: profile where
  "Testnet =
     \<lparr>p_name = ''testnet'', p_chain = 72344, p_rpc = ''https://rpc.testnet.radiustech.xyz'',
      p_facilitator = ''https://facilitator.testnet.radiustech.xyz'',
      p_faucet = ''https://testnet.radiustech.xyz/api/v1/faucet'',
      p_explorer = ''https://testnet.radiustech.xyz''\<rparr>"

definition Mainnet :: profile where
  "Mainnet =
     \<lparr>p_name = ''mainnet'', p_chain = 723487, p_rpc = ''https://rpc.radiustech.xyz'',
      p_facilitator = ''https://facilitator.radiustech.xyz'', p_faucet = [],
      p_explorer = ''https://network.radiustech.xyz''\<rparr>"

datatype radius_error =
    UnknownNetwork string
  | EmptyAmount
  | TooManyDecimals
  | BadAmount evm_error

definition lookup :: "string \<Rightarrow> (radius_error, profile) result" where
  "lookup nm =
     (if nm = p_name Testnet then Inr Testnet
      else if nm = p_name Mainnet then Inr Mainnet
      else Inl (UnknownNetwork nm))"

definition network :: "profile \<Rightarrow> string" where
  "network p = ''eip155:'' @ nat_str (unat (p_chain p))"

definition by_network :: "string \<Rightarrow> (radius_error, profile) result" where
  "by_network caip2 =
     (case find (\<lambda>p. network p = caip2) [Testnet, Mainnet] of
        None \<Rightarrow> Inl (UnknownNetwork caip2)
      | Some p \<Rightarrow> Inr p)"

definition tx_url :: "profile \<Rightarrow> string \<Rightarrow> string" where
  "tx_url p hash = p_explorer p @ ''/tx/'' @ hash"

definition exact_requirements :: "profile \<Rightarrow> string \<Rightarrow> string \<Rightarrow> int \<Rightarrow> requirements" where
  "exact_requirements p amount payTo timeout =
     \<lparr>rq_scheme = SchemeExact, rq_network = network p, rq_amount = amount, rq_asset = SBC,
      rq_payTo = payTo, rq_timeout = timeout,
      rq_extra = Some \<lparr>x_method = TransferEIP3009, x_name = SBCName, x_version = SBCVersion\<rparr>\<rparr>"

text \<open>\<open>SBCAddress\<close>: the parse error is dropped, the zero address is what it leaves.\<close>

definition SBCAddress :: address where
  "SBCAddress = (case parse_address SBC of Inl _ \<Rightarrow> zero_address | Inr a \<Rightarrow> a)"

section \<open>Amounts\<close>

definition format_sbc :: "int \<Rightarrow> string" where
  "format_sbc atomic =
     (let s0 = int_str atomic;
          s = (if length s0 \<le> SBCDecimals
               then replicate (SBCDecimals - length s0 + 1) (CHR ''0'') @ s0 else s0);
          whole = take (length s - SBCDecimals) s;
          frac = trim_right (drop (length s - SBCDecimals) s) ''0''
      in if frac = [] then whole else whole @ ''.'' @ frac)"

definition parse_sbc :: "string \<Rightarrow> (radius_error, int) result" where
  "parse_sbc s =
     (case cut_at (CHR ''.'') (trim_space s) of (whole0, frac0, _) \<Rightarrow>
        if whole0 = [] \<and> frac0 = [] then Inl EmptyAmount
        else
          let whole = (if whole0 = [] then ''0'' else whole0)
          in if SBCDecimals < length frac0 then Inl TooManyDecimals
             else
               let frac = frac0 @ replicate (SBCDecimals - length frac0) (CHR ''0'')
               in bind_r (map_err BadAmount
                            (parse_uint256 (trim_left (whole @ frac) ''0'' @ ''0'')))
                    (\<lambda>v. Inr (v div 10)))"

section \<open>JSON-RPC\<close>

text \<open>What \<open>http.Client.Do\<close> fails with, and the transport error a caller sees.\<close>

record url_error =
  ue_op :: string
  ue_url :: string
  ue_err :: string

datatype http_error = UrlError url_error | PlainError string

datatype rpc_error =
    RpcTransport string string
  | RpcBody string int
  | RpcNode int string
  | RpcResult string
  | RpcWord string

definition redact_url :: "http_error \<Rightarrow> string" where
  "redact_url e = (case e of UrlError u \<Rightarrow> ue_op u @ '': '' @ ue_err u | PlainError m \<Rightarrow> m)"

type_synonym http = "string \<Rightarrow> (http_error, int \<times> string) result"

text \<open>\<open>json.Marshal\<close> of the request map: its keys in order.\<close>

definition rpc_body :: "string \<Rightarrow> json list \<Rightarrow> string" where
  "rpc_body meth params =
     print_json (JObj [(''id'', jint 1), (''jsonrpc'', JStr ''2.0''), (''method'', JStr meth),
                       (''params'', JArr params)])"

text \<open>\<open>json.Decoder.Decode\<close>: the first value of the stream; what follows is not read.\<close>

definition decode_stream :: "string \<Rightarrow> json option" where
  "decode_stream s = map_option fst (json_value (Suc (Suc (length s))) s)"

record node_error =
  ne_code :: int
  ne_message :: string

record envelope =
  en_result :: "json option"
  en_error :: "node_error option"

definition set_node_error :: "string \<Rightarrow> json \<Rightarrow> node_error \<Rightarrow> node_error option" where
  "set_node_error f v e =
     (if f = ''code'' then map_option (\<lambda>n. e\<lparr>ne_code := n\<rparr>) (dec_int (ne_code e) v)
      else map_option (\<lambda>s. e\<lparr>ne_message := s\<rparr>) (dec_str (ne_message e) v))"

definition set_envelope :: "string \<Rightarrow> json \<Rightarrow> envelope \<Rightarrow> envelope option" where
  "set_envelope f v e =
     (if f = ''result'' then Some (e\<lparr>en_result := Some v\<rparr>)
      else map_option (\<lambda>x. e\<lparr>en_error := x\<rparr>)
             (dec_ptr (dec_struct [''code'', ''message''] set_node_error)
                \<lparr>ne_code = 0, ne_message = []\<rparr> (en_error e) v))"

text \<open>\<open>RPC.Call\<close> with a string as its out parameter, which every caller passes.\<close>

definition rpc_call :: "http \<Rightarrow> string \<Rightarrow> json list \<Rightarrow> (rpc_error, string) result" where
  "rpc_call http meth params =
     (case http (rpc_body meth params) of
        Inl e \<Rightarrow> Inl (RpcTransport meth (redact_url e))
      | Inr (status, body) \<Rightarrow>
          (case Option.bind (decode_stream body)
                  (dec_struct [''result'', ''error''] set_envelope \<lparr>en_result = None, en_error = None\<rparr>) of
             None \<Rightarrow> Inl (RpcBody meth status)
           | Some env \<Rightarrow>
               (case en_error env of
                  Some ne \<Rightarrow> Inl (RpcNode (ne_code ne) (ne_message ne))
                | None \<Rightarrow>
                    or_err (RpcResult meth)
                      (Option.bind (en_result env) (dec_str [])))))"

text \<open>\<open>big.Int.SetString(s, 16)\<close> and \<open>big.Int.Uint64\<close>\<close>

definition hex_number :: "string \<Rightarrow> nat option" where
  "hex_number s =
     (if s \<noteq> [] \<and> list_all (\<lambda>c. hex_val c \<noteq> None) s
      then Some (foldl (\<lambda>acc c. 16 * acc + (case hex_val c of None \<Rightarrow> 0 | Some d \<Rightarrow> d)) 0 s)
      else None)"

definition big_set_hex :: "string \<Rightarrow> int option" where
  "big_set_hex s =
     (case s of
        [] \<Rightarrow> None
      | c # r \<Rightarrow> if c = CHR ''-'' then map_option (\<lambda>n. - int n) (hex_number r)
                 else if c = CHR ''+'' then map_option int (hex_number r)
                 else map_option int (hex_number s))"

definition chain_id :: "http \<Rightarrow> (rpc_error, 64 word) result" where
  "chain_id http =
     bind_r (rpc_call http ''eth_chainId'' []) (\<lambda>hexID.
     bind_r (or_err (RpcResult ''eth_chainId'') (big_set_hex (trim_prefix hexID ''0x''))) (\<lambda>id.
       Inr (word_of_int \<bar>id\<bar>)))"

definition selector :: "('pk, 'sk) crypto \<Rightarrow> string \<Rightarrow> bytes" where
  "selector C signature = take 4 (keccak256 C [str_bytes signature])"

definition call32 ::
  "('pk, 'sk) crypto \<Rightarrow> http \<Rightarrow> address \<Rightarrow> bytes \<Rightarrow> (rpc_error, bytes) result" where
  "call32 C http to call_data =
     bind_r (rpc_call http ''eth_call''
              [JObj [(''data'', JStr (hex_0x call_data)), (''to'', JStr (address_string C to))],
               JStr ''latest'']) (\<lambda>hexOut.
       case hex_decode (trim_prefix hexOut ''0x'') of
         None \<Rightarrow> Inl (RpcWord hexOut)
       | Some b \<Rightarrow> if length b \<noteq> 32 then Inl (RpcWord hexOut) else Inr b)"

text \<open>The holder is an address of 20 bytes, so \<open>AddressWord\<close> cannot panic.\<close>

definition padded_address :: "address \<Rightarrow> bytes" where
  "padded_address a = (case address_word a of None \<Rightarrow> [] | Some w \<Rightarrow> w)"

definition balance_of ::
  "('pk, 'sk) crypto \<Rightarrow> http \<Rightarrow> address \<Rightarrow> address \<Rightarrow> (rpc_error, int) result" where
  "balance_of C http token holder =
     bind_r (call32 C http token (selector C ''balanceOf(address)'' @ padded_address holder))
       (\<lambda>b. Inr (int (be_val b)))"

definition authorization_state ::
  "('pk, 'sk) crypto \<Rightarrow> http \<Rightarrow> address \<Rightarrow> address \<Rightarrow> bytes \<Rightarrow> (rpc_error, bool) result" where
  "authorization_state C http token authorizer nonce =
     bind_r (call32 C http token
              (selector C ''authorizationState(address,bytes32)'' @ padded_address authorizer @ nonce))
       (\<lambda>b. Inr (be_val b \<noteq> 0))"

section \<open>Lemmas: profiles\<close>

lemma network_testnet: "network Testnet = ''eip155:72344''"
  by (simp add: network_def Testnet_def nat_str.simps digit_char_def)

lemma network_mainnet: "network Mainnet = ''eip155:723487''"
  by (simp add: network_def Mainnet_def nat_str.simps digit_char_def)

lemma lookup_Inr: "lookup nm = Inr p \<Longrightarrow> p \<in> {Testnet, Mainnet} \<and> p_name p = nm"
  by (auto simp: lookup_def split: if_splits)

lemma by_network_network: "p \<in> {Testnet, Mainnet} \<Longrightarrow> by_network (network p) = Inr p"
  by (auto simp: by_network_def network_testnet network_mainnet)

lemma by_network_Inr: "by_network n = Inr p \<Longrightarrow> p \<in> {Testnet, Mainnet} \<and> network p = n"
  by (auto simp: by_network_def network_testnet network_mainnet split: if_splits)

lemma network_text: "length (network p) \<le> 27" "ascii (network p)"
proof -
  have "unat (p_chain p) < 10 ^ 20" using unsigned_less [of "p_chain p", where 'a = nat] by simp
  then show "length (network p) \<le> 27"
    using length_nat_str [of "unat (p_chain p)" 20] by (simp add: network_def)
  show "ascii (network p)"
    using nat_str_digits [of "unat (p_chain p)"] by (auto simp: network_def ascii_def list_all_iff is_digit_def)
qed

lemma exact_requirements_method [simp]:
  "transfer_method (exact_requirements p amount payTo timeout) = TransferEIP3009"
  by (simp add: exact_requirements_def transfer_method_def TransferEIP3009_def)

lemma parse_SBC: "parse_address SBC = Inr SBCAddress"
  and is_address_SBC: "is_address SBCAddress"
proof -
  obtain a where a: "parse_address SBC = Inr a"
    by (simp add: parse_address_def SBC_def has_0x_def hex_val_def is_digit_def)
  then show "parse_address SBC = Inr SBCAddress" by (simp add: SBCAddress_def)
  then show "is_address SBCAddress" by (rule parse_address_length)
qed

section \<open>Lemmas: amounts\<close>

lemma be_val_bound: "be_val b < 256 ^ length b"
proof (induction b rule: rev_induct)
  case (snoc x b)
  have "unat x < 256" using unsigned_less [of x, where ?'a = nat] by simp
  with snoc have "256 * be_val b + unat x < 256 * 256 ^ length b" by linarith
  then show ?case by simp
qed simp

lemma call32_length: "call32 C http to d = Inr b \<Longrightarrow> length b = 32"
  by (auto simp: call32_def bind_r_eq_Inr split: option.splits if_splits)

lemma balance_of_bounds:
  assumes "balance_of C http token holder = Inr v"
  shows "0 \<le> v \<and> v \<le> max_uint256"
proof -
  from assms obtain b where b: "length b = 32" "v = int (be_val b)"
    by (auto simp: balance_of_def bind_r_eq_Inr dest: call32_length)
  have "int (be_val b) < 256 ^ 32"
    using be_val_bound [of b] b(1) by (metis of_nat_less_iff of_nat_numeral of_nat_power)
  with b(2) show ?thesis by (simp add: max_uint256_def)
qed

lemma trim_right_refill:
  "trim_right f [c] @ replicate (length f - length (trim_right f [c])) c = f"
proof -
  let ?P = "\<lambda>x. x \<in> set [c]"
  have t: "takeWhile ?P (rev f) = replicate (length (takeWhile ?P (rev f))) c"
    by (intro replicate_eqI) (auto dest: set_takeWhileD)
  have "f = rev (dropWhile ?P (rev f)) @ rev (takeWhile ?P (rev f))"
    by (metis rev_append rev_rev_ident takeWhile_dropWhile_id)
  moreover have "length (takeWhile ?P (rev f)) = length f - length (trim_right f [c])"
    by (metis add_diff_cancel_right' length_append length_rev takeWhile_dropWhile_id trim_right_def)
  ultimately show ?thesis
    using t by (metis rev_replicate trim_right_def)
qed

lemma dec_val_trim_zeros [simp]: "dec_val (trim_left s ''0'') = dec_val s"
  by (induction s) (auto simp: trim_left_def dec_val_Cons digit_val_def)

lemma dec_val_zeros [simp]: "dec_val (replicate n (CHR ''0'') @ s) = dec_val s"
  by (induction n) (simp_all add: dec_val_Cons digit_val_def)

lemma digits_trim_left: "list_all is_digit s \<Longrightarrow> list_all is_digit (trim_left s cs)"
  by (auto simp: trim_left_def list_all_iff dest: set_dropWhileD)

lemma digits_trim_right: "list_all is_digit s \<Longrightarrow> list_all is_digit (trim_right s cs)"
  by (auto simp: trim_right_def list_all_iff dest: set_dropWhileD)

lemma trim_space_digits:
  "\<forall>c \<in> set s. is_digit c \<or> c = CHR ''.'' \<Longrightarrow> trim_space s = s"
  by (rule trim_space_id) (auto simp: is_digit_def)

lemma trim_right_length: "length (trim_right f cs) \<le> length f"
  by (simp add: trim_right_def) (metis length_dropWhile_le length_rev)

text \<open>The digits of an amount, as \<open>FormatSBC\<close> pads them.\<close>

definition sbc_digits :: "int \<Rightarrow> string" where
  "sbc_digits v =
     (let s = int_str v in
      if length s \<le> SBCDecimals then replicate (SBCDecimals - length s + 1) (CHR ''0'') @ s else s)"

lemma sbc_digits:
  assumes "0 \<le> v"
  shows "list_all is_digit (sbc_digits v)" "dec_val (sbc_digits v) = nat v"
    "SBCDecimals < length (sbc_digits v)"
proof -
  have z: "is_digit (CHR ''0'')" by (simp add: is_digit_def)
  then show "list_all is_digit (sbc_digits v)"
    using assms nat_str_digits [of "nat v"]
    by (auto simp: sbc_digits_def Let_def int_str_nonneg list_all_iff)
  show "dec_val (sbc_digits v) = nat v"
    using assms dec_val_zeros [of "Suc (SBCDecimals - length (nat_str (nat v)))" "nat_str (nat v)"]
    by (simp add: sbc_digits_def Let_def int_str_nonneg)
  show "SBCDecimals < length (sbc_digits v)"
    by (simp add: sbc_digits_def Let_def)
qed

lemma parse_sbc_parts:
  assumes w: "list_all is_digit whole" "whole \<noteq> []"
    and f: "list_all is_digit frac" "length frac \<le> SBCDecimals"
    and s: "s = (if frac = [] then whole else whole @ ''.'' @ frac)"
    and v: "v = int (dec_val (whole @ frac @ replicate (SBCDecimals - length frac) (CHR ''0'')))"
    and le: "10 * v \<le> max_uint256"
  shows "parse_sbc s = Inr v"
proof -
  have dot: "CHR ''.'' \<notin> set whole" "CHR ''.'' \<notin> set frac"
    using w f by (auto simp: list_all_iff is_digit_def)
  have ts: "trim_space s = s"
    using w f s by (intro trim_space_digits) (auto simp: list_all_iff split: if_splits)
  obtain b where cut: "cut_at (CHR ''.'') s = (whole, frac, b)"
    using s dot by (cases "frac = []") simp_all
  let ?d = "trim_left (whole @ frac @ replicate (SBCDecimals - length frac) (CHR ''0'')) ''0'' @ ''0''"
  have "is_digit (CHR ''0'')" by (simp add: is_digit_def)
  then have "all_digits ?d"
    using w f by (auto simp: all_digits_def list_all_iff digits_trim_left [unfolded list_all_iff]
        trim_left_def dest!: set_dropWhileD)
  moreover have "int (dec_val ?d) = 10 * v" by (simp add: v digit_val_def)
  ultimately have "parse_uint256 ?d = Inr (10 * v)" using le by (simp add: parse_uint256_Inr)
  then show ?thesis
    using cut w f by (simp add: parse_sbc_def ts Let_def)
qed

lemma parse_format_sbc:
  assumes "0 \<le> v" "10 * v \<le> max_uint256"
  shows "parse_sbc (format_sbc v) = Inr v"
proof -
  let ?s = "sbc_digits v"
  let ?f = "drop (length ?s - SBCDecimals) ?s"
  have l: "length ?f = SBCDecimals" using sbc_digits(3) [OF assms(1)] by simp
  have d: "list_all is_digit (take n ?s)" "list_all is_digit (drop n ?s)" for n
    using sbc_digits(1) [OF assms(1)] by (auto simp: list_all_iff dest: in_set_takeD in_set_dropD)
  have j: "take (length ?s - SBCDecimals) ?s @ trim_right ?f ''0''
      @ replicate (SBCDecimals - length (trim_right ?f ''0'')) (CHR ''0'') = ?s"
    using trim_right_refill [of ?f "CHR ''0''"] l by (metis append_take_drop_id)
  have f: "format_sbc v = (if trim_right ?f ''0'' = [] then take (length ?s - SBCDecimals) ?s
      else take (length ?s - SBCDecimals) ?s @ ''.'' @ trim_right ?f ''0'')"
    by (simp add: format_sbc_def sbc_digits_def Let_def)
  have v: "v = int (dec_val (take (length ?s - SBCDecimals) ?s @ trim_right ?f ''0''
      @ replicate (SBCDecimals - length (trim_right ?f ''0'')) (CHR ''0'')))"
    using sbc_digits(2) [OF assms(1)] assms(1) by (simp only: j nat_0_le)
  have ne: "take (length ?s - SBCDecimals) ?s \<noteq> []"
    using sbc_digits(3) [OF assms(1)] by auto
  have le: "length (trim_right ?f ''0'') \<le> SBCDecimals"
    using trim_right_length [of ?f "''0''"] l by simp
  show ?thesis
    by (rule parse_sbc_parts [OF d(1) ne digits_trim_right [OF d(2)] le f v assms(2)])
qed

section \<open>Properties\<close>

text \<open>
  An amount survives its display: what \<open>FormatSBC\<close> prints, \<open>ParseSBC\<close> reads back,
  for every amount up to a tenth of the uint256 range.
\<close>

theorem sbc_amount_roundtrip:
  assumes "0 \<le> v" "10 * v \<le> max_uint256"
  shows "parse_sbc (format_sbc v) = Inr v"
  using assms by (rule parse_format_sbc)

theorem sbc_amount_roundtrip_witness: "parse_sbc (format_sbc 1500000) = Inr 1500000"
  by (rule sbc_amount_roundtrip) (simp_all add: max_uint256_def)

end
