(* ===== verification/Runs.thy ===== *)
theory Runs
  imports Main
begin

text \<open>
  What every state machine of the gateway shares: a fold of events that keeps an invariant
  (the price table watcher), a run of timed steps (the ledger, the gateway), and a run of one
  machine that a run of another simulates (the gateway by the ledger).  Each is a locale over
  the step and run relations; the machines interpret them where they are defined.
\<close>

section \<open>Folds that keep an invariant\<close>

locale step_invariant =
  fixes step :: "'e \<Rightarrow> 's \<Rightarrow> 's"
    and inv :: "'s \<Rightarrow> bool"
  assumes keeps: "inv s \<Longrightarrow> inv (step e s)"
begin

lemma fold_keeps: "inv s \<Longrightarrow> inv (fold step es s)"
  by (induction es arbitrary: s) (simp_all add: keeps)

end

section \<open>Timed runs\<close>

text \<open>The time of a run's last step, or the time it starts from.\<close>

fun end_time :: "int \<Rightarrow> (int \<times> 'e) list \<Rightarrow> int" where
  "end_time t [] = t"
| "end_time t ((u, e) # es) = end_time u es"

lemma end_time_snoc [simp]: "end_time t (es @ [(u, e)]) = u"
  by (induction t es rule: end_time.induct) simp_all

lemma end_time_le: "t \<le> b \<Longrightarrow> \<forall>(u, e) \<in> set es. u \<le> b \<Longrightarrow> end_time t es \<le> b"
  by (induction t es rule: end_time.induct) simp_all

locale timed_run =
  fixes step :: "int \<Rightarrow> 's \<Rightarrow> 'e \<Rightarrow> 's \<Rightarrow> bool"
    and run :: "int \<Rightarrow> 's \<Rightarrow> (int \<times> 'e) list \<Rightarrow> 's \<Rightarrow> bool"
  assumes run_nil_iff: "run t s [] s' \<longleftrightarrow> s' = s"
    and run_cons_iff: "run t s ((t', e) # es) s' \<longleftrightarrow> t \<le> t' \<and> (\<exists>s1. step t' s e s1 \<and> run t' s1 es s')"
begin

lemma run_one: "step t s e s' \<Longrightarrow> run t s [(t, e)] s'"
  by (simp add: run_nil_iff run_cons_iff)

lemma run_append:
  "run t s (es @ fs) s' \<longleftrightarrow> (\<exists>s1. run t s es s1 \<and> run (end_time t es) s1 fs s')"
  by (induction t es arbitrary: s rule: end_time.induct) (auto simp: run_nil_iff run_cons_iff)

lemma run_prefix: "run t s (es @ fs) s' \<Longrightarrow> \<exists>s1. run t s es s1"
  by (auto simp: run_append)

lemma run_drop: "run t s (es @ fs) s' \<Longrightarrow> \<exists>t1 s1. run t1 s1 fs s'"
  by (auto simp: run_append)

lemma run_earlier: "run t s es s' \<Longrightarrow> t0 \<le> t \<Longrightarrow> run t0 s es s'"
  by (cases es; cases "hd es") (auto simp: run_nil_iff run_cons_iff)

lemma run_times: "run t s es s' \<Longrightarrow> t \<le> end_time t es \<and> (\<forall>(u, e) \<in> set es. t \<le> u \<and> u \<le> end_time t es)"
  by (induction t es arbitrary: s rule: end_time.induct) (fastforce simp: run_cons_iff)+

lemma run_join:
  "run t s es s1 \<Longrightarrow> run t' s1 fs s' \<Longrightarrow> t \<le> t' \<Longrightarrow> \<forall>(u, e) \<in> set es. u \<le> t' \<Longrightarrow> run t s (es @ fs) s'"
  by (auto simp: run_append intro: run_earlier end_time_le)

end

section \<open>Runs that another machine simulates\<close>

text \<open>What the abstract machine does during a run, given what it does at each step.\<close>

definition run_events :: "(int \<times> 'e) list \<Rightarrow> 'f list list \<Rightarrow> (int \<times> 'f) list" where
  "run_events evs ess = concat (map2 (\<lambda>(t, e) es. map (Pair t) es) evs ess)"

lemma run_events_simps [simp]:
  "run_events [] ess = []" "run_events ((t, e) # evs) (es # ess) = map (Pair t) es @ run_events evs ess"
  by (simp_all add: run_events_def)

lemma run_events_append [simp]:
  "length evs = length ess \<Longrightarrow> run_events (evs @ evs') (ess @ ess') = run_events evs ess @ run_events evs' ess'"
  by (simp add: run_events_def)

text \<open>
  \<open>ok\<close> is what the simulation rests on: the laws of the parameters and a shared configuration.
\<close>

locale timed_simulation =
  low: timed_run step run + high: timed_run hstep hrun
  for step :: "int \<Rightarrow> 's \<Rightarrow> 'e \<Rightarrow> 's \<Rightarrow> bool" and run :: "int \<Rightarrow> 's \<Rightarrow> (int \<times> 'e) list \<Rightarrow> 's \<Rightarrow> bool"
    and hstep :: "int \<Rightarrow> 'h \<Rightarrow> 'f \<Rightarrow> 'h \<Rightarrow> bool" and hrun :: "int \<Rightarrow> 'h \<Rightarrow> (int \<times> 'f) list \<Rightarrow> 'h \<Rightarrow> bool" +
  fixes abs :: "'s \<Rightarrow> 'h"
    and trace :: "'e \<Rightarrow> 'f list \<Rightarrow> bool"
    and ok :: bool
  assumes simulates: "ok \<Longrightarrow> step t s e s' \<Longrightarrow> \<exists>es. hrun t (abs s) (map (Pair t) es) (abs s') \<and> trace e es"
begin

lemma run_simulates:
  assumes ok
  shows "run t s evs s' \<Longrightarrow> \<exists>ess. list_all2 (\<lambda>(t, e) es. trace e es) evs ess \<and>
    hrun t (abs s) (run_events evs ess) (abs s')"
proof (induction evs arbitrary: t s)
  case Nil
  then show ?case by (simp add: low.run_nil_iff high.run_nil_iff)
next
  case (Cons x evs)
  obtain u e where x: "x = (u, e)" by (cases x)
  with Cons.prems obtain s1 where s1: "t \<le> u" "step u s e s1" "run u s1 evs s'"
    by (auto simp: low.run_cons_iff)
  obtain es where es: "hrun u (abs s) (map (Pair u) es) (abs s1)" "trace e es"
    using simulates [OF assms s1(2)] by blast
  obtain ess where ess: "list_all2 (\<lambda>(t, e) es. trace e es) evs ess" "hrun u (abs s1) (run_events evs ess) (abs s')"
    using Cons.IH [OF s1(3)] by blast
  have "hrun u (abs s) (map (Pair u) es @ run_events evs ess) (abs s')"
    by (rule high.run_join [OF es(1) ess(2)]) auto
  then have "hrun t (abs s) (map (Pair u) es @ run_events evs ess) (abs s')"
    using s1(1) by (rule high.run_earlier)
  with es(2) ess(1) x show ?case by (intro exI [of _ "es # ess"]) simp
qed

end

end
