(* ===== verification/Reserve.thy ===== *)
theory Reserve
  imports Redis Radius Runs
begin

text \<open>
  The filter's ledger in Redis (\<open>internal/reserve/reserve.go\<close>): the two Lua scripts, command
  by command, on Lua's double-precision numbers; \<open>Reserve\<close>, \<open>Release\<close> and \<open>Capture\<close>; and the
  settler's \<open>ParseJob\<close>.  A script runs atomically at one server time (milliseconds); the
  filter's own clock (nanoseconds) enters through the nonce's time to live.
\<close>

section \<open>Configuration and keys\<close>

definition DefaultInflightTTL :: int where "DefaultInflightTTL = 30 * nsec"
definition DefaultNonceMargin :: int where "DefaultNonceMargin = 60 * nsec"
definition SettleStream :: string where "SettleStream = ''settle''"
definition StreamMaxLen :: nat where "StreamMaxLen = 100000"
definition MaxExact :: int where "MaxExact = 2 ^ 53 - 1"

record reserve_cfg =
  rc_inflight_ttl :: int
  rc_nonce_margin :: int

definition inflight_ttl :: "reserve_cfg \<Rightarrow> int" where
  "inflight_ttl c = (if 0 < rc_inflight_ttl c then rc_inflight_ttl c else DefaultInflightTTL)"

definition nonce_margin :: "reserve_cfg \<Rightarrow> int" where
  "nonce_margin c = (if 0 < rc_nonce_margin c then rc_nonce_margin c else DefaultNonceMargin)"

definition nonce_key :: "('pk, 'sk) crypto \<Rightarrow> address \<Rightarrow> bytes \<Rightarrow> string" where
  "nonce_key C payer nonce =
     ''nonce:{'' @ to_lower (address_string C payer) @ ''}:'' @ hex_0x nonce"

definition inflight_key :: "('pk, 'sk) crypto \<Rightarrow> address \<Rightarrow> string" where
  "inflight_key C payer = ''inflight:{'' @ to_lower (address_string C payer) @ ''}''"

section \<open>Lua numbers\<close>

text \<open>An integer as a double: 53 significant bits, ties to even.\<close>

definition dbl_nat :: "nat \<Rightarrow> nat" where
  "dbl_nat n = (let k = bits n - 53 in if k = 0 then n else round_even n (2 ^ k) * 2 ^ k)"

definition dbl :: "int \<Rightarrow> int" where
  "dbl x = (if x < 0 then - int (dbl_nat (nat (- x))) else int (dbl_nat (nat x)))"

text \<open>\<open>tonumber\<close> of a decimal integer\<close>

definition lua_tonumber :: "string \<Rightarrow> int option" where
  "lua_tonumber s = map_option dbl (signed_dec s)"

text \<open>\<open>tostring\<close> of a whole number: the format \<open>%.14g\<close>\<close>

definition g14 :: "nat \<Rightarrow> string" where
  "g14 n =
     (if n < 10 ^ 14 then nat_str n
      else
        let e0 = length (nat_str n) - 1;
            m0 = round_even n (10 ^ (e0 - 13));
            m = (if m0 = 10 ^ 14 then 10 ^ 13 else m0);
            e = (if m0 = 10 ^ 14 then Suc e0 else e0);
            frac = trim_right (tl (nat_str m)) ''0''
        in [hd (nat_str m)] @ (if frac = [] then [] else ''.'' @ frac) @ ''e+'' @ nat_str e)"

definition lua_tostring :: "int \<Rightarrow> string" where
  "lua_tostring x = (if x < 0 then ''-'' @ g14 (nat (- x)) else g14 (nat x))"

section \<open>The scripts\<close>

definition or_zero :: "string option \<Rightarrow> string" where
  "or_zero g = (case g of None \<Rightarrow> ''0'' | Some v \<Rightarrow> v)"

text \<open>\<open>reserveScript\<close>: \<open>Inl\<close> is a script error; the writes before it stay.\<close>

definition reserve_script ::
  "'r redis \<Rightarrow> int \<Rightarrow> string \<Rightarrow> string \<Rightarrow> string \<Rightarrow> string \<Rightarrow> int \<Rightarrow> int \<Rightarrow> 'r
     \<Rightarrow> 'r \<times> (unit, int \<times> string) result" where
  "reserve_script R now k1 k2 price_arg balance_arg nonce_ttl_ms inflight_ttl_ms s =
     (if rd_exists R s now k1
      then (s, bind_r (rd_get R s now k2) (\<lambda>g. Inr (1, or_zero g)))
      else
        (case rd_get R s now k2 of
           Inl _ \<Rightarrow> (s, Inl ())
         | Inr g \<Rightarrow>
             (case (lua_tonumber price_arg, lua_tonumber balance_arg, lua_tonumber (or_zero g)) of
                (Some price, Some balance, Some inflight) \<Rightarrow>
                  if dbl (balance - inflight) < price then (s, Inr (2, lua_tostring inflight))
                  else
                    (case rd_set_nx_px R s now k1 ''1'' nonce_ttl_ms of
                       (s1, Inl _) \<Rightarrow> (s1, Inl ())
                     | (s1, Inr False) \<Rightarrow> (s1, Inr (1, lua_tostring inflight))
                     | (s1, Inr True) \<Rightarrow>
                         (case parse_int64 price_arg of
                            None \<Rightarrow> (s1, Inl ())
                          | Some n \<Rightarrow>
                              (case rd_incrby R s1 now k2 n of
                                 (s2, Inl _) \<Rightarrow> (s2, Inl ())
                               | (s2, Inr after) \<Rightarrow>
                                   (rd_pexpire R s2 now k2 inflight_ttl_ms,
                                    Inr (0, lua_tostring (dbl after))))))
              | _ \<Rightarrow> (s, Inl ()))))"

text \<open>\<open>releaseScript\<close>: \<open>DECRBY\<close> by the argument, and \<open>DEL\<close> at zero or below.\<close>

definition release_script :: "'r redis \<Rightarrow> int \<Rightarrow> string \<Rightarrow> string \<Rightarrow> 'r \<Rightarrow> 'r \<times> (unit, int) result" where
  "release_script R now k amount_arg s =
     (case parse_int64 amount_arg of
        None \<Rightarrow> (s, Inl ())
      | Some n \<Rightarrow>
          if n = - (2 ^ 63) then (s, Inl ())
          else
            (case rd_incrby R s now k (- n) of
               (s1, Inl _) \<Rightarrow> (s1, Inl ())
             | (s1, Inr left) \<Rightarrow>
                 if dbl left \<le> 0 then (rd_del R s1 now k, Inr 0) else (s1, Inr (dbl left))))"

section \<open>Reserve and Release\<close>

datatype outcome = OutOK | OutReplay | OutInsufficient

datatype reserve_error = AmountRange int | ReserveFailed | UnexpectedResult int

record reservation =
  rv_payer :: address
  rv_nonce :: bytes
  rv_amount :: int
  rv_inflight :: "int option"

text \<open>\<open>max(time.Until(expires) + margin, 1s)\<close>: the difference saturates, the sum wraps.\<close>

definition nonce_ttl :: "reserve_cfg \<Rightarrow> int \<Rightarrow> int \<Rightarrow> int" where
  "nonce_ttl c now expires = max (i64 (sat64 (expires - now) + nonce_margin c)) nsec"

definition clamp_balance :: "int \<Rightarrow> int" where
  "clamp_balance balance = (if balance > MaxExact then MaxExact else balance)"

definition reserve ::
  "('pk, 'sk) crypto \<Rightarrow> 'r redis \<Rightarrow> reserve_cfg \<Rightarrow> fault \<Rightarrow> int \<Rightarrow> int \<Rightarrow> address \<Rightarrow> bytes \<Rightarrow> int \<Rightarrow> int
     \<Rightarrow> int \<Rightarrow> 'r \<Rightarrow> 'r \<times> (reserve_error, outcome \<times> reservation option) result" where
  "reserve C R c fault clock rnow payer nonce amount balance expires s =
     (if amount \<le> 0 \<or> amount > MaxExact then (s, Inl (AmountRange amount))
      else
        (case deliver fault
                (reserve_script R rnow (nonce_key C payer nonce) (inflight_key C payer)
                   (int_str amount) (int_str (clamp_balance balance))
                   (millis (nonce_ttl c clock expires)) (millis (inflight_ttl c))) s of
           (s', None) \<Rightarrow> (s', Inl ReserveFailed)
         | (s', Some (Inl _)) \<Rightarrow> (s', Inl ReserveFailed)
         | (s', Some (Inr (res, after))) \<Rightarrow>
             (s', if res = 0 then
                    Inr (OutOK, Some \<lparr>rv_payer = payer, rv_nonce = nonce, rv_amount = amount,
                                      rv_inflight = big_set_string after\<rparr>)
                  else if res = 1 then Inr (OutReplay, None)
                  else if res = 2 then Inr (OutInsufficient, None)
                  else Inl (UnexpectedResult res))))"

definition release ::
  "('pk, 'sk) crypto \<Rightarrow> 'r redis \<Rightarrow> fault \<Rightarrow> int \<Rightarrow> address \<Rightarrow> int \<Rightarrow> 'r \<Rightarrow> 'r \<times> bool" where
  "release C R fault rnow payer amount s =
     (case deliver fault (release_script R rnow (inflight_key C payer) (int_str amount)) s of
        (s', Some (Inr _)) \<Rightarrow> (s', True)
      | (s', _) \<Rightarrow> (s', False))"

section \<open>Capture and ParseJob\<close>

record job =
  jb_paymentId :: string
  jb_payer :: string
  jb_route :: string
  jb_amount :: string
  jb_network :: string
  jb_validBefore :: int
  jb_payment :: string
  jb_requirements :: requirements
  jb_servedAt :: int

definition job_fields :: "job \<Rightarrow> fields" where
  "job_fields j =
     [(''paymentId'', jb_paymentId j), (''payer'', jb_payer j), (''route'', jb_route j),
      (''amount'', jb_amount j), (''network'', jb_network j),
      (''validBefore'', int_str (jb_validBefore j)), (''payment'', jb_payment j),
      (''requirements'', print_json (enc_requirements (jb_requirements j))),
      (''servedAt'', int_str (unix_milli (jb_servedAt j)))]"

definition capture ::
  "'r redis \<Rightarrow> fault \<Rightarrow> int \<Rightarrow> job \<Rightarrow> 'r \<Rightarrow> 'r \<times> nat option" where
  "capture R fault rnow j s =
     deliver fault (\<lambda>s. rd_xadd R s rnow SettleStream (Some StreamMaxLen) (job_fields j)) s"

datatype job_error = BadValidBefore | BadServedAt | BadRequirements | MissingJobFields

definition parse_job :: "fields \<Rightarrow> (job_error, job) result" where
  "parse_job values =
     (let str = (\<lambda>k. case map_of values k of None \<Rightarrow> [] | Some v \<Rightarrow> v) in
      bind_r (or_err BadValidBefore (parse_int64 (str ''validBefore''))) (\<lambda>vb.
      bind_r (or_err BadServedAt (parse_int64 (str ''servedAt''))) (\<lambda>served.
      bind_r (or_err BadRequirements
                (Option.bind (parse_json (str ''requirements'')) (dec_requirements zero_requirements))) (\<lambda>reqs.
        if str ''paymentId'' = [] \<or> str ''payer'' = [] \<or> str ''payment'' = [] then Inl MissingJobFields
        else Inr \<lparr>jb_paymentId = str ''paymentId'', jb_payer = str ''payer'', jb_route = str ''route'',
                  jb_amount = str ''amount'', jb_network = str ''network'', jb_validBefore = vb,
                  jb_payment = str ''payment'', jb_requirements = reqs,
                  jb_servedAt = served * msec\<rparr>))))"

section \<open>Lemmas: numbers and keys\<close>

lemma dbl_nat_exact: "n < 2 ^ 53 \<Longrightarrow> dbl_nat n = n"
  using bits_le [of n 53] by (simp add: dbl_nat_def Let_def)

lemma dbl_exact: "\<bar>x\<bar> < 2 ^ 53 \<Longrightarrow> dbl x = x"
  by (auto simp: dbl_def dbl_nat_exact)

lemma dbl_nonpos: "x \<le> 0 \<Longrightarrow> dbl x \<le> 0"
  by (auto simp: dbl_def dbl_nat_exact)

lemma lua_tonumber_int_str: "lua_tonumber (int_str x) = Some (dbl x)"
  by (simp add: lua_tonumber_def)

lemma lua_tonumber_zero: "lua_tonumber ''0'' = Some 0"
  by (simp add: lua_tonumber_def signed_dec_def all_digits_def is_digit_def dec_val_def digit_val_def
      dbl_def dbl_nat_exact)

lemma to_lower_hex: "n < 16 \<Longrightarrow> to_lower_char (hex_char n) = hex_char n"
  by (auto simp: to_lower_char_def is_upper_def hex_char_code)

lemma to_lower_upper:
  assumes "is_lower c" shows "to_lower_char (to_upper_char c) = c"
proof -
  have u: "code (to_upper_char c) = code c - 32" by (rule to_upper_char_code [OF assms])
  then have "is_upper (to_upper_char c)" using assms by (auto simp: is_upper_def is_lower_def)
  from to_lower_char_code [OF this] u assms have "code (to_lower_char (to_upper_char c)) = code c"
    by (simp add: is_lower_def)
  then show ?thesis by (simp add: of_char_eq_iff)
qed

lemma to_lower_to_upper: "to_lower_char (to_upper_char c) = to_lower_char c"
proof (cases "is_lower c")
  case True
  then have "\<not> is_upper c" by (auto simp: is_lower_def is_upper_def)
  with True show ?thesis by (simp add: to_lower_upper) (simp add: to_lower_char_def)
qed (simp add: to_upper_char_def)

lemma to_lower_hex_encode: "to_lower (hex_encode b) = hex_encode b"
  by (induction b) (simp_all add: to_lower_def to_lower_hex)

lemma to_lower_address: "to_lower (address_string C a) = ''0x'' @ hex_encode a"
proof -
  have "map to_lower_char s = map to_lower_char t"
    if "list_all2 (\<lambda>c d. c = d \<or> c = to_upper_char d) s t" for s t
    using that by (induction rule: list_all2_induct) (auto simp: to_lower_to_upper)
  from this [OF address_string_case [of C a]]
  have "to_lower (drop 2 (address_string C a)) = hex_encode a"
    using to_lower_hex_encode [of a] by (simp add: to_lower_def)
  moreover have "address_string C a = ''0x'' @ drop 2 (address_string C a)"
    by (simp add: address_string_def Let_def)
  moreover have "to_lower ''0x'' = ''0x''" by (simp add: to_lower_def to_lower_char_def is_upper_def)
  ultimately show ?thesis by (metis map_append to_lower_def)
qed

lemma hex_encode_inject [simp]: "hex_encode a = hex_encode b \<longleftrightarrow> a = b"
  by (metis hex_decode_encode option.inject)

lemma inflight_key_inject: "inflight_key C a = inflight_key C b \<longleftrightarrow> a = b"
  by (simp add: inflight_key_def to_lower_address)

lemma nonce_key_inject:
  assumes "is_address a" "is_address b"
  shows "nonce_key C a m = nonce_key C b n \<longleftrightarrow> a = b \<and> m = n"
  using assms by (auto simp: nonce_key_def to_lower_address hex_0x_def is_address_def)

lemma keys_apart [simp]: "nonce_key C a m \<noteq> inflight_key C b" "inflight_key C b \<noteq> nonce_key C a m"
  by (simp_all add: nonce_key_def inflight_key_def)

section \<open>Lemmas: what the scripts do to the keys\<close>

text \<open>The payer's in-flight sum as an observation.\<close>

definition inflight_of :: "keyspace \<Rightarrow> string \<Rightarrow> int" where
  "inflight_of v k =
     (case v k of
        Some (RString x, _) \<Rightarrow> (case parse_int64 x of None \<Rightarrow> 0 | Some n \<Rightarrow> n)
      | _ \<Rightarrow> 0)"

text \<open>An in-flight key is absent or holds a positive exact integer.\<close>

definition counter_ok :: "keyspace \<Rightarrow> string \<Rightarrow> bool" where
  "counter_ok v k \<longleftrightarrow>
     v k = None \<or> (\<exists>n e. v k = Some (RString (int_str n), e) \<and> 0 < n \<and> n \<le> MaxExact)"

lemma exact_int64: "0 \<le> n \<Longrightarrow> n \<le> MaxExact \<Longrightarrow> is_int64 n"
  by (simp add: is_int64_def MaxExact_def)

lemma counter_okE:
  assumes "counter_ok v k"
  obtains "v k = None" "inflight_of v k = 0"
  | n e where "v k = Some (RString (int_str n), e)" "0 < n" "n \<le> MaxExact" "inflight_of v k = n"
proof (cases "v k")
  case None
  then show thesis by (intro that(1)) (simp_all add: inflight_of_def)
next
  case (Some x)
  with assms obtain n e where n: "v k = Some (RString (int_str n), e)" "0 < n" "n \<le> MaxExact"
    by (auto simp: counter_ok_def)
  then have "inflight_of v k = n"
    by (simp add: inflight_of_def parse_int64_int_str exact_int64)
  with n show thesis by (rule that(2))
qed

lemma inflight_bounds: "counter_ok v k \<Longrightarrow> 0 \<le> inflight_of v k \<and> inflight_of v k \<le> MaxExact"
  by (erule counter_okE) (auto simp: MaxExact_def)

lemma counter_read:
  assumes "counter_ok v k"
  obtains g where "ks_get v k = Inr g" "lua_tonumber (or_zero g) = Some (inflight_of v k)"
  using assms
proof (cases rule: counter_okE)
  case 1
  then show thesis by (intro that [of None]) (simp_all add: ks_get_def or_zero_def lua_tonumber_zero)
next
  case (2 n e)
  then have "dbl n = n" by (intro dbl_exact) (auto simp: MaxExact_def)
  with 2 show thesis
    by (intro that [of "Some (int_str n)"]) (simp_all add: ks_get_def or_zero_def lua_tonumber_int_str)
qed

lemma counter_incr:
  assumes "counter_ok v k" "is_int64 n" "is_int64 (inflight_of v k + n)"
  obtains e where "ks_incrby v k n = (v(k \<mapsto> (RString (int_str (inflight_of v k + n)), e)),
      Inr (inflight_of v k + n))"
  using assms(1)
proof (cases rule: counter_okE)
  case 1
  then show thesis by (intro that) (simp add: ks_incrby_def)
next
  case (2 m e)
  with assms show thesis
    by (intro that [of e]) (simp add: ks_incrby_def parse_int64_int_str exact_int64)
qed

lemma lua_balance_check:
  assumes "0 \<le> i" "i \<le> MaxExact" "0 < p" "p \<le> MaxExact" "b \<le> MaxExact"
  shows "dbl (dbl b - i) < dbl p \<longleftrightarrow> b - i < p"
proof -
  have p: "dbl p = p" using assms by (intro dbl_exact) (auto simp: MaxExact_def)
  show ?thesis
  proof (cases "b < 0")
    case True
    then have "dbl b \<le> 0" by (intro dbl_nonpos) simp
    then have "dbl (dbl b - i) \<le> 0" using assms(1) by (intro dbl_nonpos) simp
    with True assms p show ?thesis by simp
  next
    case False
    then have "dbl b = b" "dbl (b - i) = b - i"
      using assms by (auto intro!: dbl_exact simp: MaxExact_def)
    with p show ?thesis by simp
  qed
qed

definition reserve_code :: "keyspace \<Rightarrow> string \<Rightarrow> string \<Rightarrow> int \<Rightarrow> int \<Rightarrow> int" where
  "reserve_code v k1 k2 price balance =
     (if v k1 \<noteq> None then 1 else if balance - inflight_of v k2 < price then 2 else 0)"

definition reserve_view :: "keyspace \<Rightarrow> int \<Rightarrow> string \<Rightarrow> string \<Rightarrow> int \<Rightarrow> int \<Rightarrow> int \<Rightarrow> int \<Rightarrow> keyspace" where
  "reserve_view v now k1 k2 price balance nttl ittl =
     (if reserve_code v k1 k2 price balance = 0
      then v(k1 \<mapsto> (RString ''1'', Some (now + nttl)),
             k2 \<mapsto> (RString (int_str (inflight_of v k2 + price)), Some (now + ittl)))
      else v)"

lemma reserve_script_spec:
  assumes R: "key_laws R" and v: "rd_view R s now = v" and ok: "counter_ok v k2" and k: "k1 \<noteq> k2"
    and p: "0 < price" "price \<le> MaxExact" and b: "balance \<le> MaxExact"
    and t: "0 < nttl" "0 < ittl"
  obtains s' str where
    "reserve_script R now k1 k2 (int_str price) (int_str balance) nttl ittl s =
       (s', Inr (reserve_code v k1 k2 price balance, str))"
    "rd_view R s' now = reserve_view v now k1 k2 price balance nttl ittl"
    "rd_stream R s' = rd_stream R s"
    "reserve_code v k1 k2 price balance = 0 \<longrightarrow> str = lua_tostring (inflight_of v k2 + price)"
proof -
  have ex: "rd_exists R s now k1 = (v k1 \<noteq> None)" and get: "rd_get R s now k2 = ks_get v k2"
    using v by (auto simp: law_exists [OF R] law_get [OF R])
  obtain g where g: "ks_get v k2 = Inr g" "lua_tonumber (or_zero g) = Some (inflight_of v k2)"
    by (rule counter_read [OF ok])
  have cmp: "dbl (dbl balance - inflight_of v k2) < dbl price \<longleftrightarrow> balance - inflight_of v k2 < price"
    using inflight_bounds [OF ok] p b by (intro lua_balance_check) auto
  consider "v k1 \<noteq> None" | "v k1 = None" "balance - inflight_of v k2 < price"
    | "v k1 = None" "price \<le> balance - inflight_of v k2" by fastforce
  then show thesis
  proof cases
    case 1
    then show thesis using v
      by (intro that [of s "or_zero g"])
        (simp_all add: reserve_script_def ex get g reserve_code_def reserve_view_def)
  next
    case 2
    then show thesis using v
      by (intro that [of s "lua_tostring (inflight_of v k2)"])
        (simp_all add: reserve_script_def ex get g cmp lua_tonumber_int_str reserve_code_def reserve_view_def)
  next
    case 3
    let ?v1 = "v(k1 \<mapsto> (RString ''1'', Some (now + nttl)))"
    obtain s1 r where s1: "rd_set_nx_px R s now k1 ''1'' nttl = (s1, r)" by (cases "rd_set_nx_px R s now k1 ''1'' nttl")
    then have v1: "rd_view R s1 now = ?v1" "r = Inr True" "rd_stream R s1 = rd_stream R s"
      using law_set [OF R s1] v 3 t by (auto simp: ks_set_nx_px_def)
    have ok1: "counter_ok ?v1 k2" "inflight_of ?v1 k2 = inflight_of v k2"
      using ok k by (simp_all add: counter_ok_def inflight_of_def)
    have range: "is_int64 price" "is_int64 (inflight_of v k2 + price)"
      using inflight_bounds [OF ok] p b 3 by (auto simp: is_int64_def MaxExact_def)
    obtain e where inc: "ks_incrby ?v1 k2 price = (?v1(k2 \<mapsto> (RString (int_str (inflight_of v k2 + price)), e)),
        Inr (inflight_of v k2 + price))"
      using counter_incr [OF ok1(1) range(1)] range(2) ok1(2) by metis
    obtain s2 r2 where s2: "rd_incrby R s1 now k2 price = (s2, r2)" by (cases "rd_incrby R s1 now k2 price")
    then have v2: "rd_view R s2 now = ?v1(k2 \<mapsto> (RString (int_str (inflight_of v k2 + price)), e))"
      "r2 = Inr (inflight_of v k2 + price)" "rd_stream R s2 = rd_stream R s"
      using law_incrby [OF R s2] v1 inc by auto
    have v3: "rd_view R (rd_pexpire R s2 now k2 ittl) now = ks_pexpire (rd_view R s2 now) now k2 ittl"
      "rd_stream R (rd_pexpire R s2 now k2 ittl) = rd_stream R s"
      using v2 by (auto simp: law_pexpire [OF R])
    have d: "dbl (inflight_of v k2 + price) = inflight_of v k2 + price"
      using inflight_bounds [OF ok] p b 3 by (intro dbl_exact) (auto simp: MaxExact_def)
    show thesis
      using 3 t v2 v3 s1 s2 v1 k range(1)
      by (intro that [of "rd_pexpire R s2 now k2 ittl" "lua_tostring (dbl (inflight_of v k2 + price))"])
        (simp_all add: d reserve_script_def ex get g cmp lua_tonumber_int_str parse_int64_int_str
          reserve_code_def reserve_view_def ks_pexpire_def)
  qed
qed

text \<open>A release takes the amount off the sum; the key is gone when nothing is left.\<close>

definition release_view :: "keyspace \<Rightarrow> string \<Rightarrow> int \<Rightarrow> keyspace" where
  "release_view v k n =
     (if inflight_of v k \<le> n then v(k := None)
      else v(k \<mapsto> (RString (int_str (inflight_of v k - n)), snd (the (v k)))))"

lemma release_script_spec:
  assumes R: "key_laws R" and v: "rd_view R s now = v" and ok: "counter_ok v k"
    and n: "0 < n" "n \<le> MaxExact"
  obtains s' r where "release_script R now k (int_str n) s = (s', Inr r)"
    "rd_view R s' now = release_view v k n" "rd_stream R s' = rd_stream R s"
proof -
  let ?i = "inflight_of v k"
  have b: "0 \<le> ?i" "?i \<le> MaxExact" using inflight_bounds [OF ok] by auto
  have range: "is_int64 n" "is_int64 (- n)" "is_int64 (?i + - n)" "n \<noteq> - (2 ^ 63)"
    using n b by (auto simp: is_int64_def MaxExact_def)
  have d: "dbl (?i - n) = ?i - n" using n b by (intro dbl_exact) (auto simp: MaxExact_def)
  obtain e where inc: "ks_incrby v k (- n) = (v(k \<mapsto> (RString (int_str (?i - n)), e)), Inr (?i - n))"
    and e: "v k \<noteq> None \<Longrightarrow> e = snd (the (v k))"
  proof (rule counter_okE [OF ok])
    assume "v k = None" "?i = 0"
    then show thesis by (intro that) (simp_all add: ks_incrby_def)
  next
    fix m e assume m: "v k = Some (RString (int_str m), e)" "0 < m" "m \<le> MaxExact" "?i = m"
    then show thesis using range(3)
      by (intro that [of e]) (simp_all add: ks_incrby_def parse_int64_int_str exact_int64)
  qed
  obtain s1 r where s1: "rd_incrby R s now k (- n) = (s1, r)" by (cases "rd_incrby R s now k (- n)")
  then have v1: "rd_view R s1 now = v(k \<mapsto> (RString (int_str (?i - n)), e))" "r = Inr (?i - n)"
    "rd_stream R s1 = rd_stream R s"
    using law_incrby [OF R s1] v inc by auto
  have vd: "rd_view R (rd_del R s1 now k) now = (rd_view R s1 now)(k := None)"
    "rd_stream R (rd_del R s1 now k) = rd_stream R s"
    using v1 by (auto simp: law_del [OF R])
  show thesis
  proof (cases "?i \<le> n")
    case True
    then show thesis using s1 v1 vd range d
      by (intro that [of "rd_del R s1 now k" 0])
        (simp_all add: release_script_def parse_int64_int_str release_view_def)
  next
    case False
    then have "v k \<noteq> None" using n by (auto simp: inflight_of_def split: option.splits)
    with False show thesis using s1 v1 range d e
      by (intro that [of s1 "?i - n"])
        (simp_all add: release_script_def parse_int64_int_str release_view_def)
  qed
qed


section \<open>Lemmas: which keys a call can change\<close>

lemma set_other: "k \<noteq> k' \<Longrightarrow> fst (ks_set_nx_px v now k' x ttl) k = v k"
  by (simp add: ks_set_nx_px_def)

lemma incrby_other: "k \<noteq> k' \<Longrightarrow> fst (ks_incrby v k' n) k = v k"
  by (simp add: ks_incrby_def split: option.splits prod.splits rvalue.splits)

lemma pexpire_other: "k \<noteq> k' \<Longrightarrow> ks_pexpire v now k' ttl k = v k"
  by (simp add: ks_pexpire_def split: option.splits prod.splits)

text \<open>A reserve leaves every other key alone, and a nonce that is claimed.\<close>

lemma reserve_script_frame:
  assumes R: "key_laws R" and k: "k \<noteq> k2" "k = k1 \<Longrightarrow> rd_view R s now k \<noteq> None"
  shows "rd_view R (fst (reserve_script R now k1 k2 p b nttl ittl s)) now k = rd_view R s now k"
proof (cases "rd_view R s now k1 = None")
  case False
  then show ?thesis by (simp add: reserve_script_def law_exists [OF R])
next
  case True
  then have k1: "k \<noteq> k1" using k(2) by auto
  show ?thesis
    by (auto simp: reserve_script_def law_exists [OF R] True set_other [OF k1] incrby_other [OF k(1)]
        pexpire_other [OF k(1)] law_pexpire [OF R] dest!: law_set [OF R] law_incrby [OF R]
        split: prod.split sum.split option.split bool.split)
qed

text \<open>An accepted reserve found the nonce free and leaves it claimed for its time to live.\<close>

lemma reserve_script_claims:
  assumes R: "key_laws R" and k: "k1 \<noteq> k2"
    and r: "reserve_script R now k1 k2 p b nttl ittl s = (s', Inr (0, str))"
  shows "rd_view R s now k1 = None" "0 < nttl"
    "rd_view R s' now k1 = Some (RString ''1'', Some (now + nttl))"
proof -
  from r show free: "rd_view R s now k1 = None"
    by (cases "rd_view R s now k1") (auto simp: reserve_script_def law_exists [OF R] bind_r_eq_Inr)
  from r obtain s1 s2 n m where s1: "rd_set_nx_px R s now k1 ''1'' nttl = (s1, Inr True)"
    and s2: "rd_incrby R s1 now k2 n = (s2, Inr m)" and s': "s' = rd_pexpire R s2 now k2 ittl"
    by (auto simp: reserve_script_def law_exists [OF R] free
        split: if_splits sum.splits option.splits prod.splits bool.splits)
  have "ks_set_nx_px (rd_view R s now) now k1 ''1'' nttl = (rd_view R s1 now, Inr True)"
    using law_set [OF R s1] by (metis prod.collapse)
  then show "0 < nttl" by (auto simp: ks_set_nx_px_def split: if_splits)
  then have "rd_view R s1 now k1 = Some (RString ''1'', Some (now + nttl))"
    using law_set [OF R s1] free by (simp add: ks_set_nx_px_def)
  then show "rd_view R s' now k1 = Some (RString ''1'', Some (now + nttl))"
    using law_incrby [OF R s2] k s' by (simp add: law_pexpire [OF R] pexpire_other incrby_other)
qed

lemma release_script_frame:
  assumes R: "key_laws R" and k: "k \<noteq> k2"
  shows "rd_view R (fst (release_script R now k2 n s)) now k = rd_view R s now k"
  using k
  by (auto simp: release_script_def incrby_other law_del [OF R] dest!: law_incrby [OF R]
      split: prod.split sum.split option.split)

lemma deliver_frame:
  assumes "\<And>s. view (fst (f s)) k = view s k"
  shows "view (fst (deliver fault f s)) k = view s k"
  using assms by (cases fault) (auto split: prod.split simp: prod.case_eq_if)

section \<open>The ledger as a transition system\<close>

text \<open>
  One call of the ledger, at a server time, with its fault and its answer; or any step of
  the rest of the system, which does not touch the ledger's keys.
\<close>

datatype ledger_event =
    Reserved fault int address bytes int int int "(reserve_error, outcome \<times> reservation option) result"
  | Released fault address int bool
  | Elsewhere

definition ledger_key :: "string \<Rightarrow> bool" where
  "ledger_key k \<longleftrightarrow> prefix ''nonce:{'' k \<or> prefix ''inflight:{'' k"

inductive ledger_step ::
  "('pk, 'sk) crypto \<Rightarrow> 'r redis \<Rightarrow> reserve_cfg \<Rightarrow> int \<Rightarrow> 'r \<Rightarrow> ledger_event \<Rightarrow> 'r \<Rightarrow> bool"
  for C :: "('pk, 'sk) crypto" and R :: "'r redis" and c :: reserve_cfg and t :: int
where
  step_reserve:
    "reserve C R c f clock t payer nonce amount balance expires s = (s', r) \<Longrightarrow>
       ledger_step C R c t s (Reserved f clock payer nonce amount balance expires r) s'"
| step_release:
    "release C R f t payer amount s = (s', ok) \<Longrightarrow>
       ledger_step C R c t s (Released f payer amount ok) s'"
| step_elsewhere:
    "(\<And>k. ledger_key k \<Longrightarrow> rd_view R s' t k = rd_view R s t k) \<Longrightarrow> ledger_step C R c t s Elsewhere s'"

inductive_cases ledger_step_ReservedE: "ledger_step C R c t s (Reserved f clk p n a b x r) s'"
inductive_cases ledger_step_ReleasedE: "ledger_step C R c t s (Released f p a ok) s'"
inductive_cases ledger_step_ElsewhereE: "ledger_step C R c t s Elsewhere s'"

inductive ledger_run ::
  "('pk, 'sk) crypto \<Rightarrow> 'r redis \<Rightarrow> reserve_cfg \<Rightarrow> int \<Rightarrow> 'r \<Rightarrow> (int \<times> ledger_event) list \<Rightarrow> 'r \<Rightarrow> bool"
  for C :: "('pk, 'sk) crypto" and R :: "'r redis" and c :: reserve_cfg
where
  run_nil: "ledger_run C R c t s [] s"
| run_cons: "t \<le> t' \<Longrightarrow> ledger_step C R c t' s e s1 \<Longrightarrow> ledger_run C R c t' s1 es s' \<Longrightarrow>
    ledger_run C R c t s ((t', e) # es) s'"

inductive_cases ledger_run_ConsE: "ledger_run C R c t s ((t', e) # es) s'"

inductive_simps ledger_run_nil: "ledger_run C R c t s [] s'"

interpretation ledger: timed_run "ledger_step C R c" "ledger_run C R c"
  for C :: "('pk, 'sk) crypto" and R :: "'r redis" and c
  by unfold_locales (auto simp: ledger_run_nil elim: ledger_run_ConsE intro: run_cons)

lemma ledger_key_simps [simp]:
  "ledger_key (nonce_key C p n)" "ledger_key (inflight_key C p)"
  by (simp_all add: ledger_key_def nonce_key_def inflight_key_def)

lemma reserve_cases:
  assumes "reserve C R c f clock t payer nonce amount balance expires s = (s', r)"
  obtains "s' = s" "r = Inl (AmountRange amount)" "amount \<le> 0 \<or> amount > MaxExact"
  | d where "0 < amount" "amount \<le> MaxExact"
    "deliver f (reserve_script R t (nonce_key C payer nonce) (inflight_key C payer)
       (int_str amount) (int_str (clamp_balance balance))
       (millis (nonce_ttl c clock expires)) (millis (inflight_ttl c))) s = (s', d)"
    "\<And>q. r = Inr (OutOK, q) \<Longrightarrow> \<exists>str. d = Some (Inr (0, str))"
  using assms
  by (auto simp: reserve_def split: if_splits prod.splits option.splits sum.splits)

lemma deliver_Some:
  assumes "deliver f g s = (s', Some a)"
  obtains s0 where "g s0 = (s', a)"
  using assms by (cases f) (auto split: prod.splits)

text \<open>A claimed nonce stays claimed, with its expiry, through every step before that.\<close>

lemma ledger_step_keeps_nonce:
  assumes R: "key_laws R" and st: "ledger_step C R c t s e s'"
    and k: "rd_view R s t (nonce_key C p n) = Some v"
  shows "rd_view R s' t (nonce_key C p n) = Some v"
  using st
proof cases
  case (step_reserve f clock payer nonce amount balance expires r)
  show ?thesis
  proof (cases rule: reserve_cases [OF step_reserve(2)])
    case 1
    then show ?thesis using k by simp
  next
    case (2 d)
    let ?f = "reserve_script R t (nonce_key C payer nonce) (inflight_key C payer)
       (int_str amount) (int_str (clamp_balance balance))
       (millis (nonce_ttl c clock expires)) (millis (inflight_ttl c))"
    have fr: "rd_view R (fst (?f s0)) t (nonce_key C p n) = Some v"
      if "rd_view R s0 t (nonce_key C p n) = Some v" for s0
      using that by (subst reserve_script_frame [OF R]) auto
    have "rd_view R (fst (deliver f ?f s)) t (nonce_key C p n) = Some v"
      using k fr by (cases f) (auto split: prod.split simp: prod.case_eq_if)
    with 2 show ?thesis by simp
  qed
next
  case (step_release f payer amount ok)
  have "rd_view R (fst (deliver f (release_script R t (inflight_key C payer) (int_str amount)) s)) t
      (nonce_key C p n) = rd_view R s t (nonce_key C p n)"
    by (rule deliver_frame [where view = "\<lambda>s. rd_view R s t"]) (simp add: release_script_frame [OF R])
  then show ?thesis
    using step_release(2) k by (auto simp: release_def split: prod.splits option.splits sum.splits)
next
  case step_elsewhere
  then show ?thesis using k by simp
qed

lemma ledger_run_keeps_nonce:
  assumes R: "key_laws R" and run: "ledger_run C R c t s es s'"
    and k: "rd_view R s t (nonce_key C p n) = Some (v, Some x)" and before: "\<forall>(t, e) \<in> set es. t < x"
    and split: "es = mid @ (t2, e) # post"
  shows "\<exists>s2. rd_view R s2 t2 (nonce_key C p n) = Some (v, Some x) \<and> (\<exists>s3. ledger_step C R c t2 s2 e s3)"
  using run k before split
proof (induction arbitrary: mid rule: ledger_run.induct)
  case (run_nil t s)
  then show ?case by simp
next
  case (run_cons t t' s e' s1 es s')
  have v: "rd_view R s t' (nonce_key C p n) = Some (v, Some x)"
    using run_cons.hyps(1) run_cons.prems(1,2) by (auto simp: law_time [OF R] live_at_Some)
  show ?case
  proof (cases mid)
    case Nil
    with run_cons v show ?thesis by auto
  next
    case (Cons m mid')
    have "rd_view R s1 t' (nonce_key C p n) = Some (v, Some x)"
      by (rule ledger_step_keeps_nonce [OF R run_cons.hyps(2) v])
    then show ?thesis using run_cons.IH [of mid'] run_cons.prems Cons by auto
  qed
qed

lemma reserve_OK_claims:
  assumes R: "key_laws R" and r: "reserve C R c f clock t p n a b x s = (s', Inr (OutOK, q))"
  shows "rd_view R s' t (nonce_key C p n) = Some (RString ''1'', Some (t + millis (nonce_ttl c clock x)))"
    and "f = Answered \<Longrightarrow> rd_view R s t (nonce_key C p n) = None"
    and "rd_view R s t (nonce_key C p n) = None"
proof -
  from r obtain str where d: "deliver f (reserve_script R t (nonce_key C p n) (inflight_key C p)
       (int_str a) (int_str (clamp_balance b)) (millis (nonce_ttl c clock x)) (millis (inflight_ttl c))) s
       = (s', Some (Inr (0, str)))"
    by (auto elim: reserve_cases)
  show v: "rd_view R s' t (nonce_key C p n) = Some (RString ''1'', Some (t + millis (nonce_ttl c clock x)))"
    using d by (elim deliver_Some) (rule reserve_script_claims [OF R]; simp)
  show n: "rd_view R s t (nonce_key C p n) = None"
  proof (rule ccontr)
    assume claimed: "rd_view R s t (nonce_key C p n) \<noteq> None"
    have "rd_view R s0 t (nonce_key C p n) \<noteq> None" if "s0 = s \<or> s0 = fst (reserve_script R t (nonce_key C p n) (inflight_key C p)
       (int_str a) (int_str (clamp_balance b)) (millis (nonce_ttl c clock x)) (millis (inflight_ttl c)) s)" for s0
      using that claimed by (auto simp: reserve_script_frame [OF R])
    moreover obtain s0 where "s0 = s \<or> s0 = fst (reserve_script R t (nonce_key C p n) (inflight_key C p)
       (int_str a) (int_str (clamp_balance b)) (millis (nonce_ttl c clock x)) (millis (inflight_ttl c)) s)"
      "reserve_script R t (nonce_key C p n) (inflight_key C p)
       (int_str a) (int_str (clamp_balance b)) (millis (nonce_ttl c clock x)) (millis (inflight_ttl c)) s0
         = (s', Inr (0, str))"
      using d by (cases f) (auto split: prod.splits)
    ultimately show False using reserve_script_claims(1) [OF R] by (metis keys_apart(1))
  qed
  then show "rd_view R s t (nonce_key C p n) = None" .
qed

text \<open>The replay guard: no second acceptance of a nonce before its claim expires.\<close>

lemma accepted_twice_apart:
  assumes R: "key_laws R"
    and run: "ledger_run C R c t0 s ((t1, Reserved f1 clock1 p n a1 b1 x1 (Inr (OutOK, q1))) #
      mid @ (t2, Reserved f2 clock2 p n a2 b2 x2 (Inr (OutOK, q2))) # post) s'"
  shows "t1 + millis (nonce_ttl c clock1 x1) \<le> t2"
proof (rule ccontr)
  let ?x = "t1 + millis (nonce_ttl c clock1 x1)"
  let ?e2 = "Reserved f2 clock2 p n a2 b2 x2 (Inr (OutOK, q2))"
  assume early: "\<not> ?x \<le> t2"
  from run obtain s1 where st: "ledger_step C R c t1 s (Reserved f1 clock1 p n a1 b1 x1 (Inr (OutOK, q1))) s1"
    and rest: "ledger_run C R c t1 s1 (mid @ (t2, ?e2) # post) s'"
    by (elim ledger_run_ConsE)
  from st have v: "rd_view R s1 t1 (nonce_key C p n) = Some (RString ''1'', Some ?x)"
    by (elim ledger_step_ReservedE) (rule reserve_OK_claims [OF R])
  from rest obtain s3 where pre: "ledger_run C R c t1 s1 (mid @ [(t2, ?e2)]) s3"
    using ledger.run_prefix [of C R c t1 s1 "mid @ [(t2, ?e2)]" post s'] by auto
  have le: "\<forall>(t, e) \<in> set (mid @ [(t2, ?e2)]). t \<le> t2"
    using ledger.run_times [OF pre] by auto
  have "\<forall>(t, e) \<in> set (mid @ [(t2, ?e2)]). t < ?x" using le early by fastforce
  from ledger_run_keeps_nonce [OF R pre v this refl]
  obtain s2 s3 where "rd_view R s2 t2 (nonce_key C p n) = Some (RString ''1'', Some ?x)"
    "ledger_step C R c t2 s2 ?e2 s3" by blast
  then show False
    by (elim ledger_step_ReservedE) (auto dest: reserve_OK_claims(3) [OF R])
qed


section \<open>Lemmas: the in-flight sum bounds what is held\<close>

fun accepted :: "(reserve_error, outcome \<times> reservation option) result \<Rightarrow> bool" where
  "accepted (Inr (OutOK, _)) = True"
| "accepted _ = False"

text \<open>What a run of the ledger holds of a payer's balance: accepted less released.\<close>

fun held_by :: "address \<Rightarrow> ledger_event \<Rightarrow> int" where
  "held_by p (Reserved f clock p' n a b x r) = (if p' = p \<and> accepted r then a else 0)"
| "held_by p (Released f p' a ok) = (if p' = p then - a else 0)"
| "held_by p Elsewhere = 0"

definition held :: "address \<Rightarrow> (int \<times> ledger_event) list \<Rightarrow> int" where
  "held p es = sum_list (map (held_by p \<circ> snd) es)"

lemma held_simps [simp]:
  "held p [] = 0"
  "held p ((t, e) # es) = held_by p e + held p es"
  by (simp_all add: held_def)

lemma accepted_iff: "accepted r \<longleftrightarrow> (\<exists>q. r = Inr (OutOK, q))"
  by (cases r rule: accepted.cases) auto

text \<open>What the releases that ran twice took off the sum a second time\<close>

fun twice_by :: "address \<Rightarrow> ledger_event \<Rightarrow> int" where
  "twice_by p (Released f p' a ok) = (if p' = p \<and> f = RunTwice then a else 0)"
| "twice_by p e = 0"

definition released_twice :: "address \<Rightarrow> (int \<times> ledger_event) list \<Rightarrow> int" where
  "released_twice p es = sum_list (map (twice_by p \<circ> snd) es)"

lemma released_twice_simps [simp]:
  "released_twice p [] = 0"
  "released_twice p ((t, e) # es) = twice_by p e + released_twice p es"
  by (simp_all add: released_twice_def)

text \<open>
  When the payer's in-flight key expires: its time to live after the payer's last accepted
  payment, \<open>None\<close> before the first; and the runs whose every step comes before that.
\<close>

fun renewed :: "reserve_cfg \<Rightarrow> address \<Rightarrow> int \<Rightarrow> ledger_event \<Rightarrow> int option \<Rightarrow> int option" where
  "renewed c p t (Reserved f clock p' n a b ex r) d =
     (if p' = p \<and> accepted r then Some (t + millis (inflight_ttl c)) else d)"
| "renewed c p t e d = d"

fun kept_alive :: "reserve_cfg \<Rightarrow> address \<Rightarrow> int option \<Rightarrow> (int \<times> ledger_event) list \<Rightarrow> bool" where
  "kept_alive c p d [] \<longleftrightarrow> True"
| "kept_alive c p d ((t, e) # es) \<longleftrightarrow>
     (case d of None \<Rightarrow> True | Some x \<Rightarrow> t < x) \<and> kept_alive c p (renewed c p t e d) es"

text \<open>The sum covers what is held, on a key that lives until \<open>x\<close>.\<close>

definition covers :: "keyspace \<Rightarrow> string \<Rightarrow> int \<Rightarrow> int \<Rightarrow> bool" where
  "covers v k x net \<longleftrightarrow>
     counter_ok v k \<and>
     (net \<le> 0 \<or> net \<le> inflight_of v k \<and> (\<exists>w e. v k = Some (w, Some e) \<and> x \<le> e))"

lemma covers_mono: "covers v k x net \<Longrightarrow> net' \<le> net \<Longrightarrow> covers v k x net'"
  by (auto simp: covers_def)

lemma covers_cong: "v' k = v k \<Longrightarrow> covers v' k x net = covers v k x net"
  by (simp add: covers_def counter_ok_def inflight_of_def)

lemma covers_live: "covers v k x net \<Longrightarrow> t < x \<Longrightarrow> covers (live_at t v) k x net"
proof -
  assume c: "covers v k x net" and t: "t < x"
  show ?thesis
  proof (cases "net \<le> 0")
    case True
    with c show ?thesis by (auto simp: covers_def counter_ok_def live_at_def split: option.splits)
  next
    case False
    with c obtain w e where "v k = Some (w, Some e)" "x \<le> e" by (auto simp: covers_def)
    with t have "live_at t v k = v k" by (simp add: live_at_def)
    from covers_cong [of "live_at t v" k v, OF this] c show ?thesis by simp
  qed
qed

lemma covers_nothing: "net \<le> 0 \<Longrightarrow> covers v k x net \<longleftrightarrow> counter_ok v k"
  by (simp add: covers_def)

lemma covers_counter:
  assumes "v k = Some (RString (int_str n), Some e)" "0 < n" "n \<le> MaxExact" "net \<le> n" "x \<le> e"
  shows "covers v k x net"
proof -
  have "counter_ok v k" using assms by (auto simp: counter_ok_def)
  moreover have "inflight_of v k = n"
    using assms by (simp add: inflight_of_def parse_int64_int_str exact_int64)
  ultimately show ?thesis using assms by (auto simp: covers_def)
qed

lemma covers_reserve:
  assumes c: "covers v k2 x net" and k: "k1 \<noteq> k2" and p: "0 < a" and b: "b \<le> MaxExact" and x: "x \<le> now + ittl"
  shows "covers (reserve_view v now k1 k2 a b nttl ittl) k2 x net"
    and "reserve_code v k1 k2 a b = 0 \<Longrightarrow>
      covers (reserve_view v now k1 k2 a b nttl ittl) k2 (now + ittl) (net + a) \<and> net + a \<le> b"
proof -
  let ?i = "inflight_of v k2"
  have i: "0 \<le> ?i" "net \<le> ?i" "counter_ok v k2"
    using c inflight_bounds [of v k2] by (auto simp: covers_def)
  have both: "covers (reserve_view v now k1 k2 a b nttl ittl) k2 y (net + a) \<and> net + a \<le> b"
    if z: "reserve_code v k1 k2 a b = 0" and y: "y \<le> now + ittl" for y
  proof -
    from z have le: "?i + a \<le> b" by (auto simp: reserve_code_def split: if_splits)
    with i p b have r: "0 < ?i + a" "?i + a \<le> MaxExact" by auto
    have "covers (reserve_view v now k1 k2 a b nttl ittl) k2 y (net + a)"
      by (rule covers_counter [OF _ r]) (use z y i in \<open>simp_all add: reserve_view_def\<close>)
    then show ?thesis using i le by simp
  qed
  from both [OF _ order_refl] show "reserve_code v k1 k2 a b = 0 \<Longrightarrow>
      covers (reserve_view v now k1 k2 a b nttl ittl) k2 (now + ittl) (net + a) \<and> net + a \<le> b" .
  show "covers (reserve_view v now k1 k2 a b nttl ittl) k2 x net"
  proof (cases "reserve_code v k1 k2 a b = 0")
    case True
    from covers_mono [OF conjunct1 [OF both [OF True x]], of net] p show ?thesis by simp
  next
    case False
    then show ?thesis using c by (simp add: reserve_view_def)
  qed
qed

lemma covers_release:
  assumes c: "covers v k x net" and n: "0 < n" "n \<le> MaxExact"
  shows "covers (release_view v k n) k x (net - n)"
proof (cases "inflight_of v k \<le> n")
  case True
  then show ?thesis using c inflight_bounds [of v k]
    by (auto simp: release_view_def covers_def counter_ok_def)
next
  case False
  let ?i = "inflight_of v k"
  have i: "?i \<le> MaxExact" "v k \<noteq> None" using c False n inflight_bounds [of v k]
    by (auto simp: covers_def inflight_of_def split: option.splits)
  have r: "0 < ?i - n" "?i - n \<le> MaxExact" using i n False by auto
  show ?thesis
  proof (cases "net - n \<le> 0")
    case True
    then show ?thesis using i r False
      by (auto simp: covers_def counter_ok_def release_view_def)
  next
    case pos: False
    with c n obtain w e where "v k = Some (w, Some e)" "x \<le> e" "net \<le> ?i" by (auto simp: covers_def)
    then show ?thesis
      by (intro covers_counter [OF _ r]) (use False in \<open>simp_all add: release_view_def\<close>)
  qed
qed

definition ledger_event_ok :: "address \<Rightarrow> int \<Rightarrow> ledger_event \<Rightarrow> bool" where
  "ledger_event_ok p B e =
     (case e of
        Reserved f clock p' n a b x r \<Rightarrow> p' = p \<longrightarrow> b \<le> B
      | Released f p' a ok \<Rightarrow> p' = p \<longrightarrow> 0 < a \<and> a \<le> MaxExact
      | Elsewhere \<Rightarrow> True)"

lemma millis_pos: "msec \<le> d \<Longrightarrow> 0 < millis d"
  by (simp add: millis_def pos_imp_zdiv_pos_iff)

lemma nonce_ttl_pos: "0 < millis (nonce_ttl c clock x)"
  by (rule millis_pos) (simp add: nonce_ttl_def)

lemma reserve_exec_covers:
  assumes R: "key_laws R" and c: "covers (rd_view R s t) (inflight_key C p) x net"
    and a: "0 < a" "a \<le> MaxExact" and b: "b \<le> MaxExact" and ittl: "0 < ittl" "x \<le> t + ittl" and nttl: "0 < nttl"
    and e: "reserve_script R t (nonce_key C p n) (inflight_key C p) (int_str a) (int_str b) nttl ittl s = (s', d)"
  shows "covers (rd_view R s' t) (inflight_key C p) x net"
    and "d = Inr (0, str) \<Longrightarrow> covers (rd_view R s' t) (inflight_key C p) (t + ittl) (net + a) \<and> net + a \<le> b"
proof -
  have ok: "counter_ok (rd_view R s t) (inflight_key C p)" using c by (simp add: covers_def)
  obtain s1 st where s1: "reserve_script R t (nonce_key C p n) (inflight_key C p) (int_str a) (int_str b) nttl ittl s =
      (s1, Inr (reserve_code (rd_view R s t) (nonce_key C p n) (inflight_key C p) a b, st))"
    "rd_view R s1 t = reserve_view (rd_view R s t) t (nonce_key C p n) (inflight_key C p) a b nttl ittl"
    by (rule reserve_script_spec [OF R refl ok keys_apart(1) a b nttl ittl(1)])
  note cov = covers_reserve [OF c keys_apart(1) [of C p n p] a(1) b ittl(2), of nttl]
  show "covers (rd_view R s' t) (inflight_key C p) x net"
    using cov(1) s1 e by simp
  show "d = Inr (0, str) \<Longrightarrow> covers (rd_view R s' t) (inflight_key C p) (t + ittl) (net + a) \<and> net + a \<le> b"
    using cov(2) s1 e by simp
qed

lemma reserve_step_covers:
  assumes R: "key_laws R" and cfg: "msec \<le> inflight_ttl c"
    and c: "covers (rd_view R s t) (inflight_key C p) x net" and x: "x \<le> t + millis (inflight_ttl c)"
    and r: "reserve C R c f clock t p n a b ex s = (s', r)"
  shows "covers (rd_view R s' t) (inflight_key C p) x net"
    and "accepted r \<Longrightarrow> covers (rd_view R s' t) (inflight_key C p) (t + millis (inflight_ttl c)) (net + a) \<and> net + a \<le> b"
proof -
  let ?f = "reserve_script R t (nonce_key C p n) (inflight_key C p) (int_str a)
      (int_str (clamp_balance b)) (millis (nonce_ttl c clock ex)) (millis (inflight_ttl c))"
  have cl: "clamp_balance b \<le> MaxExact" "clamp_balance b \<le> b" by (auto simp: clamp_balance_def)
  have both: "covers (rd_view R s' t) (inflight_key C p) x net \<and>
    (accepted r \<longrightarrow> covers (rd_view R s' t) (inflight_key C p) (t + millis (inflight_ttl c)) (net + a) \<and> net + a \<le> b)"
  proof (cases rule: reserve_cases [OF r])
    case 1
    then show ?thesis using c by simp
  next
    case (2 d)
    note ex = reserve_exec_covers [OF R _ 2(1,2) cl(1) millis_pos [OF cfg] x nonce_ttl_pos, where C = C and p = p and n = n]
    have one: "covers (rd_view R s2 t) (inflight_key C p) x net \<and>
        (\<forall>str. d2 = Inr (0, str) \<longrightarrow> covers (rd_view R s2 t) (inflight_key C p) (t + millis (inflight_ttl c)) (net + a) \<and> net + a \<le> b)"
      if "?f s1 = (s2, d2)" "covers (rd_view R s1 t) (inflight_key C p) x net" for s1 s2 d2
      using ex [OF that(2) that(1)] cl(2) by fastforce
    have "covers (rd_view R s' t) (inflight_key C p) x net \<and>
        (\<forall>str. d = Some (Inr (0, str)) \<longrightarrow>
           covers (rd_view R s' t) (inflight_key C p) (t + millis (inflight_ttl c)) (net + a) \<and> net + a \<le> b)"
    proof (cases f)
      case Answered
      then show ?thesis using 2(3) one [OF _ c] by (auto split: prod.splits)
    next
      case NotRun
      then show ?thesis using 2(3) c by simp
    next
      case AnswerLost
      then show ?thesis using 2(3) one [OF _ c] by (cases "?f s") auto
    next
      case RunTwice
      obtain s1 d1 where s1: "?f s = (s1, d1)" by (cases "?f s")
      with RunTwice 2(3) obtain d2 where s2: "?f s1 = (s', d2)" "d = Some d2" by (auto split: prod.splits)
      from one [OF s1 c] have "covers (rd_view R s1 t) (inflight_key C p) x net" by blast
      from one [OF s2(1) this] s2(2) show ?thesis by auto
    qed
    then show ?thesis using 2(4) by (auto simp: accepted_iff)
  qed
  then show "covers (rd_view R s' t) (inflight_key C p) x net"
    and "accepted r \<Longrightarrow> covers (rd_view R s' t) (inflight_key C p) (t + millis (inflight_ttl c)) (net + a) \<and> net + a \<le> b"
    by simp_all
qed

lemma release_step_covers:
  assumes R: "key_laws R" and c: "covers (rd_view R s t) (inflight_key C p) x net"
    and n: "0 < n" "n \<le> MaxExact" and r: "release C R f t p n s = (s', ok)"
  shows "covers (rd_view R s' t) (inflight_key C p) x (net - n - (if f = RunTwice then n else 0))"
proof -
  have one: "\<exists>s2 d. release_script R t (inflight_key C p) (int_str n) s1 = (s2, Inr d) \<and>
      covers (rd_view R s2 t) (inflight_key C p) x (m - n)"
    if m: "covers (rd_view R s1 t) (inflight_key C p) x m" for s1 m
  proof -
    have ok: "counter_ok (rd_view R s1 t) (inflight_key C p)" using m by (simp add: covers_def)
    obtain s2 d where "release_script R t (inflight_key C p) (int_str n) s1 = (s2, Inr d)"
      "rd_view R s2 t = release_view (rd_view R s1 t) (inflight_key C p) n"
      by (rule release_script_spec [OF R refl ok n])
    with covers_release [OF m n] show ?thesis by simp
  qed
  obtain s1 d1 where s1: "release_script R t (inflight_key C p) (int_str n) s = (s1, Inr d1)"
    "covers (rd_view R s1 t) (inflight_key C p) x (net - n)" using one [OF c] by blast
  obtain s2 d2 where s2: "release_script R t (inflight_key C p) (int_str n) s1 = (s2, Inr d2)"
    "covers (rd_view R s2 t) (inflight_key C p) x (net - n - n)" using one [OF s1(2)] by blast
  have "covers (rd_view R s t) (inflight_key C p) x (net - n)"
    using c n by (intro covers_mono [OF c]) simp
  then show ?thesis using r s1 s2 by (cases f) (auto simp: release_def)
qed

text \<open>Nothing done for one payer touches the sum of another.\<close>

lemma reserve_frame:
  assumes R: "key_laws R" and r: "reserve C R c f clock t p' n a b ex s = (s', r)" and p: "p' \<noteq> p"
  shows "rd_view R s' t (inflight_key C p) = rd_view R s t (inflight_key C p)"
proof (cases rule: reserve_cases [OF r])
  case (2 d)
  have "rd_view R (fst (deliver f (reserve_script R t (nonce_key C p' n) (inflight_key C p')
      (int_str a) (int_str (clamp_balance b)) (millis (nonce_ttl c clock ex)) (millis (inflight_ttl c))) s)) t
      (inflight_key C p) = rd_view R s t (inflight_key C p)"
    by (rule deliver_frame [where view = "\<lambda>s. rd_view R s t"])
      (rule reserve_script_frame [OF R]; use p in \<open>simp add: inflight_key_inject\<close>)
  then show ?thesis using 2(3) by simp
qed simp

lemma release_frame:
  assumes R: "key_laws R" and r: "release C R f t p' a s = (s', r)" and p: "p' \<noteq> p"
  shows "rd_view R s' t (inflight_key C p) = rd_view R s t (inflight_key C p)"
proof -
  have "rd_view R (fst (deliver f (release_script R t (inflight_key C p') (int_str a)) s)) t (inflight_key C p)
      = rd_view R s t (inflight_key C p)"
    by (rule deliver_frame [where view = "\<lambda>s. rd_view R s t"])
      (rule release_script_frame [OF R], use p in \<open>simp add: inflight_key_inject\<close>)
  then show ?thesis using r by (auto simp: release_def split: prod.splits option.splits sum.splits)
qed

lemma ledger_step_covers:
  assumes R: "key_laws R" and cfg: "msec \<le> inflight_ttl c"
    and st: "ledger_step C R c t s e s'" and ok: "ledger_event_ok p B e"
    and c: "covers (rd_view R s t) (inflight_key C p) x net" and x: "x \<le> t + millis (inflight_ttl c)"
    and net: "net \<le> max 0 B"
  shows "covers (rd_view R s' t) (inflight_key C p) (the (renewed c p t e (Some x))) (net + held_by p e - twice_by p e) \<and>
    net + held_by p e - twice_by p e \<le> max 0 B"
  using st
proof cases
  case (step_reserve f clock p' n a b ex r)
  show ?thesis
  proof (cases "p' = p")
    case True
    with step_reserve have "reserve C R c f clock t p n a b ex s = (s', r)" by simp
    from reserve_step_covers [OF R cfg c x this] show ?thesis
      using True step_reserve ok net by (auto simp: ledger_event_ok_def)
  next
    case False
    have "rd_view R s' t (inflight_key C p) = rd_view R s t (inflight_key C p)"
      by (rule reserve_frame [OF R step_reserve(2) False])
    from covers_cong [of "rd_view R s' t" "inflight_key C p" "rd_view R s t", OF this] show ?thesis
      using c False step_reserve net by simp
  qed
next
  case (step_release f p' a k)
  show ?thesis
  proof (cases "p' = p")
    case True
    with step_release ok have a: "0 < a" "a \<le> MaxExact" and r: "release C R f t p a s = (s', k)"
      by (auto simp: ledger_event_ok_def)
    from release_step_covers [OF R c a r] step_release True show ?thesis
      using net a(1) by auto
  next
    case False
    have "rd_view R s' t (inflight_key C p) = rd_view R s t (inflight_key C p)"
      by (rule release_frame [OF R step_release(2) False])
    from covers_cong [of "rd_view R s' t" "inflight_key C p" "rd_view R s t", OF this] show ?thesis
      using c False step_release net by simp
  qed
next
  case step_elsewhere
  have "rd_view R s' t (inflight_key C p) = rd_view R s t (inflight_key C p)"
    by (rule step_elsewhere(2)) simp
  from covers_cong [of "rd_view R s' t" "inflight_key C p" "rd_view R s t", OF this] show ?thesis
    using c net step_elsewhere(1) by simp
qed

text \<open>Before the payer's first accepted payment nothing is held, whatever the key is.\<close>

lemma renewed_cases:
  "renewed c p t e d = Some (t + millis (inflight_ttl c)) \<and> renewed c p t e (Some x) = Some (t + millis (inflight_ttl c)) \<or>
   renewed c p t e d = d \<and> renewed c p t e (Some x) = Some x \<and> held_by p e \<le> 0" if "ledger_event_ok p B e"
  using that by (cases e) (auto simp: ledger_event_ok_def)

lemma twice_by_nonneg: "ledger_event_ok p B e \<Longrightarrow> 0 \<le> twice_by p e"
  by (cases e) (auto simp: ledger_event_ok_def)

lemma ledger_run_covers:
  assumes R: "key_laws R" and cfg: "msec \<le> inflight_ttl c" and run: "ledger_run C R c t s es s'"
    and ok: "\<forall>(t, e) \<in> set es. ledger_event_ok p B e" and live: "kept_alive c p d es"
    and c: "covers (rd_view R s t) (inflight_key C p) (case d of None \<Rightarrow> t | Some x \<Rightarrow> x) net"
    and d: "case d of None \<Rightarrow> net \<le> 0 | Some x \<Rightarrow> x \<le> t + millis (inflight_ttl c)" and net: "net \<le> max 0 B"
  shows "net + held p es - released_twice p es \<le> max 0 B"
  using run ok live c d net
proof (induction arbitrary: net d rule: ledger_run.induct)
  case (run_cons t t' s e s1 es s')
  let ?k = "inflight_key C p" and ?T = "millis (inflight_ttl c)"
  define x where "x = (case d of None \<Rightarrow> t' + ?T | Some x \<Rightarrow> x)"
  have T: "0 < ?T" by (rule millis_pos [OF cfg])
  have ev: "ledger_event_ok p B e" using run_cons.prems(1) by auto
  have x: "t' < x" "x \<le> t' + ?T" using run_cons.hyps(1) run_cons.prems(2,4) T by (auto simp: x_def split: option.splits)
  have "covers (rd_view R s t) ?k x net"
    using run_cons.prems(3,4) by (cases d) (auto simp: x_def covers_nothing)
  then have "covers (rd_view R s t') ?k x net"
    using x(1) run_cons.hyps(1) by (auto simp: law_time [OF R] intro: covers_live)
  from ledger_step_covers [OF R cfg run_cons.hyps(2) ev this x(2) run_cons.prems(5)]
  have c1: "covers (rd_view R s1 t') ?k (the (renewed c p t' e (Some x))) (net + held_by p e - twice_by p e)"
    and n1: "net + held_by p e - twice_by p e \<le> max 0 B" by blast+
  have "(net + held_by p e - twice_by p e) + held p es - released_twice p es \<le> max 0 B"
  proof (rule run_cons.IH [of "renewed c p t' e d"])
    show "kept_alive c p (renewed c p t' e d) es" "\<forall>(t, e) \<in> set es. ledger_event_ok p B e"
      using run_cons.prems(1,2) by simp_all
    show "covers (rd_view R s1 t') ?k (case renewed c p t' e d of None \<Rightarrow> t' | Some x \<Rightarrow> x)
        (net + held_by p e - twice_by p e)"
      using renewed_cases [OF ev, of c t' d x] c1 run_cons.prems(4) twice_by_nonneg [OF ev]
      by (cases d) (auto simp: x_def covers_nothing)
    show "case renewed c p t' e d of None \<Rightarrow> net + held_by p e - twice_by p e \<le> 0 | Some x \<Rightarrow> x \<le> t' + ?T"
      using renewed_cases [OF ev, of c t' d x] x run_cons.prems(4) twice_by_nonneg [OF ev]
      by (cases d) (auto simp: x_def)
  qed (rule n1)
  then show ?case by (simp add: algebra_simps)
qed simp

section \<open>Lemmas: one call, answered\<close>

definition reserve_result :: "address \<Rightarrow> bytes \<Rightarrow> int \<Rightarrow> int \<Rightarrow> int \<Rightarrow> outcome \<times> reservation option" where
  "reserve_result p n a inflight res =
     (if res = 0 then
        (OutOK, Some \<lparr>rv_payer = p, rv_nonce = n, rv_amount = a,
                      rv_inflight = big_set_string (lua_tostring (inflight + a))\<rparr>)
      else if res = 1 then (OutReplay, None) else (OutInsufficient, None))"

lemma reserve_answered:
  assumes R: "key_laws R" and ok: "counter_ok (rd_view R s t) (inflight_key C p)"
    and a: "0 < a" "a \<le> MaxExact" and cfg: "msec \<le> inflight_ttl c"
  obtains s' where
    "reserve C R c Answered clock t p n a b x s =
       (s', Inr (reserve_result p n a (inflight_of (rd_view R s t) (inflight_key C p))
              (reserve_code (rd_view R s t) (nonce_key C p n) (inflight_key C p) a (clamp_balance b))))"
    "rd_view R s' t = reserve_view (rd_view R s t) t (nonce_key C p n) (inflight_key C p) a
       (clamp_balance b) (millis (nonce_ttl c clock x)) (millis (inflight_ttl c))"
    "rd_stream R s' = rd_stream R s"
proof -
  have cl: "clamp_balance b \<le> MaxExact" by (simp add: clamp_balance_def)
  obtain s' str where s': "reserve_script R t (nonce_key C p n) (inflight_key C p) (int_str a)
      (int_str (clamp_balance b)) (millis (nonce_ttl c clock x)) (millis (inflight_ttl c)) s =
      (s', Inr (reserve_code (rd_view R s t) (nonce_key C p n) (inflight_key C p) a (clamp_balance b), str))"
    "rd_view R s' t = reserve_view (rd_view R s t) t (nonce_key C p n) (inflight_key C p) a
       (clamp_balance b) (millis (nonce_ttl c clock x)) (millis (inflight_ttl c))"
    "rd_stream R s' = rd_stream R s"
    "reserve_code (rd_view R s t) (nonce_key C p n) (inflight_key C p) a (clamp_balance b) = 0 \<longrightarrow>
       str = lua_tostring (inflight_of (rd_view R s t) (inflight_key C p) + a)"
    by (rule reserve_script_spec [OF R refl ok keys_apart(1) a cl nonce_ttl_pos millis_pos [OF cfg]])
  have "reserve_code (rd_view R s t) (nonce_key C p n) (inflight_key C p) a (clamp_balance b) \<in> {0, 1, 2}"
    by (simp add: reserve_code_def)
  then show thesis using a s'
    by (intro that [of s']) (auto simp: reserve_def reserve_result_def)
qed

lemma lua_tostring_small: "0 \<le> i \<Longrightarrow> i < 10 ^ 14 \<Longrightarrow> big_set_string (lua_tostring i) = Some i"
proof -
  assume i: "0 \<le> i" "i < 10 ^ 14"
  then have "nat i < 10 ^ 14" by simp
  with i have "lua_tostring i = int_str i" by (simp only: lua_tostring_def g14_def int_str_def) auto
  then show ?thesis by simp
qed

lemma millis_lower: "0 \<le> d \<Longrightarrow> d < (millis d + 1) * msec"
  using div_mult_mod_eq [of d msec] pos_mod_bound [of msec d] by (simp add: millis_def)

lemma nonce_ttl_lower:
  assumes "is_int64 (x - clock)" "is_int64 (x - clock + nonce_margin c)"
  shows "x - clock + nonce_margin c \<le> nonce_ttl c clock x"
  using assms by (simp add: nonce_ttl_def sat64_id i64_id)

lemma int_str_strs: "map_of (job_fields j) k =
   (if k = ''paymentId'' then Some (jb_paymentId j) else if k = ''payer'' then Some (jb_payer j)
    else if k = ''route'' then Some (jb_route j) else if k = ''amount'' then Some (jb_amount j)
    else if k = ''network'' then Some (jb_network j)
    else if k = ''validBefore'' then Some (int_str (jb_validBefore j))
    else if k = ''payment'' then Some (jb_payment j)
    else if k = ''requirements'' then Some (print_json (enc_requirements (jb_requirements j)))
    else if k = ''servedAt'' then Some (int_str (unix_milli (jb_servedAt j))) else None)"
  by (simp add: job_fields_def)

lemma parse_job_fields:
  assumes "is_int64 (jb_validBefore j)" "is_int64 (unix_milli (jb_servedAt j))"
    "ok_requirements (jb_requirements j)"
    "jb_paymentId j \<noteq> []" "jb_payer j \<noteq> []" "jb_payment j \<noteq> []"
  shows "parse_job (job_fields j) = Inr (j\<lparr>jb_servedAt := unix_milli (jb_servedAt j) * msec\<rparr>)"
proof -
  note requirements_codec.decode_compact [OF assms(3)]
  then show ?thesis using assms
    by (cases j) (simp add: parse_job_def int_str_strs parse_int64_int_str)
qed

lemma reserve_accepts:
  assumes "key_laws R" "counter_ok (rd_view R s t) (inflight_key C p)"
    "0 < a" "a \<le> MaxExact" "msec \<le> inflight_ttl c"
    "rd_view R s t (nonce_key C p n) = None"
    "inflight_of (rd_view R s t) (inflight_key C p) + a \<le> min b MaxExact"
  obtains s' q where "reserve C R c Answered clock t p n a b x s = (s', Inr (OutOK, Some q))"
    "rd_view R s' t = (rd_view R s t)
       (nonce_key C p n \<mapsto> (RString ''1'', Some (t + millis (nonce_ttl c clock x))),
        inflight_key C p \<mapsto> (RString (int_str (inflight_of (rd_view R s t) (inflight_key C p) + a)),
          Some (t + millis (inflight_ttl c))))"
    "counter_ok (rd_view R s' t) (inflight_key C p)"
    "inflight_of (rd_view R s' t) (inflight_key C p) = inflight_of (rd_view R s t) (inflight_key C p) + a"
proof -
  let ?i = "inflight_of (rd_view R s t) (inflight_key C p)"
  have "clamp_balance b = min b MaxExact" by (simp add: clamp_balance_def)
  then have code: "reserve_code (rd_view R s t) (nonce_key C p n) (inflight_key C p) a (clamp_balance b) = 0"
    using assms(6,7) by (auto simp: reserve_code_def min_def)
  obtain s' where s': "reserve C R c Answered clock t p n a b x s =
       (s', Inr (reserve_result p n a ?i
              (reserve_code (rd_view R s t) (nonce_key C p n) (inflight_key C p) a (clamp_balance b))))"
    "rd_view R s' t = reserve_view (rd_view R s t) t (nonce_key C p n) (inflight_key C p) a
       (clamp_balance b) (millis (nonce_ttl c clock x)) (millis (inflight_ttl c))"
    by (rule reserve_answered [OF assms(1-5)])
  have v: "rd_view R s' t = (rd_view R s t)
       (nonce_key C p n \<mapsto> (RString ''1'', Some (t + millis (nonce_ttl c clock x))),
        inflight_key C p \<mapsto> (RString (int_str (?i + a)), Some (t + millis (inflight_ttl c))))"
    using s'(2) code by (simp add: reserve_view_def)
  have r: "0 < ?i + a" "?i + a \<le> MaxExact"
    using inflight_bounds [OF assms(2)] assms(3,7) by auto
  show thesis
  proof (rule that [OF _ v])
    show "reserve C R c Answered clock t p n a b x s = (s', Inr (OutOK, Some
        \<lparr>rv_payer = p, rv_nonce = n, rv_amount = a, rv_inflight = big_set_string (lua_tostring (?i + a))\<rparr>))"
      using s'(1) code by (simp add: reserve_result_def)
    show "counter_ok (rd_view R s' t) (inflight_key C p)" using v r by (auto simp: counter_ok_def)
    show "inflight_of (rd_view R s' t) (inflight_key C p) = ?i + a"
      using v r by (simp add: inflight_of_def parse_int64_int_str exact_int64)
  qed
qed

section \<open>Lemmas: Capture and the streams\<close>

text \<open>What \<open>Capture\<close> leaves: the ledger's keys alone, and the job in the stream when it answered.\<close>

definition queued :: "'r redis \<Rightarrow> 'r \<Rightarrow> job \<Rightarrow> bool" where
  "queued R s j \<longleftrightarrow> job_fields j \<in> snd ` set (sm_entries (rd_stream R s SettleStream))"

lemma xadd_queues:
  assumes "stream_laws R" "rd_xadd R s t SettleStream (Some StreamMaxLen) (job_fields j) = (s', i)"
  shows "queued R s' j" "rd_view R s' = rd_view R s"
    "k \<noteq> SettleStream \<Longrightarrow> rd_stream R s' k = rd_stream R s k"
proof -
  obtain d where d: "xadd_drops (Some StreamMaxLen) (rd_stream R s SettleStream) d"
    "rd_stream R s' = (rd_stream R s)(SettleStream := sm_xadd d (rd_stream R s SettleStream) (job_fields j))"
    "rd_view R s' = rd_view R s"
    by (rule law_xadd [OF assms]) blast
  have "StreamMaxLen \<noteq> 0" by (simp add: StreamMaxLen_def)
  with sm_xadd_keeps_last [OF d(1), of "job_fields j"] d(2) show "queued R s' j"
    by (force simp: queued_def)
  show "rd_view R s' = rd_view R s" by (rule d(3))
  show "k \<noteq> SettleStream \<Longrightarrow> rd_stream R s' k = rd_stream R s k" using d(2) by simp
qed

lemma capture_effect:
  assumes S: "stream_laws R" and c: "capture R f t j s = (s', r)"
  shows "rd_view R s' = rd_view R s" "r \<noteq> None \<Longrightarrow> queued R s' j" "f = AnswerLost \<Longrightarrow> queued R s' j \<and> r = None"
    "f = NotRun \<Longrightarrow> s' = s"
proof -
  let ?x = "\<lambda>s. rd_xadd R s t SettleStream (Some StreamMaxLen) (job_fields j)"
  have v: "rd_view R (fst (?x s)) = rd_view R s" for s
    by (cases "?x s") (simp add: xadd_queues(2) [OF S])
  have q: "queued R (fst (?x s)) j" for s
    by (cases "?x s") (simp add: xadd_queues(1) [OF S])
  show "rd_view R s' = rd_view R s" using c v [of s] v [of "fst (?x s)"]
    by (cases f) (auto simp: capture_def split: prod.splits dest: arg_cong [where f = fst])
  show "r \<noteq> None \<Longrightarrow> queued R s' j" using c q [of s] q [of "fst (?x s)"]
    by (cases f) (auto simp: capture_def split: prod.splits)
  show "f = AnswerLost \<Longrightarrow> queued R s' j \<and> r = None" using c q [of s] by (auto simp: capture_def)
  show "f = NotRun \<Longrightarrow> s' = s" using c by (auto simp: capture_def)
qed

lemma capture_elsewhere:
  "stream_laws R \<Longrightarrow> capture R f t j s = (s', r) \<Longrightarrow> ledger_step C R c t s Elsewhere s'"
  by (rule step_elsewhere) (simp add: capture_effect(1))

lemma release_script_streams:
  assumes "key_laws R" shows "rd_stream R (fst (release_script R now k n s)) = rd_stream R s"
  by (auto simp: release_script_def law_del [OF assms] dest!: law_incrby [OF assms]
      split: prod.split sum.split option.split)

lemma release_streams:
  assumes "key_laws R" shows "rd_stream R (fst (release C R f t p a s)) = rd_stream R s"
proof -
  have "rd_stream R (fst (deliver f (release_script R t (inflight_key C p) (int_str a)) s)) = rd_stream R s"
    by (cases f) (auto simp: release_script_streams [OF assms] prod.case_eq_if)
  moreover have "fst (release C R f t p a s) = fst (deliver f (release_script R t (inflight_key C p) (int_str a)) s)"
    by (auto simp: release_def split: prod.split option.split sum.split)
  ultimately show ?thesis by simp
qed

lemma queued_cong: "rd_stream R s' = rd_stream R s \<Longrightarrow> queued R s' j = queued R s j"
  by (simp add: queued_def)

section \<open>Properties\<close>

text \<open>
  C16: what one answered reserve decides, and all it changes.  A claimed nonce is a replay
  and a balance that does not cover the sum is insufficient, and neither changes a key; else
  the payment is accepted, the nonce is claimed for its time to live, and the payer's
  in-flight sum grows by exactly the amount.
\<close>

theorem reserve_decides:
  assumes "key_laws R" "counter_ok (rd_view R s t) (inflight_key C p)"
    and "0 < a" "a \<le> MaxExact" "msec \<le> inflight_ttl c"
  shows "case reserve C R c Answered clock t p n a b x s of (s', r) \<Rightarrow>
    (let v = rd_view R s t; v' = rd_view R s' t; i = inflight_of v (inflight_key C p) in
     if v (nonce_key C p n) \<noteq> None then r = Inr (OutReplay, None) \<and> v' = v
     else if min b MaxExact - i < a then r = Inr (OutInsufficient, None) \<and> v' = v
     else (\<exists>q. r = Inr (OutOK, Some q) \<and> rv_amount q = a \<and>
             (i + a < 10 ^ 14 \<longrightarrow> rv_inflight q = Some (i + a))) \<and>
       v' = v(nonce_key C p n \<mapsto> (RString ''1'', Some (t + millis (nonce_ttl c clock x))),
              inflight_key C p \<mapsto> (RString (int_str (i + a)), Some (t + millis (inflight_ttl c)))))"
proof -
  have i: "0 \<le> inflight_of (rd_view R s t) (inflight_key C p)"
    using inflight_bounds [OF assms(2)] by simp
  have cl: "clamp_balance b = min b MaxExact" by (simp add: clamp_balance_def min_def)
  obtain s' where "reserve C R c Answered clock t p n a b x s =
       (s', Inr (reserve_result p n a (inflight_of (rd_view R s t) (inflight_key C p))
              (reserve_code (rd_view R s t) (nonce_key C p n) (inflight_key C p) a (clamp_balance b))))"
    "rd_view R s' t = reserve_view (rd_view R s t) t (nonce_key C p n) (inflight_key C p) a
       (clamp_balance b) (millis (nonce_ttl c clock x)) (millis (inflight_ttl c))"
    by (rule reserve_answered [OF assms])
  then show ?thesis using i assms(3)
    by (auto simp: cl reserve_result_def reserve_code_def reserve_view_def Let_def
        intro!: lua_tostring_small)
qed

definition demo_cfg :: reserve_cfg where
  "demo_cfg = \<lparr>rc_inflight_ttl = 0, rc_nonce_margin = 0\<rparr>"

lemma demo_cfg_ttl: "msec \<le> inflight_ttl demo_cfg"
  by (simp add: demo_cfg_def inflight_ttl_def DefaultInflightTTL_def)

lemma mem_keys: "key_laws mem_redis"
  using mem_redis_laws by (rule redis_lawsD)

lemma empty_mem_view: "rd_view mem_redis empty_mem t = Map.empty"
  by (rule ext) (simp add: mem_redis_def empty_mem_def live_at_def)

theorem reserve_decides_witness:
  "case reserve demo_crypto mem_redis demo_cfg Answered 0 0 demo_payTo [1] 1000 5000 (50 * nsec) empty_mem of
     (s', r) \<Rightarrow> (let v = rd_view mem_redis empty_mem 0; v' = rd_view mem_redis s' 0;
        i = inflight_of v (inflight_key demo_crypto demo_payTo) in
      if v (nonce_key demo_crypto demo_payTo [1]) \<noteq> None then r = Inr (OutReplay, None) \<and> v' = v
      else if min 5000 MaxExact - i < 1000 then r = Inr (OutInsufficient, None) \<and> v' = v
      else (\<exists>q. r = Inr (OutOK, Some q) \<and> rv_amount q = 1000 \<and>
             (i + 1000 < 10 ^ 14 \<longrightarrow> rv_inflight q = Some (i + 1000))) \<and>
        v' = v(nonce_key demo_crypto demo_payTo [1] \<mapsto>
                 (RString ''1'', Some (0 + millis (nonce_ttl demo_cfg 0 (50 * nsec)))),
               inflight_key demo_crypto demo_payTo \<mapsto>
                 (RString (int_str (i + 1000)), Some (0 + millis (inflight_ttl demo_cfg)))))"
  by (rule reserve_decides [OF mem_keys])
    (simp_all add: empty_mem_view counter_ok_def MaxExact_def demo_cfg_ttl)

text \<open>
  A signature is accepted once.  After an acceptance, whatever calls, lost answers,
  retries and other steps follow, a second reserve of the same payer and nonce that comes
  while the signature still lives by its caller's clock is never accepted, as long as the
  callers' clocks and the server's differ by less than the nonce margin in sum.
\<close>

theorem signature_accepted_once:
  assumes "key_laws R" "ledger_run C R c t0 s es s'"
    and "es = pre @ (t1, Reserved f1 clock1 p n a1 b1 x (Inr (OutOK, q1))) #
             mid @ (t2, Reserved f2 clock2 p n a2 b2 x2 r2) # post"
    and "is_int64 (x - clock1)" "is_int64 (x - clock1 + nonce_margin c)"
    and "\<bar>clock1 - t1 * msec\<bar> \<le> d1" "\<bar>clock2 - t2 * msec\<bar> \<le> d2" "d1 + d2 + msec \<le> nonce_margin c"
    and "clock1 < x" "clock2 < x"
  shows "\<not> accepted r2"
proof
  assume "accepted r2"
  then obtain q2 where "r2 = Inr (OutOK, q2)" by (auto simp: accepted_iff)
  with assms(2,3) obtain t s1 where "ledger_run C R c t s1
      ((t1, Reserved f1 clock1 p n a1 b1 x (Inr (OutOK, q1))) #
       mid @ (t2, Reserved f2 clock2 p n a2 b2 x2 (Inr (OutOK, q2))) # post) s'"
    by (metis ledger.run_drop)
  then have "t1 + millis (nonce_ttl c clock1 x) \<le> t2" by (rule accepted_twice_apart [OF assms(1)])
  then have "(t1 + millis (nonce_ttl c clock1 x)) * msec \<le> t2 * msec" by simp
  moreover have "nonce_ttl c clock1 x < (millis (nonce_ttl c clock1 x) + 1) * msec"
    by (rule millis_lower) (simp add: nonce_ttl_def)
  moreover have "x - clock1 + nonce_margin c \<le> nonce_ttl c clock1 x"
    by (rule nonce_ttl_lower [OF assms(4,5)])
  ultimately have "t1 * msec + (x - clock1) + nonce_margin c < t2 * msec + msec"
    by (simp add: algebra_simps)
  with assms(6-10) show False by linarith
qed


lemma demo_accept:
  obtains s1 q1 where "reserve demo_crypto mem_redis demo_cfg Answered 0 0 demo_payTo [1] 1000 2000 (50 * nsec)
      empty_mem = (s1, Inr (OutOK, Some q1))"
    "counter_ok (rd_view mem_redis s1 0) (inflight_key demo_crypto demo_payTo)"
    "inflight_of (rd_view mem_redis s1 0) (inflight_key demo_crypto demo_payTo) = 1000"
    "\<And>n. n \<noteq> [1] \<Longrightarrow> rd_view mem_redis s1 0 (nonce_key demo_crypto demo_payTo n) = None"
proof (rule reserve_accepts [OF mem_keys])
  show "counter_ok (rd_view mem_redis empty_mem 0) (inflight_key demo_crypto demo_payTo)"
    by (simp add: empty_mem_view counter_ok_def)
  fix s1 q assume a: "reserve demo_crypto mem_redis demo_cfg Answered 0 0 demo_payTo [1] 1000 2000 (50 * nsec)
      empty_mem = (s1, Inr (OutOK, Some q))"
    "rd_view mem_redis s1 0 = (rd_view mem_redis empty_mem 0)
       (nonce_key demo_crypto demo_payTo [1] \<mapsto> (RString ''1'', Some (0 + millis (nonce_ttl demo_cfg 0 (50 * nsec)))),
        inflight_key demo_crypto demo_payTo \<mapsto>
          (RString (int_str (inflight_of (rd_view mem_redis empty_mem 0) (inflight_key demo_crypto demo_payTo) + 1000)),
           Some (0 + millis (inflight_ttl demo_cfg))))"
    "counter_ok (rd_view mem_redis s1 0) (inflight_key demo_crypto demo_payTo)"
    "inflight_of (rd_view mem_redis s1 0) (inflight_key demo_crypto demo_payTo) =
       inflight_of (rd_view mem_redis empty_mem 0) (inflight_key demo_crypto demo_payTo) + 1000"
  show thesis
    by (rule that [OF a(1,3)]) (use a(2,4) in \<open>simp_all add: empty_mem_view inflight_of_def nonce_key_inject\<close>)
qed (simp_all add: empty_mem_view demo_cfg_ttl MaxExact_def inflight_of_def)

theorem signature_accepted_once_witness:
  "\<exists>s1 q1 s2 r2.
     reserve demo_crypto mem_redis demo_cfg Answered 0 0 demo_payTo [1] 1000 2000 (50 * nsec) empty_mem
       = (s1, Inr (OutOK, Some q1)) \<and>
     reserve demo_crypto mem_redis demo_cfg Answered (10 * msec) 10 demo_payTo [1] 1000 2000 (50 * nsec) s1
       = (s2, r2) \<and> \<not> accepted r2"
proof -
  obtain s1 q1 where a: "reserve demo_crypto mem_redis demo_cfg Answered 0 0 demo_payTo [1] 1000 2000 (50 * nsec)
      empty_mem = (s1, Inr (OutOK, Some q1))" by (rule demo_accept)
  obtain s2 r2 where b: "reserve demo_crypto mem_redis demo_cfg Answered (10 * msec) 10 demo_payTo [1] 1000 2000
      (50 * nsec) s1 = (s2, r2)" by (cases "reserve demo_crypto mem_redis demo_cfg Answered (10 * msec) 10 demo_payTo [1] 1000 2000
      (50 * nsec) s1")
  have run: "ledger_run demo_crypto mem_redis demo_cfg 0 empty_mem
      ([] @ (0, Reserved Answered 0 demo_payTo [1] 1000 2000 (50 * nsec) (Inr (OutOK, Some q1))) #
       [] @ (10, Reserved Answered (10 * msec) demo_payTo [1] 1000 2000 (50 * nsec) r2) # []) s2"
    unfolding append_Nil
    by (rule run_cons [OF order_refl step_reserve [OF a] run_cons [OF _ step_reserve [OF b] run_nil]]) simp
  have "\<not> accepted r2"
    by (rule signature_accepted_once [OF mem_keys run refl, where ?d1.0 = 0 and ?d2.0 = 0])
      (simp_all add: is_int64_def demo_cfg_def nonce_margin_def DefaultNonceMargin_def)
  with a b show ?thesis by blast
qed

text \<open>
  C17: concurrent requests cannot overdraw a balance while the payer's in-flight key lives and
  no release runs twice.  Over any interleaving, of any length, of reserves, releases, lost
  answers, retried reserves and other steps, each of which comes before the key's time to live
  has passed since the payer's last accepted payment, what the payer's accepted and unreleased
  payments add up to exceeds the largest balance a reserve was given by no more than what
  releases that the client's retry ran twice took off the sum again.
\<close>

theorem concurrent_requests_cannot_overdraw:
  assumes "key_laws R" "msec \<le> inflight_ttl c" "ledger_run C R c t0 s es s'"
    and "counter_ok (rd_view R s t0) (inflight_key C p)"
    and "\<forall>(t, e) \<in> set es. ledger_event_ok p B e" "kept_alive c p None es"
  shows "held p es \<le> max 0 B + released_twice p es"
  using ledger_run_covers [OF assms(1-3,5,6), of 0] assms(4) by (simp add: covers_nothing)

theorem concurrent_requests_cannot_overdraw_witness:
  "\<exists>s1 q1. reserve demo_crypto mem_redis demo_cfg Answered 0 0 demo_payTo [1] 1000 2000 (50 * nsec) empty_mem
       = (s1, Inr (OutOK, Some q1)) \<and>
     held demo_payTo [(0, Reserved Answered 0 demo_payTo [1] 1000 2000 (50 * nsec) (Inr (OutOK, Some q1))),
       (29999, Elsewhere)] \<le> 2000"
proof -
  obtain s1 q1 where a: "reserve demo_crypto mem_redis demo_cfg Answered 0 0 demo_payTo [1] 1000 2000 (50 * nsec)
      empty_mem = (s1, Inr (OutOK, Some q1))" by (rule demo_accept)
  let ?es = "[(0, Reserved Answered 0 demo_payTo [1] 1000 2000 (50 * nsec) (Inr (OutOK, Some q1))), (29999, Elsewhere)]"
  have "ledger_step demo_crypto mem_redis demo_cfg 29999 s1 Elsewhere s1" by (rule step_elsewhere) simp
  then have run: "ledger_run demo_crypto mem_redis demo_cfg 0 empty_mem ?es s1"
    by (intro run_cons [OF _ step_reserve [OF a]] run_cons [OF _ _ run_nil]) simp_all
  have "held demo_payTo ?es \<le> max 0 2000 + released_twice demo_payTo ?es"
    by (rule concurrent_requests_cannot_overdraw [OF mem_keys demo_cfg_ttl run])
      (simp_all add: empty_mem_view counter_ok_def ledger_event_ok_def demo_cfg_def inflight_ttl_def
        DefaultInflightTTL_def millis_def)
  with a show ?thesis by simp
qed

lemma release_twice_demo:
  assumes "counter_ok (rd_view mem_redis s 0) k" "rd_view mem_redis s 0 k = Some (RString (int_str 2000), Some ttl)"
    and "k = inflight_key demo_crypto demo_payTo"
  obtains s' where "release demo_crypto mem_redis RunTwice 0 demo_payTo 1000 s = (s', True)"
    "rd_view mem_redis s' 0 k = None" "\<And>k'. k' \<noteq> k \<Longrightarrow> rd_view mem_redis s' 0 k' = rd_view mem_redis s 0 k'"
proof -
  have i: "inflight_of (rd_view mem_redis s 0) k = 2000"
    using assms(2) by (simp add: inflight_of_def parse_int64_int_str is_int64_def)
  have "(0::int) < 1000" "1000 \<le> MaxExact" by (simp_all add: MaxExact_def)
  note rel = release_script_spec [OF mem_keys refl _ this]
  obtain s3 r3 where 3: "release_script mem_redis 0 k (int_str 1000) s = (s3, Inr r3)"
    "rd_view mem_redis s3 0 = release_view (rd_view mem_redis s 0) k 1000" by (rule rel [OF assms(1)])
  have v3: "rd_view mem_redis s3 0 k = Some (RString (int_str 1000), Some ttl)"
    using 3(2) i assms(2) by (simp add: release_view_def)
  have i3: "counter_ok (rd_view mem_redis s3 0) k" "inflight_of (rd_view mem_redis s3 0) k = 1000"
    using v3 by (auto simp: counter_ok_def MaxExact_def inflight_of_def parse_int64_int_str is_int64_def)
  obtain s4 r4 where 4: "release_script mem_redis 0 k (int_str 1000) s3 = (s4, Inr r4)"
    "rd_view mem_redis s4 0 = release_view (rd_view mem_redis s3 0) k 1000" by (rule rel [OF i3(1)])
  show thesis
  proof (rule that)
    show "release demo_crypto mem_redis RunTwice 0 demo_payTo 1000 s = (s4, True)"
      using 3 4 assms(3) by (simp add: release_def)
  qed (use 3(2) 4(2) i i3(2) in \<open>simp_all add: release_view_def\<close>)
qed

text \<open>
  C19: the term for releases that ran twice is real: a release whose answer was lost and that
  the client's retry ran again takes the amount off twice, and a payer with a balance of 2000
  then holds accepted payments of 3000.
\<close>

theorem retried_release_overdraws:
  "\<exists>q1 q2 q5 s' es.
     es = [(0, Reserved Answered 0 demo_payTo [1] 1000 2000 (50 * nsec) (Inr (OutOK, Some q1))),
           (0, Reserved Answered 0 demo_payTo [2] 1000 2000 (50 * nsec) (Inr (OutOK, Some q2))),
           (0, Released RunTwice demo_payTo 1000 True),
           (0, Reserved Answered 0 demo_payTo [3] 2000 2000 (50 * nsec) (Inr (OutOK, Some q5)))] \<and>
     ledger_run demo_crypto mem_redis demo_cfg 0 empty_mem es s' \<and> held demo_payTo es = 3000"
proof -
  let ?C = demo_crypto and ?p = demo_payTo
  let ?k = "inflight_key ?C ?p"
  obtain s1 q1 where 1: "reserve ?C mem_redis demo_cfg Answered 0 0 ?p [1] 1000 2000 (50 * nsec)
      empty_mem = (s1, Inr (OutOK, Some q1))" and c1: "counter_ok (rd_view mem_redis s1 0) ?k"
    "inflight_of (rd_view mem_redis s1 0) ?k = 1000"
    and n1: "\<And>n. n \<noteq> [1] \<Longrightarrow> rd_view mem_redis s1 0 (nonce_key ?C ?p n) = None"
    by (rule demo_accept) blast
  obtain s2 q2 where 2: "reserve ?C mem_redis demo_cfg Answered 0 0 ?p [2] 1000 2000 (50 * nsec) s1
      = (s2, Inr (OutOK, Some q2))" and v2: "rd_view mem_redis s2 0 = (rd_view mem_redis s1 0)
       (nonce_key ?C ?p [2] \<mapsto> (RString ''1'', Some (0 + millis (nonce_ttl demo_cfg 0 (50 * nsec)))),
        ?k \<mapsto> (RString (int_str (inflight_of (rd_view mem_redis s1 0) ?k + 1000)),
          Some (0 + millis (inflight_ttl demo_cfg))))"
    and c2: "counter_ok (rd_view mem_redis s2 0) ?k"
    "inflight_of (rd_view mem_redis s2 0) ?k = inflight_of (rd_view mem_redis s1 0) ?k + 1000"
    by (rule reserve_accepts [OF mem_keys c1(1), where c = demo_cfg and a = 1000 and b = 2000 and n = "[2]"
          and clock = 0 and x = "50 * nsec"])
      (simp_all add: c1 n1 demo_cfg_ttl MaxExact_def)
  have "rd_view mem_redis s2 0 ?k = Some (RString (int_str 2000), Some (millis (inflight_ttl demo_cfg)))"
    using c1(2) v2 by simp
  then obtain s4 where rls: "release ?C mem_redis RunTwice 0 ?p 1000 s2 = (s4, True)"
    and v4: "rd_view mem_redis s4 0 ?k = None"
    and o4: "\<And>k. k \<noteq> ?k \<Longrightarrow> rd_view mem_redis s4 0 k = rd_view mem_redis s2 0 k"
    by (rule release_twice_demo [OF c2(1)]) blast+
  have n4: "rd_view mem_redis s4 0 (nonce_key ?C ?p [3]) = None"
    using o4 v2 n1 by (simp add: nonce_key_inject)
  obtain s5 q5 where 5: "reserve ?C mem_redis demo_cfg Answered 0 0 ?p [3] 2000 2000 (50 * nsec) s4
      = (s5, Inr (OutOK, Some q5))"
    by (rule reserve_accepts [OF mem_keys, where s = s4 and C = ?C and p = ?p and c = demo_cfg and a = 2000
          and b = 2000 and n = "[3]" and clock = 0 and x = "50 * nsec" and t = 0])
      (simp_all add: v4 n4 counter_ok_def inflight_of_def demo_cfg_ttl MaxExact_def)
  show ?thesis
  proof (intro exI conjI, rule refl)
    show "ledger_run ?C mem_redis demo_cfg 0 empty_mem
       [(0, Reserved Answered 0 ?p [1] 1000 2000 (50 * nsec) (Inr (OutOK, Some q1))),
        (0, Reserved Answered 0 ?p [2] 1000 2000 (50 * nsec) (Inr (OutOK, Some q2))),
        (0, Released RunTwice ?p 1000 True),
        (0, Reserved Answered 0 ?p [3] 2000 2000 (50 * nsec) (Inr (OutOK, Some q5)))] s5"
      by (intro run_cons [OF order_refl step_reserve [OF 1]] run_cons [OF order_refl step_reserve [OF 2]]
          run_cons [OF order_refl step_release [OF rls]] run_cons [OF order_refl step_reserve [OF 5]] run_nil)
  qed simp_all
qed

text \<open>
  A job survives the stream: what \<open>Capture\<close> writes, the settler's \<open>ParseJob\<close> reads
  back, with the served time to the millisecond.
\<close>

theorem job_roundtrip:
  assumes "is_int64 (jb_validBefore j)" "is_int64 (unix_milli (jb_servedAt j))"
    and "ok_requirements (jb_requirements j)"
    and "jb_paymentId j \<noteq> []" "jb_payer j \<noteq> []" "jb_payment j \<noteq> []"
  shows "parse_job (job_fields j) = Inr (j\<lparr>jb_servedAt := unix_milli (jb_servedAt j) * msec\<rparr>)"
  using assms by (rule parse_job_fields)

definition demo_job :: job where
  "demo_job =
     \<lparr>jb_paymentId = ''0x01'', jb_payer = ''0x02'', jb_route = ''httproute/a/b'', jb_amount = ''1000'',
      jb_network = ''eip155:72344'', jb_validBefore = 1000, jb_payment = ''eyJ9'',
      jb_requirements = zero_requirements, jb_servedAt = 900 * nsec\<rparr>"

theorem job_roundtrip_witness:
  "parse_job (job_fields demo_job) = Inr (demo_job\<lparr>jb_servedAt := unix_milli (jb_servedAt demo_job) * msec\<rparr>)"
  by (rule job_roundtrip) (simp_all add: demo_job_def is_int64_def unix_milli_def ok_requirements_def
      zero_requirements_def ascii_def)

text \<open>
  Lua prints a sum of 10^14 or more with an exponent, which \<open>Reserve\<close> cannot parse: the
  reservation it returns has no in-flight value.
\<close>

theorem large_inflight_is_lost:
  "\<exists>s' q. reserve demo_crypto mem_redis demo_cfg Answered 0 0 demo_payTo [1] (10 ^ 14) MaxExact (50 * nsec)
      empty_mem = (s', Inr (OutOK, Some q)) \<and> rv_inflight q = None"
proof -
  have g: "lua_tostring (10 ^ 14) = ''1e+14''"
    by (simp add: lua_tostring_def g14_def nat_str.simps digit_char_def round_even_def Let_def trim_right_def)
  have ok: "counter_ok (rd_view mem_redis empty_mem 0) (inflight_key demo_crypto demo_payTo)"
    by (simp add: empty_mem_view counter_ok_def)
  have a: "(0::int) < 10 ^ 14" "10 ^ 14 \<le> MaxExact" by (simp_all add: MaxExact_def)
  obtain s' where "reserve demo_crypto mem_redis demo_cfg Answered 0 0 demo_payTo [1] (10 ^ 14) MaxExact (50 * nsec)
      empty_mem = (s', Inr (reserve_result demo_payTo [1] (10 ^ 14)
        (inflight_of (rd_view mem_redis empty_mem 0) (inflight_key demo_crypto demo_payTo))
        (reserve_code (rd_view mem_redis empty_mem 0) (nonce_key demo_crypto demo_payTo [1])
           (inflight_key demo_crypto demo_payTo) (10 ^ 14) (clamp_balance MaxExact))))"
    by (rule reserve_answered [OF mem_keys ok a demo_cfg_ttl])
  moreover have "big_set_string ''1e+14'' = None"
    by (simp add: big_set_string_def signed_dec_def all_digits_def is_digit_def)
  ultimately show ?thesis
    using g by (simp add: empty_mem_view inflight_of_def reserve_code_def clamp_balance_def MaxExact_def
        reserve_result_def)
qed

text \<open>A reserve that the client's retry runs again, from a ledger that accepts it\<close>

lemma reserve_run_twice:
  assumes R: "key_laws R" and ok: "counter_ok (rd_view R s t) (inflight_key C p)"
    and a: "0 < a" "a \<le> MaxExact" and cfg: "msec \<le> inflight_ttl c"
    and free: "rd_view R s t (nonce_key C p n) = None"
    and b: "inflight_of (rd_view R s t) (inflight_key C p) + a \<le> min b MaxExact"
  obtains s' where "reserve C R c RunTwice clock t p n a b x s = (s', Inr (OutReplay, None))"
    "rd_view R s' t (nonce_key C p n) \<noteq> None"
    "inflight_of (rd_view R s' t) (inflight_key C p) = inflight_of (rd_view R s t) (inflight_key C p) + a"
proof -
  let ?k1 = "nonce_key C p n" and ?k2 = "inflight_key C p"
  let ?f = "reserve_script R t ?k1 ?k2 (int_str a) (int_str (clamp_balance b))
      (millis (nonce_ttl c clock x)) (millis (inflight_ttl c))"
  let ?i = "inflight_of (rd_view R s t) ?k2"
  have cl: "clamp_balance b = min b MaxExact" by (simp add: clamp_balance_def min_def)
  have bm: "clamp_balance b \<le> MaxExact" by (simp add: cl)
  have pos: "0 \<le> ?i" using inflight_bounds [OF ok] by simp
  have code: "reserve_code (rd_view R s t) ?k1 ?k2 a (clamp_balance b) = 0"
    using free b unfolding cl reserve_code_def by (simp add: min_def split: if_splits)
  note spec = reserve_script_spec [OF R refl _ keys_apart(1) a bm nonce_ttl_pos millis_pos [OF cfg]]
  obtain s1 str where s1: "?f s = (s1, Inr (0, str))"
    "rd_view R s1 t = reserve_view (rd_view R s t) t ?k1 ?k2 a (clamp_balance b)
       (millis (nonce_ttl c clock x)) (millis (inflight_ttl c))"
    using spec [OF ok] code by metis
  have r: "0 < ?i + a" "?i + a \<le> MaxExact" using pos a b by auto
  have v1: "rd_view R s1 t ?k1 \<noteq> None" "inflight_of (rd_view R s1 t) ?k2 = ?i + a" "counter_ok (rd_view R s1 t) ?k2"
    using s1(2) code r
    by (auto simp: reserve_view_def inflight_of_def parse_int64_int_str exact_int64 counter_ok_def)
  have code1: "reserve_code (rd_view R s1 t) ?k1 ?k2 a (clamp_balance b) = 1"
    using v1(1) by (simp add: reserve_code_def)
  obtain s2 str2 where s2: "?f s1 = (s2, Inr (1, str2))" "rd_view R s2 t = rd_view R s1 t"
    using spec [OF v1(3)] code1 by (metis reserve_view_def zero_neq_one)
  have "reserve C R c RunTwice clock t p n a b x s = (s2, Inr (OutReplay, None))"
    using a s1(1) s2(1) by (simp add: reserve_def)
  from that [OF this] show thesis using v1 s2(2) by simp
qed

text \<open>
  A retry of the client turns a fresh payment into a replay.  When the answer of an
  accepted reserve is lost and the client runs the call again, the nonce it finds is its
  own: the payment is refused as already used, with nothing served, and its amount stays in
  flight.
\<close>

theorem retried_reserve_is_a_replay:
  assumes "key_laws R" "counter_ok (rd_view R s t) (inflight_key C p)"
    and "0 < a" "a \<le> MaxExact" "msec \<le> inflight_ttl c"
    and "rd_view R s t (nonce_key C p n) = None"
    and "inflight_of (rd_view R s t) (inflight_key C p) + a \<le> min b MaxExact"
  shows "\<exists>s'. reserve C R c RunTwice clock t p n a b x s = (s', Inr (OutReplay, None)) \<and>
    rd_view R s' t (nonce_key C p n) \<noteq> None \<and>
    inflight_of (rd_view R s' t) (inflight_key C p) = inflight_of (rd_view R s t) (inflight_key C p) + a"
  by (rule reserve_run_twice [OF assms]) blast

theorem retried_reserve_is_a_replay_witness:
  "\<exists>s'. reserve demo_crypto mem_redis demo_cfg RunTwice 0 0 demo_payTo [1] 1000 2000 (50 * nsec) empty_mem
      = (s', Inr (OutReplay, None)) \<and>
    rd_view mem_redis s' 0 (nonce_key demo_crypto demo_payTo [1]) \<noteq> None \<and>
    inflight_of (rd_view mem_redis s' 0) (inflight_key demo_crypto demo_payTo) =
      inflight_of (rd_view mem_redis empty_mem 0) (inflight_key demo_crypto demo_payTo) + 1000"
  by (rule retried_reserve_is_a_replay [OF mem_keys])
    (simp_all add: empty_mem_view counter_ok_def MaxExact_def demo_cfg_ttl inflight_of_def)

end
