(* ===== verification/Facilitator.thy ===== *)
theory Facilitator
  imports X402_Codec Radius "HOL-Library.AList"
begin

text \<open>
  The HTTP client of an x402 facilitator (\<open>internal/facilitator/client.go\<close>): \<open>/verify\<close>, \<open>/settle\<close> and
  \<open>/supported\<close>.  The exchange, with the path and body of the request, is an argument.  A value that
  does not decode is its zero value here; the callers read it only when no error came with it, or
  for a log line.
\<close>

section \<open>The exchange\<close>

type_synonym fac_http = "string \<Rightarrow> string \<Rightarrow> (http_error, int \<times> string) result"

datatype fac_error = FacTransport http_error | FacStatus int string | FacBody int

text \<open>\<open>Status.Definite\<close>: refused for good, as opposed to not processed.\<close>

fun definite :: "fac_error \<Rightarrow> bool" where
  "definite (FacStatus status body) \<longleftrightarrow> 400 \<le> status \<and> status < 500"
| "definite _ \<longleftrightarrow> False"

fun_cases definite_cases: "definite e"

definition body_limit :: nat where
  "body_limit = 2 ^ 20"

definition fac_post :: "fac_http \<Rightarrow> string \<Rightarrow> json \<Rightarrow> (json \<Rightarrow> 'a option) \<Rightarrow> 'a \<Rightarrow> 'a \<times> fac_error option" where
  "fac_post http path body dec zero =
     (case http path (print_json body) of
        Inl e \<Rightarrow> (zero, Some (FacTransport e))
      | Inr (status, full) \<Rightarrow>
          let raw = take body_limit full; out = Option.bind (parse_json raw) dec
          in (case out of None \<Rightarrow> zero | Some x \<Rightarrow> x,
              if status < 200 \<or> 299 < status \<or> out = None then Some (FacStatus status (trim_space raw)) else None))"

section \<open>Settle and Verify\<close>

definition zero_settle :: settle_response where
  "zero_settle = settle_response.truncate zero_settle_aux"

definition fac_settle :: "fac_http \<Rightarrow> payment_payload \<Rightarrow> requirements \<Rightarrow> settle_response \<times> fac_error option" where
  "fac_settle http pp req =
     fac_post http ''/settle'' (enc_facilitator_request x402_version pp req) dec_settle_response zero_settle"

record verify_response =
  vr_isValid :: bool
  vr_invalidReason :: string
  vr_payer :: string
  vr_extensions :: "(string \<times> json) list"
  vr_extra :: "(string \<times> json) list"

definition zero_verify_response :: verify_response where
  "zero_verify_response =
     \<lparr>vr_isValid = False, vr_invalidReason = [], vr_payer = [], vr_extensions = [], vr_extra = []\<rparr>"

definition verify_response_names :: "string list" where
  "verify_response_names = [''isValid'', ''invalidReason'', ''payer'', ''extensions'', ''extra'']"

definition set_verify_response :: "string \<Rightarrow> json \<Rightarrow> verify_response \<Rightarrow> verify_response option" where
  "set_verify_response f v r =
     (if f = ''isValid'' then map_option (\<lambda>b. r\<lparr>vr_isValid := b\<rparr>) (dec_bool (vr_isValid r) v)
      else if f = ''invalidReason''
        then map_option (\<lambda>s. r\<lparr>vr_invalidReason := s\<rparr>) (dec_str (vr_invalidReason r) v)
      else if f = ''payer'' then map_option (\<lambda>s. r\<lparr>vr_payer := s\<rparr>) (dec_str (vr_payer r) v)
      else if f = ''extensions''
        then map_option (\<lambda>x. r\<lparr>vr_extensions := x\<rparr>) (dec_map (vr_extensions r) v)
      else map_option (\<lambda>x. r\<lparr>vr_extra := x\<rparr>) (dec_map (vr_extra r) v))"

definition fac_verify :: "fac_http \<Rightarrow> payment_payload \<Rightarrow> requirements \<Rightarrow> verify_response \<times> fac_error option" where
  "fac_verify http pp req =
     fac_post http ''/verify'' (enc_facilitator_request x402_version pp req)
       (dec_struct verify_response_names set_verify_response zero_verify_response) zero_verify_response"

section \<open>Supported\<close>

record kind =
  kd_version :: int
  kd_scheme :: string
  kd_network :: string
  kd_asset :: string
  kd_extra :: "exact_extra option"

record supported =
  su_kinds :: "kind list"
  su_extensions :: "string list"
  su_signers :: "(string \<times> string list) list"

definition zero_kind :: kind where
  "zero_kind = \<lparr>kd_version = 0, kd_scheme = [], kd_network = [], kd_asset = [], kd_extra = None\<rparr>"

definition zero_supported :: supported where
  "zero_supported = \<lparr>su_kinds = [], su_extensions = [], su_signers = []\<rparr>"

definition set_kind :: "string \<Rightarrow> json \<Rightarrow> kind \<Rightarrow> kind option" where
  "set_kind f v k =
     (if f = ''x402Version'' then map_option (\<lambda>n. k\<lparr>kd_version := n\<rparr>) (dec_int (kd_version k) v)
      else if f = ''scheme'' then map_option (\<lambda>s. k\<lparr>kd_scheme := s\<rparr>) (dec_str (kd_scheme k) v)
      else if f = ''network'' then map_option (\<lambda>s. k\<lparr>kd_network := s\<rparr>) (dec_str (kd_network k) v)
      else if f = ''asset'' then map_option (\<lambda>s. k\<lparr>kd_asset := s\<rparr>) (dec_str (kd_asset k) v)
      else map_option (\<lambda>e. k\<lparr>kd_extra := e\<rparr>) (dec_ptr dec_extra zero_extra (kd_extra k) v))"

definition dec_kind :: "kind \<Rightarrow> json \<Rightarrow> kind option" where
  "dec_kind = dec_struct [''x402Version'', ''scheme'', ''network'', ''asset'', ''extra''] set_kind"

text \<open>\<open>map[string][]string\<close>: a later member of the same name replaces the value.\<close>

fun dec_signers :: "(string \<times> string list) list \<Rightarrow> (string \<times> json) list \<Rightarrow> (string \<times> string list) list option" where
  "dec_signers cur [] = Some cur"
| "dec_signers cur ((k, v) # ms) =
     Option.bind (dec_list dec_str [] v) (\<lambda>ss. dec_signers (AList.update k ss cur) ms)"

definition set_supported :: "string \<Rightarrow> json \<Rightarrow> supported \<Rightarrow> supported option" where
  "set_supported f v s =
     (if f = ''kinds'' then map_option (\<lambda>x. s\<lparr>su_kinds := x\<rparr>) (dec_list dec_kind zero_kind v)
      else if f = ''extensions'' then map_option (\<lambda>x. s\<lparr>su_extensions := x\<rparr>) (dec_list dec_str [] v)
      else (case v of
              JNull \<Rightarrow> Some (s\<lparr>su_signers := []\<rparr>)
            | JObj ms \<Rightarrow> map_option (\<lambda>x. s\<lparr>su_signers := x\<rparr>) (dec_signers (su_signers s) ms)
            | _ \<Rightarrow> None))"

text \<open>\<open>GET /supported\<close>: the first value of the body, whatever the status.\<close>

definition fac_supported :: "(http_error, int \<times> string) result \<Rightarrow> (fac_error, supported) result" where
  "fac_supported answer =
     (case answer of
        Inl e \<Rightarrow> Inl (FacTransport e)
      | Inr (status, body) \<Rightarrow>
          or_err (FacBody status)
            (Option.bind (decode_stream body)
               (dec_struct [''kinds'', ''extensions'', ''signers''] set_supported zero_supported)))"

section \<open>Lemmas\<close>

text \<open>No error means a 2xx whose body is the value.\<close>

lemma fac_post_ok:
  assumes "fac_post http path body dec zero = (out, None)"
  obtains status full where "http path (print_json body) = Inr (status, full)" "200 \<le> status" "status \<le> 299"
    "Option.bind (parse_json (take body_limit full)) dec = Some out"
  using assms by (auto simp: fac_post_def Let_def split: sum.splits option.splits if_splits)

text \<open>A definite error is a 4xx answer.\<close>

lemma fac_post_definite:
  assumes "fac_post http path body dec zero = (out, Some e)" "definite e"
  obtains status full where "http path (print_json body) = Inr (status, full)" "400 \<le> status" "status < 500"
    "e = FacStatus status (trim_space (take body_limit full))"
  using assms by (auto simp: fac_post_def Let_def split: sum.splits option.splits if_splits)

section \<open>A facilitator that agrees\<close>

definition demo_settle_http :: fac_http where
  "demo_settle_http path body =
     Inr (200, print_json (if path = ''/verify'' then JObj [(''isValid'', JBool True)]
                           else JObj [(''success'', JBool True)]))"

lemma demo_settle_answers:
  "\<exists>vr. fac_verify demo_settle_http pp req = (vr, None) \<and> vr_isValid vr"
  "\<exists>sr. fac_settle demo_settle_http pp req = (sr, None) \<and> sr_success sr"
proof -
  have p: "parse_json (take body_limit (print_json (JObj [(k, JBool True)]))) = Some (JObj [(k, JBool True)])"
    if "k \<in> {''isValid'', ''success''}" for k
  proof -
    have w: "wf_json (JObj [(k, JBool True)])" using that by (auto simp: ascii_code)
    have "length (print_json (JObj [(k, JBool True)])) \<le> body_limit"
    proof -
      have "length (print_str ''isValid'') = 9" "length (print_str ''success'') = 9" by code_simp+
      with that show ?thesis by (auto simp: body_limit_def)
    qed
    then show ?thesis using parse_print_json [OF w] by (simp only: take_all)
  qed
  show "\<exists>vr. fac_verify demo_settle_http pp req = (vr, None) \<and> vr_isValid vr"
    by (simp add: fac_verify_def fac_post_def demo_settle_http_def Let_def p verify_response_names_def
        set_verify_response_def field_of_def del: print_json.simps)
  show "\<exists>sr. fac_settle demo_settle_http pp req = (sr, None) \<and> sr_success sr"
    by (simp add: fac_settle_def fac_post_def demo_settle_http_def Let_def p dec_settle_response_def settle_names_def
        set_settle_def field_of_def settle_response.defs zero_settle_aux_def del: print_json.simps)
qed

end
