(* ===== verification/Settle.thy ===== *)
theory Settle
  imports Reserve Facilitator "HOL-Library.AList"
begin

text \<open>
  The settler (\<open>internal/settle/settle.go\<close>): one consumer of the capture stream.  A handling of
  one job takes the stream entry to an end (\<open>verdict\<close>) and changes Redis: the dead-letter
  stream, the payer's in-flight sum, the entry's acknowledgement.  What the world answers
  while a job is handled is a \<open>handling\<close> record: the clock, the fate of each Redis call, the
  facilitators and the nodes by network, and the text of the error that a dead-letter reason quotes.  \<open>step\<close>, \<open>claim\<close> and \<open>run\<close> are recursions over the
  list of such records, so a list that ends is a settler that was stopped there.
\<close>

section \<open>Settings\<close>

definition DefaultGroup :: string where "DefaultGroup = ''settlers''"
definition DefaultBlock :: int where "DefaultBlock = 5 * nsec"
definition DefaultCount :: int where "DefaultCount = 10"
definition DefaultClaimEvery :: int where "DefaultClaimEvery = 30 * nsec"
definition DefaultMinIdle :: int where "DefaultMinIdle = 60 * nsec"
definition DefaultMaxDeliveries :: int where "DefaultMaxDeliveries = 5"
definition DefaultSettleTimeout :: int where "DefaultSettleTimeout = 5 * nsec"
definition DeadStream :: string where "DeadStream = SettleStream @ '':dead''"

datatype settle_outcome =
    Settled
  | SettledOnChain
  | SettleFailed
  | SettleUncertain
  | ExpiredUnsettled
  | DeadLettered
  | Claimed

fun settle_outcome_str :: "settle_outcome \<Rightarrow> string" where
  "settle_outcome_str Settled = ''settled''"
| "settle_outcome_str SettledOnChain = ''settled_on_chain''"
| "settle_outcome_str SettleFailed = ''settle_failed''"
| "settle_outcome_str SettleUncertain = ''settle_uncertain''"
| "settle_outcome_str ExpiredUnsettled = ''expired_unsettled''"
| "settle_outcome_str DeadLettered = ''dead_lettered''"
| "settle_outcome_str Claimed = ''claimed''"

text \<open>The networks with a client stand for the two maps of clients.\<close>

record settler =
  sl_facilitators :: "string list"
  sl_rpcs :: "string list"
  sl_group :: string
  sl_block :: int
  sl_count :: int
  sl_claimEvery :: int
  sl_minIdle :: int
  sl_maxDeliveries :: int
  sl_settleTimeout :: int

definition group_of :: "settler \<Rightarrow> string" where
  "group_of S = (if sl_group S \<noteq> [] then sl_group S else DefaultGroup)"

definition block_of :: "settler \<Rightarrow> int" where
  "block_of S = (if 0 < sl_block S then sl_block S else DefaultBlock)"

definition count_of :: "settler \<Rightarrow> int" where
  "count_of S = (if 0 < sl_count S then sl_count S else DefaultCount)"

definition claim_every :: "settler \<Rightarrow> int" where
  "claim_every S = (if 0 < sl_claimEvery S then sl_claimEvery S else DefaultClaimEvery)"

definition min_idle :: "settler \<Rightarrow> int" where
  "min_idle S = (if 0 < sl_minIdle S then sl_minIdle S else DefaultMinIdle)"

definition max_deliveries :: "settler \<Rightarrow> int" where
  "max_deliveries S = (if 0 < sl_maxDeliveries S then sl_maxDeliveries S else DefaultMaxDeliveries)"

definition settle_timeout :: "settler \<Rightarrow> int" where
  "settle_timeout S = (if 0 < sl_settleTimeout S then sl_settleTimeout S else DefaultSettleTimeout)"

section \<open>The world while a job is handled\<close>

record handling =
  hw_clock :: int
  hw_dead_clock :: int
  hw_list_ms :: int
  hw_dead_ms :: int
  hw_release_ms :: int
  hw_ack_ms :: int
  hw_list_fault :: fault
  hw_dead_fault :: fault
  hw_release_fault :: fault
  hw_ack_fault :: fault
  hw_facilitator :: "string \<Rightarrow> fac_http"
  hw_rpc :: "string \<Rightarrow> http"
  hw_waited :: bool
  hw_err_text :: string

datatype verdict = Acked settle_outcome | Unacked settle_outcome | LeftPending

section \<open>The end of a job\<close>

text \<open>\<open>release\<close>: nothing without a job, or when its payer or amount do not parse.\<close>

definition settle_release ::
  "('pk, 'sk) crypto \<Rightarrow> 'r redis \<Rightarrow> handling \<Rightarrow> job option \<Rightarrow> 'r \<Rightarrow> 'r" where
  "settle_release C R w j s =
     (case j of
        None \<Rightarrow> s
      | Some j \<Rightarrow>
          (case (parse_address (jb_payer j), big_set_string (jb_amount j)) of
             (Inr payer, Some amount) \<Rightarrow> fst (release C R (hw_release_fault w) (hw_release_ms w) payer amount s)
           | _ \<Rightarrow> s))"

definition ack :: "'r redis \<Rightarrow> handling \<Rightarrow> nat \<Rightarrow> settle_outcome \<Rightarrow> 'r \<Rightarrow> 'r \<times> verdict" where
  "ack R w i out s =
     (case deliver (hw_ack_fault w) (\<lambda>s. (rd_xack R s (hw_ack_ms w) SettleStream i, ())) s of
        (s', Some _) \<Rightarrow> (s', Acked out)
      | (s', None) \<Rightarrow> (s', Unacked out))"

definition finish_job ::
  "('pk, 'sk) crypto \<Rightarrow> 'r redis \<Rightarrow> handling \<Rightarrow> nat \<Rightarrow> job \<Rightarrow> settle_outcome \<Rightarrow> 'r \<Rightarrow> 'r \<times> verdict" where
  "finish_job C R w i j out s = ack R w i out (settle_release C R w (Some j) s)"

text \<open>\<open>time.RFC3339\<close> of a time in UTC: the civil date of a day number, and padded fields.\<close>

definition civil_date :: "int \<Rightarrow> int \<times> int \<times> int" where
  "civil_date days =
     (let z = days + 719468; era = z div 146097; doe = z mod 146097;
          yoe = (doe - doe div 1460 + doe div 36524 - doe div 146096) div 365;
          doy = doe - (365 * yoe + yoe div 4 - yoe div 100);
          mp = (5 * doy + 2) div 153;
          m = (if mp < 10 then mp + 3 else mp - 9);
          y = yoe + era * 400
      in (if m \<le> 2 then y + 1 else y, m, doy - (153 * mp + 2) div 5 + 1))"

definition padded :: "nat \<Rightarrow> int \<Rightarrow> string" where
  "padded w n =
     (let d = nat_str (nat \<bar>n\<bar>) in (if n < 0 then ''-'' else []) @ replicate (w - length d) (CHR ''0'') @ d)"

definition rfc3339 :: "int \<Rightarrow> string" where
  "rfc3339 t =
     (let sec = unix t; r = sec mod 86400
      in case civil_date (sec div 86400) of
           (y, m, d) \<Rightarrow>
             padded 4 y @ ''-'' @ padded 2 m @ ''-'' @ padded 2 d @ ''T'' @ padded 2 (r div 3600) @ '':'' @
             padded 2 (r div 60 mod 60) @ '':'' @ padded 2 (r mod 60) @ ''Z'')"

definition dead_values :: "fields \<Rightarrow> string \<Rightarrow> settle_outcome \<Rightarrow> int \<Rightarrow> fields" where
  "dead_values vs why out t =
     AList.update ''deadAt'' (rfc3339 t)
       (AList.update ''outcome'' (settle_outcome_str out) (AList.update ''reason'' why vs))"

definition dead ::
  "('pk, 'sk) crypto \<Rightarrow> 'r redis \<Rightarrow> handling \<Rightarrow> nat \<times> fields \<Rightarrow> job option \<Rightarrow> settle_outcome \<Rightarrow> string
     \<Rightarrow> 'r \<Rightarrow> 'r \<times> verdict" where
  "dead C R w msg j out why s =
     (case deliver (hw_dead_fault w)
             (\<lambda>s. rd_xadd R s (hw_dead_ms w) DeadStream None (dead_values (snd msg) why out (hw_dead_clock w))) s of
        (s', None) \<Rightarrow> (s', LeftPending)
      | (s', Some _) \<Rightarrow> ack R w (fst msg) out (settle_release C R w j s'))"

section \<open>Handling one job\<close>

definition deliveries :: "'r redis \<Rightarrow> handling \<Rightarrow> nat \<Rightarrow> 'r \<Rightarrow> int" where
  "deliveries R w i s =
     (case snd (deliver (hw_list_fault w) (\<lambda>s. (s, rd_deliveries R s (hw_list_ms w) SettleStream i)) s) of
        Some (Some n) \<Rightarrow> int n
      | _ \<Rightarrow> 1)"

text \<open>\<open>usedOnChain\<close>: \<open>None\<close> is an error, of the payload or of the node.\<close>

definition used_on_chain :: "('pk, 'sk) crypto \<Rightarrow> http \<Rightarrow> payment_payload \<Rightarrow> bool option" where
  "used_on_chain C http pp =
     (case eip3009_of pp of
        Inl _ \<Rightarrow> None
      | Inr raw \<Rightarrow>
          (case parse_authorization (e_authorization raw) of
             Inl _ \<Rightarrow> None
           | Inr auth \<Rightarrow>
               (case authorization_state C http SBCAddress (a_from auth) (a_nonce auth) of
                  Inl _ \<Rightarrow> None
                | Inr used \<Rightarrow> Some used)))"

definition no_wallets :: string where "no_wallets = ''No available wallets''"

definition settle_attempt ::
  "('pk, 'sk) crypto \<Rightarrow> 'r redis \<Rightarrow> handling \<Rightarrow> nat \<Rightarrow> job \<Rightarrow> payment_payload \<Rightarrow> 'r \<Rightarrow> 'r \<times> verdict" where
  "settle_attempt C R w i j pp s =
     (case fac_settle (hw_facilitator w (jb_network j)) pp (jb_requirements j) of
        (resp, err) \<Rightarrow>
          if err = None \<and> sr_success resp then finish_job C R w i j Settled s
          else
            let refused = (case err of None \<Rightarrow> False | Some e \<Rightarrow> definite e);
                pool_empty = (case err of Some (FacStatus st body) \<Rightarrow> refused \<and> str_contains body no_wallets | _ \<Rightarrow> False)
            in if pool_empty \<and> \<not> hw_waited w then (s, LeftPending)
               else if used_on_chain C (hw_rpc w (jb_network j)) pp = Some True
                 then finish_job C R w i j SettledOnChain s
               else if refused \<and> \<not> pool_empty then finish_job C R w i j SettleFailed s
               else (s, LeftPending))"

definition handle_job ::
  "('pk, 'sk) crypto \<Rightarrow> 'r redis \<Rightarrow> settler \<Rightarrow> handling \<Rightarrow> nat \<times> fields \<Rightarrow> 'r \<Rightarrow> 'r \<times> verdict" where
  "handle_job C R S w msg s =
     (case parse_job (snd msg) of
        Inl _ \<Rightarrow> dead C R w msg None DeadLettered (hw_err_text w) s
      | Inr j \<Rightarrow>
          let n = deliveries R w (fst msg) s
          in if max_deliveries S < n
          then dead C R w msg (Some j) DeadLettered (''delivered '' @ int_str n @ '' times'') s
          else if jb_network j \<notin> set (sl_facilitators S) \<or> jb_network j \<notin> set (sl_rpcs S)
          then dead C R w msg (Some j) DeadLettered (''no facilitator or RPC for network '' @ jb_network j) s
          else
            (case decode_payment_payload (jb_payment j) of
               Inl _ \<Rightarrow> dead C R w msg (Some j) DeadLettered (''payment: '' @ hw_err_text w) s
             | Inr pp \<Rightarrow>
                 if jb_validBefore j \<le> unix (hw_clock w)
                 then (case used_on_chain C (hw_rpc w (jb_network j)) pp of
                         None \<Rightarrow> (s, LeftPending)
                       | Some True \<Rightarrow> finish_job C R w (fst msg) j SettledOnChain s
                       | Some False \<Rightarrow>
                           dead C R w msg (Some j) ExpiredUnsettled
                             ''validBefore has passed; nothing can settle it now'' s)
                 else settle_attempt C R w (fst msg) j pp s))"

section \<open>Reading and claiming\<close>

fun handle_all ::
  "('pk, 'sk) crypto \<Rightarrow> 'r redis \<Rightarrow> settler \<Rightarrow> (nat \<Rightarrow> handling) \<Rightarrow> (nat \<times> fields) list \<Rightarrow> 'r
     \<Rightarrow> 'r \<times> (nat \<times> verdict) list" where
  "handle_all C R S ws [] s = (s, [])"
| "handle_all C R S ws (m # ms) s =
     (case handle_job C R S (ws (fst m)) m s of
        (s1, v) \<Rightarrow> (case handle_all C R S ws ms s1 of (s2, vs) \<Rightarrow> (s2, (fst m, v) # vs)))"

text \<open>
  One read or claim: when and how the call ran, and the handling of each job by its id, as
  a read returns an id once.
\<close>

record pass =
  ps_ms :: int
  ps_fault :: fault
  ps_jobs :: "nat \<Rightarrow> handling"

definition step_jobs ::
  "('pk, 'sk) crypto \<Rightarrow> 'r redis \<Rightarrow> settler \<Rightarrow> pass \<Rightarrow> 'r \<Rightarrow> 'r \<times> (nat \<times> verdict) list option" where
  "step_jobs C R S p s =
     (case deliver (ps_fault p) (\<lambda>s. rd_read R s (ps_ms p) SettleStream (nat (count_of S))) s of
        (s1, None) \<Rightarrow> (s1, None)
      | (s1, Some msgs) \<Rightarrow> (case handle_all C R S (ps_jobs p) msgs s1 of (s2, vs) \<Rightarrow> (s2, Some vs)))"

fun claim_jobs ::
  "('pk, 'sk) crypto \<Rightarrow> 'r redis \<Rightarrow> settler \<Rightarrow> pass list \<Rightarrow> nat \<Rightarrow> 'r \<Rightarrow> 'r \<times> (nat \<times> verdict) list" where
  "claim_jobs C R S [] start s = (s, [])"
| "claim_jobs C R S (p # ps) start s =
     (case deliver (ps_fault p)
             (\<lambda>s. rd_claim R s (ps_ms p) SettleStream (millis (min_idle S)) start 100) s of
        (s1, None) \<Rightarrow> (s1, [])
      | (s1, Some (msgs, nxt)) \<Rightarrow>
          (case handle_all C R S (ps_jobs p) msgs s1 of
             (s2, vs) \<Rightarrow>
               if nxt = 0 \<or> msgs = [] then (s2, vs)
               else (case claim_jobs C R S ps nxt s2 of (s3, vs') \<Rightarrow> (s3, vs @ vs'))))"

text \<open>\<open>ensureGroup\<close>: a group that exists is fine.  The stream of the model has its group.\<close>

definition ensure_group :: "(string, unit) result \<Rightarrow> (string, unit) result" where
  "ensure_group answer =
     (case answer of
        Inl msg \<Rightarrow> if prefix ''BUSYGROUP'' msg then Inr () else Inl (''settle: create group: '' @ msg)
      | Inr u \<Rightarrow> Inr u)"

text \<open>\<open>Run\<close>: a claim at the start; then, until it is stopped, a claim when the ticker fired, and a read.\<close>

fun run_loop ::
  "('pk, 'sk) crypto \<Rightarrow> 'r redis \<Rightarrow> settler \<Rightarrow> (pass list option \<times> pass) list \<Rightarrow> 'r \<Rightarrow> 'r" where
  "run_loop C R S [] s = s"
| "run_loop C R S ((tick, p) # rounds) s =
     (let s1 = (case tick of None \<Rightarrow> s | Some ps \<Rightarrow> fst (claim_jobs C R S ps 0 s))
      in run_loop C R S rounds (fst (step_jobs C R S p s1)))"

definition run_settler ::
  "('pk, 'sk) crypto \<Rightarrow> 'r redis \<Rightarrow> settler \<Rightarrow> (string, unit) result \<Rightarrow> pass list
     \<Rightarrow> (pass list option \<times> pass) list \<Rightarrow> 'r \<Rightarrow> (string, 'r) result" where
  "run_settler C R S group_answer first rounds s =
     bind_r (ensure_group group_answer) (\<lambda>_. Inr (run_loop C R S rounds (fst (claim_jobs C R S first 0 s))))"

text \<open>\<open>txURL\<close>, for the log\<close>

definition settle_tx_url :: "string \<Rightarrow> string \<Rightarrow> string" where
  "settle_tx_url net tx =
     (if tx = [] then []
      else case by_network net of Inl _ \<Rightarrow> [] | Inr p \<Rightarrow> tx_url p tx)"

section \<open>Lemmas: what the end of a job does\<close>

lemma streams_apart [simp]: "DeadStream \<noteq> SettleStream" "SettleStream \<noteq> DeadStream"
  by (simp_all add: DeadStream_def)

text \<open>Releasing is at most one release of the ledger.\<close>

definition releases :: "job option \<Rightarrow> ledger_event list \<Rightarrow> bool" where
  "releases j es \<longleftrightarrow>
     es = [] \<or> (\<exists>j' f payer amount ok. j = Some j' \<and> parse_address (jb_payer j') = Inr payer \<and>
       big_set_string (jb_amount j') = Some amount \<and> es = [Released f payer amount ok])"

lemma settle_release_streams [simp]:
  "key_laws R \<Longrightarrow> rd_stream R (settle_release C R w j s) = rd_stream R s"
  by (auto simp: settle_release_def release_streams split: option.split sum.split)

lemma settle_release_run:
  "\<exists>es. ledger_run C R c (hw_release_ms w) s (map (Pair (hw_release_ms w)) es) (settle_release C R w j s) \<and>
     releases j es"
proof (cases "\<exists>j' payer amount. j = Some j' \<and> parse_address (jb_payer j') = Inr payer \<and>
    big_set_string (jb_amount j') = Some amount")
  case True
  then obtain j' payer amount where j: "j = Some j'" "parse_address (jb_payer j') = Inr payer"
    "big_set_string (jb_amount j') = Some amount" by blast
  obtain s' ok where r: "release C R (hw_release_fault w) (hw_release_ms w) payer amount s = (s', ok)" by fastforce
  show ?thesis
    using ledger.run_one [OF step_release [OF r]] j r
    by (intro exI [of _ "[Released (hw_release_fault w) payer amount ok]"])
      (simp add: settle_release_def releases_def)
next
  case False
  then have "settle_release C R w j s = s" by (auto simp: settle_release_def split: option.split sum.split)
  then show ?thesis by (intro exI [of _ "[]"]) (simp add: releases_def run_nil)
qed

text \<open>An acknowledgement takes the entry off the pending list, or is lost.\<close>

lemma ack_effect:
  assumes "stream_laws R" "ack R w i out s = (s', v)"
  shows "rd_view R s' = rd_view R s" "k \<noteq> SettleStream \<Longrightarrow> rd_stream R s' k = rd_stream R s k"
    "rd_stream R s' SettleStream \<in> {rd_stream R s SettleStream, sm_xack i (rd_stream R s SettleStream)}"
    "v = Acked out \<and> rd_stream R s' SettleStream = sm_xack i (rd_stream R s SettleStream) \<or> v = Unacked out"
    "hw_ack_fault w = Answered \<Longrightarrow> v = Acked out"
  using assms(2) law_xack [OF assms(1)]
  by (cases "hw_ack_fault w"; force simp: ack_def)+

lemma ack_run:
  "stream_laws R \<Longrightarrow> ack R w i out s = (s', v) \<Longrightarrow> ledger_step C R c t s Elsewhere s'"
  by (rule step_elsewhere) (simp add: ack_effect(1))

text \<open>A dead letter that was answered is in the dead-letter stream.\<close>

definition dead_lettered :: "'r redis \<Rightarrow> 'r \<Rightarrow> handling \<Rightarrow> fields \<Rightarrow> string \<Rightarrow> settle_outcome \<Rightarrow> bool" where
  "dead_lettered R s w vs why out \<longleftrightarrow>
     dead_values vs why out (hw_dead_clock w) \<in> snd ` set (sm_entries (rd_stream R s DeadStream))"

lemma dead_xadd:
  assumes "stream_laws R" "rd_xadd R s t DeadStream None vs = (s', i)"
  shows "rd_view R s' = rd_view R s" "k \<noteq> DeadStream \<Longrightarrow> rd_stream R s' k = rd_stream R s k"
    "vs \<in> snd ` set (sm_entries (rd_stream R s' DeadStream))"
    "snd ` set (sm_entries (rd_stream R s DeadStream)) \<subseteq> snd ` set (sm_entries (rd_stream R s' DeadStream))"
  by (rule law_xadd [OF assms], force simp: xadd_drops_def sm_xadd_def)+

lemma dead_cases [consumes 2, case_names Lost Written]:
  assumes L: "stream_laws R" and d: "dead C R w msg j out why s = (s', v)"
  obtains "v = LeftPending" "rd_view R s' = rd_view R s" "rd_stream R s' SettleStream = rd_stream R s SettleStream"
    "hw_dead_fault w \<noteq> Answered"
  | s1 where "rd_view R s1 = rd_view R s" "rd_stream R s1 SettleStream = rd_stream R s SettleStream"
    "dead_lettered R s1 w (snd msg) why out" "ack R w (fst msg) out (settle_release C R w j s1) = (s', v)"
proof -
  let ?x = "\<lambda>s. rd_xadd R s (hw_dead_ms w) DeadStream None (dead_values (snd msg) why out (hw_dead_clock w))"
  have x: "rd_view R (fst (?x s)) = rd_view R s"
    "rd_stream R (fst (?x s)) SettleStream = rd_stream R s SettleStream"
    "dead_lettered R (fst (?x s)) w (snd msg) why out" for s
    using dead_xadd [OF L, of s _ _ "fst (?x s)" "snd (?x s)"] by (simp_all add: dead_lettered_def)
  show thesis
  proof (cases "hw_dead_fault w")
    case Answered
    with d x [of s] show thesis by (intro that(2) [of "fst (?x s)"]) (auto simp: dead_def split: prod.splits)
  next
    case RunTwice
    with d x [of s] x [of "fst (?x s)"] show thesis
      by (intro that(2) [of "fst (?x (fst (?x s)))"]) (auto simp: dead_def split: prod.splits)
  next
    case NotRun
    with d show thesis by (intro that(1)) (auto simp: dead_def)
  next
    case AnswerLost
    with d x [of s] show thesis by (intro that(1)) (auto simp: dead_def)
  qed
qed


section \<open>Lemmas: how a handling ends\<close>

text \<open>Why a job was finished, rather than left or dead-lettered\<close>

definition finished_because :: "('pk, 'sk) crypto \<Rightarrow> handling \<Rightarrow> job \<Rightarrow> payment_payload \<Rightarrow> settle_outcome \<Rightarrow> bool" where
  "finished_because C w j pp out \<longleftrightarrow>
     (case out of
        Settled \<Rightarrow> unix (hw_clock w) < jb_validBefore j \<and>
          (\<exists>resp. fac_settle (hw_facilitator w (jb_network j)) pp (jb_requirements j) = (resp, None) \<and> sr_success resp)
      | SettledOnChain \<Rightarrow> used_on_chain C (hw_rpc w (jb_network j)) pp = Some True
      | SettleFailed \<Rightarrow> unix (hw_clock w) < jb_validBefore j \<and>
          used_on_chain C (hw_rpc w (jb_network j)) pp \<noteq> Some True \<and>
          (\<exists>resp st body. fac_settle (hw_facilitator w (jb_network j)) pp (jb_requirements j) =
             (resp, Some (FacStatus st body)) \<and> 400 \<le> st \<and> st < 500 \<and> \<not> str_contains body no_wallets)
      | _ \<Rightarrow> False)"

lemma attempt_cases [consumes 1, case_names Left Done]:
  assumes "settle_attempt C R w i j pp s = (s', v)" "unix (hw_clock w) < jb_validBefore j"
  obtains "v = LeftPending" "s' = s"
  | out where "finish_job C R w i j out s = (s', v)" "finished_because C w j pp out"
proof -
  obtain resp err where f: "fac_settle (hw_facilitator w (jb_network j)) pp (jb_requirements j) = (resp, err)"
    by fastforce
  let ?refused = "case err of None \<Rightarrow> False | Some e \<Rightarrow> definite e"
  let ?pool = "case err of Some (FacStatus st body) \<Rightarrow> ?refused \<and> str_contains body no_wallets | _ \<Rightarrow> False"
  consider (ok) "err = None" "sr_success resp"
    | (chain) "\<not> (err = None \<and> sr_success resp)" "\<not> (?pool \<and> \<not> hw_waited w)"
        "used_on_chain C (hw_rpc w (jb_network j)) pp = Some True"
    | (refused) "\<not> (err = None \<and> sr_success resp)" "\<not> (?pool \<and> \<not> hw_waited w)"
        "used_on_chain C (hw_rpc w (jb_network j)) pp \<noteq> Some True" "?refused" "\<not> ?pool"
    | (left) "s' = s" "v = LeftPending"
    using assms(1) unfolding settle_attempt_def f Let_def by (fastforce split: if_splits)
  then show thesis
  proof cases
    case ok
    with assms f show thesis
      by (intro that(2) [of Settled]) (simp_all add: settle_attempt_def finished_because_def)
  next
    case chain
    with assms f show thesis
      by (intro that(2) [of SettledOnChain]) (simp_all add: settle_attempt_def finished_because_def Let_def)
  next
    case refused
    then obtain st body where e: "err = Some (FacStatus st body)" "400 \<le> st" "st < 500" "\<not> str_contains body no_wallets"
      by (auto elim!: definite_cases split: option.splits)
    with assms f refused show thesis
      by (intro that(2) [of SettleFailed]) (simp_all add: settle_attempt_def finished_because_def Let_def)
  qed (rule that(1))
qed

lemma handle_cases [consumes 1, case_names Left Done Dead]:
  assumes "handle_job C R S w msg s = (s', v)"
  obtains "v = LeftPending" "s' = s"
  | j pp out where "parse_job (snd msg) = Inr j" "decode_payment_payload (jb_payment j) = Inr pp"
      "finish_job C R w (fst msg) j out s = (s', v)" "finished_because C w j pp out"
  | j out why where "dead C R w msg j out why s = (s', v)" "out \<in> {DeadLettered, ExpiredUnsettled}"
      "case j of None \<Rightarrow> True | Some j' \<Rightarrow> parse_job (snd msg) = Inr j'"
proof (cases "parse_job (snd msg)")
  case (Inl e)
  with assms show thesis by (intro that(3) [of None]) (auto simp: handle_job_def)
next
  case (Inr j)
  let ?n = "deliveries R w (fst msg) s"
  show thesis
  proof (cases "max_deliveries S < ?n \<or> jb_network j \<notin> set (sl_facilitators S) \<or> jb_network j \<notin> set (sl_rpcs S) \<or>
      decode_payment_payload (jb_payment j) \<notin> range Inr")
    case True
    with assms Inr show thesis
      by (auto simp: handle_job_def Let_def split: if_splits sum.splits intro: that(3) [of "Some j"])
  next
    case False
    then obtain pp where pp: "decode_payment_payload (jb_payment j) = Inr pp" by blast
    show thesis
    proof (cases "jb_validBefore j \<le> unix (hw_clock w)")
      case True
      consider "used_on_chain C (hw_rpc w (jb_network j)) pp = None"
        | "used_on_chain C (hw_rpc w (jb_network j)) pp = Some True"
        | "used_on_chain C (hw_rpc w (jb_network j)) pp = Some False" by (metis option.exhaust)
      then show thesis
      proof cases
        case 1
        with assms Inr False pp True show thesis by (intro that(1)) (auto simp: handle_job_def)
      next
        case 2
        with assms Inr False pp True show thesis
          by (intro that(2) [of j pp SettledOnChain]) (auto simp: handle_job_def finished_because_def)
      next
        case 3
        with assms Inr False pp True show thesis
          by (intro that(3) [of "Some j" ExpiredUnsettled]) (auto simp: handle_job_def)
      qed
    next
      case early: False
      with assms Inr False pp have "settle_attempt C R w (fst msg) j pp s = (s', v)" by (auto simp: handle_job_def)
      then show thesis
        by (cases rule: attempt_cases) (use early Inr pp that(1,2) in auto)
    qed
  qed
qed

text \<open>A handling changes the capture stream by at most the acknowledgement of its own entry.\<close>

lemma finish_job_effect:
  assumes "key_laws R" "stream_laws R" "finish_job C R w i j out s = (s', v)"
  shows "rd_stream R s' SettleStream \<in> {rd_stream R s SettleStream, sm_xack i (rd_stream R s SettleStream)}"
    "v = Acked out \<and> rd_stream R s' SettleStream = sm_xack i (rd_stream R s SettleStream) \<or> v = Unacked out"
    "k \<noteq> SettleStream \<Longrightarrow> rd_stream R s' k = rd_stream R s k"
    "hw_ack_fault w = Answered \<Longrightarrow> v = Acked out"
  using ack_effect [OF assms(2) assms(3) [unfolded finish_job_def]] assms(1) by auto

lemma dead_effect:
  assumes K: "key_laws R" and L: "stream_laws R" and d: "dead C R w msg j out why s = (s', v)"
  shows "rd_stream R s' SettleStream \<in> {rd_stream R s SettleStream, sm_xack (fst msg) (rd_stream R s SettleStream)}"
    "v = LeftPending \<and> rd_stream R s' SettleStream = rd_stream R s SettleStream \<or>
     dead_lettered R s' w (snd msg) why out \<and>
       (v = Acked out \<and> rd_stream R s' SettleStream = sm_xack (fst msg) (rd_stream R s SettleStream) \<or> v = Unacked out)"
    "hw_dead_fault w = Answered \<Longrightarrow> hw_ack_fault w = Answered \<Longrightarrow> v = Acked out"
proof -
  have "rd_stream R s' SettleStream \<in> {rd_stream R s SettleStream, sm_xack (fst msg) (rd_stream R s SettleStream)} \<and>
    (v = LeftPending \<and> rd_stream R s' SettleStream = rd_stream R s SettleStream \<or>
     dead_lettered R s' w (snd msg) why out \<and>
       (v = Acked out \<and> rd_stream R s' SettleStream = sm_xack (fst msg) (rd_stream R s SettleStream) \<or> v = Unacked out)) \<and>
    (hw_dead_fault w = Answered \<longrightarrow> hw_ack_fault w = Answered \<longrightarrow> v = Acked out)"
    using L d
  proof (cases rule: dead_cases)
    case (Written s1)
    note e = ack_effect [OF L Written(4)]
    have "rd_stream R s' DeadStream = rd_stream R s1 DeadStream" using e(2) [of DeadStream] K by simp
    then have "dead_lettered R s' w (snd msg) why out" using Written(3) by (simp add: dead_lettered_def)
    with e(3-5) Written(2) K show ?thesis by simp
  qed simp
  then show "rd_stream R s' SettleStream \<in> {rd_stream R s SettleStream, sm_xack (fst msg) (rd_stream R s SettleStream)}"
    "v = LeftPending \<and> rd_stream R s' SettleStream = rd_stream R s SettleStream \<or>
     dead_lettered R s' w (snd msg) why out \<and>
       (v = Acked out \<and> rd_stream R s' SettleStream = sm_xack (fst msg) (rd_stream R s SettleStream) \<or> v = Unacked out)"
    "hw_dead_fault w = Answered \<Longrightarrow> hw_ack_fault w = Answered \<Longrightarrow> v = Acked out"
    by simp_all
qed

lemma handle_stream:
  assumes "key_laws R" "stream_laws R" "handle_job C R S w msg s = (s', v)"
  shows "rd_stream R s' SettleStream \<in> {rd_stream R s SettleStream, sm_xack (fst msg) (rd_stream R s SettleStream)}"
  using assms(3)
proof (cases rule: handle_cases)
  case (Done j pp out)
  from finish_job_effect(1) [OF assms(1,2) Done(3)] show ?thesis .
next
  case (Dead j out why)
  from dead_effect(1) [OF assms(1,2) Dead(1)] show ?thesis .
qed simp

section \<open>Lemmas: passes over the pending list\<close>

definition xack_set :: "nat set \<Rightarrow> stream \<Rightarrow> stream" where
  "xack_set A st = st\<lparr>sm_pending := filter (\<lambda>p. fst p \<notin> A) (sm_pending st)\<rparr>"

lemma xack_set_simps [simp]:
  "xack_set {} st = st" "sm_xack i st = xack_set {i} st" "xack_set A (xack_set B st) = xack_set (B \<union> A) st"
  by (simp_all add: xack_set_def sm_xack_def)

lemma deliveries_xack_set: "sm_deliveries i (xack_set A st) = (if i \<in> A then None else sm_deliveries i st)"
proof -
  have "map_of (filter (\<lambda>p. fst p \<notin> A) ps) i = (if i \<in> A then None else map_of ps i)"
    for ps :: "(nat \<times> nat \<times> int) list" by (induction ps) auto
  then show ?thesis by (simp add: xack_set_def sm_deliveries_def)
qed

lemma xack_set_ok: "stream_ok st \<Longrightarrow> stream_ok (xack_set A st)"
  by (auto simp: stream_ok_def xack_set_def distinct_map_filter)

text \<open>Every call of the world is answered.\<close>

definition answering :: "handling \<Rightarrow> bool" where
  "answering w \<longleftrightarrow> hw_list_fault w = Answered \<and> hw_dead_fault w = Answered \<and> hw_ack_fault w = Answered"

definition pass_answered :: "pass \<Rightarrow> bool" where
  "pass_answered p \<longleftrightarrow> ps_fault p = Answered \<and> (\<forall>i. answering (ps_jobs p i))"

lemma over_limit:
  assumes "key_laws R" "stream_laws R" "answering w" "handle_job C R S w msg s = (s', v)"
    and "sm_deliveries (fst msg) (rd_stream R s SettleStream) = Some n" "max_deliveries S < int n"
  shows "rd_stream R s' SettleStream = xack_set {fst msg} (rd_stream R s SettleStream) \<and> v = Acked DeadLettered"
proof -
  have n: "deliveries R w (fst msg) s = int n"
    using assms by (simp add: deliveries_def answering_def law_deliveries)
  have "\<exists>j why. dead C R w msg j DeadLettered why s = (s', v)"
    using assms(4,6) n by (auto simp: handle_job_def Let_def split: sum.splits)
  then obtain j why where "dead C R w msg j DeadLettered why s = (s', v)" by blast
  from dead_effect(2,3) [OF assms(1,2) this] assms(3) show ?thesis by (auto simp: answering_def)
qed

lemma handle_all_stream:
  assumes K: "key_laws R" and L: "stream_laws R" and "handle_all C R S ws ms s = (s', vs)"
  shows "\<exists>A. A \<subseteq> fst ` set ms \<and> rd_stream R s' SettleStream = xack_set A (rd_stream R s SettleStream) \<and>
    (\<forall>m \<in> set ms. \<forall>n. answering (ws (fst m)) \<longrightarrow>
       sm_deliveries (fst m) (rd_stream R s SettleStream) = Some n \<longrightarrow> max_deliveries S < int n \<longrightarrow> fst m \<in> A)"
  using assms(3)
proof (induction ms arbitrary: s s' vs)
  case (Cons m ms)
  obtain s1 v vs' where h: "handle_job C R S (ws (fst m)) m s = (s1, v)" and a: "handle_all C R S ws ms s1 = (s', vs')"
    using Cons.prems by (auto split: prod.splits)
  let ?st = "rd_stream R s SettleStream"
  obtain B where B: "B \<subseteq> {fst m}" "rd_stream R s1 SettleStream = xack_set B ?st"
    using handle_stream [OF K L h] xack_set_simps(1) [of ?st] by (metis empty_subsetI insertE order_refl singletonD xack_set_simps(2))
  from Cons.IH [OF a] obtain A where A: "A \<subseteq> fst ` set ms" "rd_stream R s' SettleStream = xack_set (B \<union> A) ?st"
    "\<forall>m \<in> set ms. \<forall>n. answering (ws (fst m)) \<longrightarrow>
       sm_deliveries (fst m) (xack_set B ?st) = Some n \<longrightarrow> max_deliveries S < int n \<longrightarrow> fst m \<in> A"
    unfolding B(2) by auto
  have "fst m \<in> B" if "answering (ws (fst m))" "sm_deliveries (fst m) ?st = Some n" "max_deliveries S < int n" for n
  proof (rule ccontr)
    assume "fst m \<notin> B"
    with B(1) have "B = {}" by auto
    with over_limit [OF K L that(1) h that(2,3)] B(2) have "?st = xack_set {fst m} ?st" by simp
    with that(2) show False by (metis deliveries_xack_set insertI1 option.distinct(1))
  qed
  with A B(1) show ?case
    by (intro exI [of _ "B \<union> A"]) (auto simp: deliveries_xack_set split: if_splits)
qed auto

text \<open>Within the limit: no pending job was delivered more often.\<close>

definition within_limit :: "settler \<Rightarrow> stream \<Rightarrow> bool" where
  "within_limit S st \<longleftrightarrow> stream_ok st \<and> (\<forall>p \<in> set (sm_pending st). int (fst (snd p)) \<le> max_deliveries S)"

lemma max_deliveries_pos: "1 \<le> max_deliveries S"
  by (simp add: max_deliveries_def DefaultMaxDeliveries_def)

lemma within_xack: "within_limit S st \<Longrightarrow> within_limit S (xack_set A st)"
  by (auto simp: within_limit_def xack_set_ok) (auto simp: xack_set_def)

lemma within_read: "within_limit S st \<Longrightarrow> within_limit S (fst (sm_read now count st))"
  using read_ok [of st now count] max_deliveries_pos [of S]
  by (auto simp: within_limit_def sm_read_def Let_def split: if_splits)

lemma within_claim:
  assumes W: "within_limit S st"
    and A: "\<forall>m \<in> set (snd (sm_claim now ids st)). \<forall>n.
       sm_deliveries (fst m) (fst (sm_claim now ids st)) = Some n \<longrightarrow> max_deliveries S < int n \<longrightarrow> fst m \<in> A"
  shows "within_limit S (xack_set A (fst (sm_claim now ids st)))"
proof -
  let ?st = "fst (sm_claim now ids st)"
  have ok: "stream_ok ?st" using W by (simp add: within_limit_def claim_ok)
  have "int n \<le> max_deliveries S" if p: "(i, n, t) \<in> set (sm_pending ?st)" "i \<notin> A" for i n t
  proof (cases "i \<in> set ids")
    case True
    with p(1) have "i \<in> fst ` set (sm_entries st)" by (force simp: sm_claim_def split: if_splits)
    with True obtain m where m: "m \<in> set (snd (sm_claim now ids st))" "fst m = i" by (auto simp: sm_claim_def)
    have "sm_deliveries i ?st = Some n" using p(1) by (auto simp: sm_deliveries_iff [OF ok])
    with A m p(2) show ?thesis by (meson not_le)
  next
    case False
    with p(1) have "(i, n, t) \<in> set (sm_pending st)" by (auto simp: sm_claim_def split: if_splits)
    with W show ?thesis by (auto simp: within_limit_def)
  qed
  with ok show ?thesis by (auto simp: within_limit_def xack_set_ok) (auto simp: xack_set_def)
qed

text \<open>What one answered claim leaves, and one answered read\<close>

lemma claim_pass:
  assumes K: "key_laws R" and L: "stream_laws R" and p: "pass_answered p"
    and c: "rd_claim R s (ps_ms p) SettleStream (millis (min_idle S)) start 100 = (s1, msgs, nxt)"
    and h: "handle_all C R S (ps_jobs p) msgs s1 = (s2, vs)"
  obtains A where
    "rd_stream R s2 SettleStream = xack_set A (fst (sm_claim (ps_ms p)
       (take 100 (sm_idle (ps_ms p) (millis (min_idle S)) start (rd_stream R s SettleStream))) (rd_stream R s SettleStream)))"
    "within_limit S (rd_stream R s SettleStream) \<Longrightarrow> within_limit S (rd_stream R s2 SettleStream)"
proof -
  let ?st = "rd_stream R s SettleStream"
  let ?ids = "take 100 (sm_idle (ps_ms p) (millis (min_idle S)) start ?st)"
  have s1: "rd_stream R s1 SettleStream = fst (sm_claim (ps_ms p) ?ids ?st)" "msgs = snd (sm_claim (ps_ms p) ?ids ?st)"
    using law_claim [OF L c] by simp_all
  obtain A where A: "rd_stream R s2 SettleStream = xack_set A (rd_stream R s1 SettleStream)"
    "\<forall>m \<in> set msgs. \<forall>n. answering (ps_jobs p (fst m)) \<longrightarrow>
       sm_deliveries (fst m) (rd_stream R s1 SettleStream) = Some n \<longrightarrow> max_deliveries S < int n \<longrightarrow> fst m \<in> A"
    using handle_all_stream [OF K L h] by blast
  show thesis
  proof (rule that)
    show "rd_stream R s2 SettleStream = xack_set A (fst (sm_claim (ps_ms p) ?ids ?st))" using A(1) s1(1) by simp
    assume "within_limit S ?st"
    then show "within_limit S (rd_stream R s2 SettleStream)"
      using within_claim [of S ?st "ps_ms p" ?ids A] A p s1 by (simp add: pass_answered_def)
  qed
qed

lemma read_pass:
  assumes K: "key_laws R" and L: "stream_laws R" and p: "pass_answered p" and r: "step_jobs C R S p s = (s', vs)"
  obtains A where "rd_stream R s' SettleStream =
    xack_set A (fst (sm_read (ps_ms p) (nat (count_of S)) (rd_stream R s SettleStream)))"
proof -
  obtain s1 msgs where m: "rd_read R s (ps_ms p) SettleStream (nat (count_of S)) = (s1, msgs)" by fastforce
  obtain vs' where h: "handle_all C R S (ps_jobs p) msgs s1 = (s', vs')"
    using r p m by (auto simp: step_jobs_def pass_answered_def split: prod.splits)
  from handle_all_stream [OF K L h] law_read(1) [OF L m] that show thesis by auto
qed

lemma claim_within:
  assumes "key_laws R" "stream_laws R"
  shows "\<forall>p \<in> set ps. pass_answered p \<Longrightarrow> within_limit S (rd_stream R s SettleStream) \<Longrightarrow>
    within_limit S (rd_stream R (fst (claim_jobs C R S ps start s)) SettleStream)"
proof (induction ps arbitrary: start s)
  case (Cons p ps)
  obtain s1 msgs nxt where c: "rd_claim R s (ps_ms p) SettleStream (millis (min_idle S)) start 100 = (s1, msgs, nxt)"
    using prod_cases3 by blast
  obtain s2 vs where h: "handle_all C R S (ps_jobs p) msgs s1 = (s2, vs)" by fastforce
  have p: "pass_answered p" "\<forall>p \<in> set ps. pass_answered p" using Cons.prems(1) by simp_all
  have "within_limit S (rd_stream R s2 SettleStream)"
    by (rule claim_pass [OF assms p(1) c h]) (use Cons.prems(2) in blast)
  then show ?case
    using Cons.IH [OF p(2)] c h p(1) by (simp add: pass_answered_def prod.case_eq_if)
qed simp

definition rounds_answered :: "(pass list option \<times> pass) list \<Rightarrow> bool" where
  "rounds_answered rounds \<longleftrightarrow>
     (\<forall>(tick, q) \<in> set rounds. pass_answered q \<and> (\<forall>p \<in> set (case tick of None \<Rightarrow> [] | Some ps \<Rightarrow> ps). pass_answered p))"

lemma run_within:
  assumes "key_laws R" "stream_laws R"
  shows "rounds_answered rounds \<Longrightarrow> within_limit S (rd_stream R s SettleStream) \<Longrightarrow>
    within_limit S (rd_stream R (run_loop C R S rounds s) SettleStream)"
proof (induction rounds arbitrary: s)
  case (Cons r rounds)
  obtain tick q where r: "r = (tick, q)" by (cases r)
  let ?s1 = "case tick of None \<Rightarrow> s | Some ps \<Rightarrow> fst (claim_jobs C R S ps 0 s)"
  have a: "pass_answered q" "rounds_answered rounds"
    using Cons.prems(1) r by (simp_all add: rounds_answered_def)
  have w1: "within_limit S (rd_stream R ?s1 SettleStream)"
    using Cons.prems r by (cases tick) (auto simp: rounds_answered_def intro!: claim_within [OF assms])
  obtain s2 vs where s2: "step_jobs C R S q ?s1 = (s2, vs)" by fastforce
  obtain A where "rd_stream R s2 SettleStream =
      xack_set A (fst (sm_read (ps_ms q) (nat (count_of S)) (rd_stream R ?s1 SettleStream)))"
    by (rule read_pass [OF assms a(1) s2])
  then have "within_limit S (rd_stream R s2 SettleStream)" using w1 by (simp add: within_xack within_read)
  from Cons.IH [OF a(2) this] show ?case using r s2 by simp
qed simp


section \<open>Lemmas: a job that stays pending\<close>

text \<open>
  A job followed through the passes: gone for good, or among the first hundred pending
  entries, delivered at least \<open>n\<close> times, the last time no later than \<open>t\<close>.
\<close>

definition tracked :: "nat \<Rightarrow> nat \<Rightarrow> int \<Rightarrow> stream \<Rightarrow> bool" where
  "tracked i n t st \<longleftrightarrow>
     stream_ok st \<and> i < sm_delivered st \<and>
     (i \<notin> fst ` set (sm_pending st) \<or> (\<exists>m u. n \<le> m \<and> u \<le> t \<and> (i, m, u) \<in> set (take 100 (sm_pending st))))"

lemma take_filter: "x \<in> set (take k xs) \<Longrightarrow> P x \<Longrightarrow> x \<in> set (take k (filter P xs))"
proof (induction xs arbitrary: k)
  case (Cons a xs)
  then show ?case by (cases k) (auto dest: in_set_takeD, metis Cons.IH Suc_le_mono in_mono nat_le_linear
      not_less_eq_eq set_take_subset_set_take take_Suc_Cons)
qed simp

lemma tracked_gone: "stream_ok st \<Longrightarrow> i < sm_delivered st \<Longrightarrow> i \<notin> fst ` set (sm_pending st) \<Longrightarrow> tracked i n t st"
  by (simp add: tracked_def)

lemma tracked_here:
  "stream_ok st \<Longrightarrow> i < sm_delivered st \<Longrightarrow> (i, m, u) \<in> set (take 100 (sm_pending st)) \<Longrightarrow> n \<le> m \<Longrightarrow> u \<le> t \<Longrightarrow>
     tracked i n t st"
  unfolding tracked_def by blast

lemma trackedE [consumes 1, case_names Gone Here]:
  assumes "tracked i n t st"
  obtains "stream_ok st" "i < sm_delivered st" "i \<notin> fst ` set (sm_pending st)"
  | m u where "stream_ok st" "i < sm_delivered st" "(i, m, u) \<in> set (take 100 (sm_pending st))" "n \<le> m" "u \<le> t"
  using assms unfolding tracked_def by blast

lemma tracked_mono: "tracked i n t st \<Longrightarrow> m \<le> n \<Longrightarrow> t \<le> u \<Longrightarrow> tracked i m u st"
  unfolding tracked_def by (meson order_trans)

lemma tracked_xack:
  assumes "tracked i n t st" shows "tracked i n t (xack_set A st)"
proof (cases "i \<in> A")
  case True
  then have "i \<notin> fst ` set (sm_pending (xack_set A st))" by (auto simp: xack_set_def)
  then show ?thesis using assms by (simp add: tracked_def xack_set_ok) (simp add: xack_set_def)
next
  case False
  from assms show ?thesis
  proof (cases rule: trackedE)
    case Gone
    then show ?thesis by (intro tracked_gone xack_set_ok) (auto simp: xack_set_def)
  next
    case (Here m u)
    have "(i, m, u) \<in> set (take 100 (sm_pending (xack_set A st)))"
      unfolding xack_set_def using take_filter [OF Here(3), of "\<lambda>p. fst p \<notin> A"] False by simp
    moreover have "i < sm_delivered (xack_set A st)" using Here(2) by (simp add: xack_set_def)
    ultimately show ?thesis using Here by (intro tracked_here [of _ i m u] xack_set_ok)
  qed
qed

lemma tracked_read:
  assumes T: "tracked i n t st" shows "tracked i n t (fst (sm_read now count st))"
proof -
  let ?st = "fst (sm_read now count st)"
  from T have ok: "stream_ok st" "i < sm_delivered st" by (simp_all add: tracked_def)
  define es where "es = sm_new count st"
  note new = sm_new_ok [OF ok(1) es_def]
  show ?thesis
  proof (cases "es = []")
    case True
    with T show ?thesis by (simp add: sm_read_def Let_def es_def [symmetric])
  next
    case False
    have pend: "sm_pending ?st = sm_pending st @ map (\<lambda>e. (fst e, 1, now)) es"
      and del: "sm_delivered ?st = Suc (fst (last es))"
      using False by (simp_all add: sm_read_def Let_def es_def [symmetric])
    have "sm_delivered st \<le> fst (last es)" using new(2) False by simp
    then have d: "i < sm_delivered ?st" using ok(2) del by simp
    have n: "i \<notin> fst ` set es" using new(2) ok(2) by (metis imageE not_less)
    from T show ?thesis
    proof (cases rule: trackedE)
      case Gone
      then show ?thesis using n by (intro tracked_gone read_ok ok d) (simp add: pend image_Un image_image)
    next
      case (Here m u)
      then have "(i, m, u) \<in> set (take 100 (sm_pending ?st))" by (simp add: pend)
      then show ?thesis using Here by (intro tracked_here [of _ i m u] read_ok ok d)
    qed
  qed
qed

lemma tracked_claim:
  assumes T: "tracked i n t st"
  shows "tracked i (if i \<in> set ids then Suc n else n) (max t now) (fst (sm_claim now ids st))"
proof -
  let ?st = "fst (sm_claim now ids st)"
  let ?f = "\<lambda>(i, n, t). if i \<in> set ids then (i, Suc n, now) else (i, n, t)"
  let ?keep = "\<lambda>(i, n, t). i \<notin> set ids \<or> i \<in> fst ` set (sm_entries st)"
  have ok: "stream_ok ?st" "i < sm_delivered ?st" using T claim_ok by (auto simp: tracked_def sm_claim_def)
  have pend: "sm_pending ?st = map ?f (filter ?keep (sm_pending st))" by (simp add: sm_claim_def)
  have kept: "i \<in> fst ` set (sm_pending st) \<and> (i \<in> set ids \<longrightarrow> i \<in> fst ` set (sm_entries st))"
    if "i \<in> fst ` set (sm_pending ?st)"
    using that unfolding pend by (force split: if_splits)
  show ?thesis
  proof (cases "i \<in> fst ` set (sm_pending ?st)")
    case False
    then show ?thesis by (intro tracked_gone ok)
  next
    case True
    from T show ?thesis
    proof (cases rule: trackedE)
      case Gone
      with kept True show ?thesis by blast
    next
      case (Here m u)
      have k: "?keep (i, m, u)" unfolding prod.case using kept [OF True] by blast
      from take_filter [OF Here(3), of ?keep, OF k]
      have "(i, m, u) \<in> set (take 100 (filter ?keep (sm_pending st)))" .
      then have "?f (i, m, u) \<in> set (take 100 (map ?f (filter ?keep (sm_pending st))))"
        unfolding take_map set_map by (rule imageI)
      then have "(i, if i \<in> set ids then Suc m else m, if i \<in> set ids then now else u) \<in> set (take 100 (sm_pending ?st))"
        unfolding pend by (simp split: if_splits)
      then show ?thesis using Here(4,5) by (intro tracked_here [OF ok]) auto
    qed
  qed
qed

text \<open>A claim from the start finds a tracked job that has been idle long enough.\<close>

lemma tracked_idle:
  assumes "tracked i n t st" "t + idle \<le> now"
  shows "i \<in> set (take 100 (sm_idle now idle 0 st)) \<or> i \<notin> fst ` set (sm_pending st)"
proof (cases "i \<in> fst ` set (sm_pending st)")
  case True
  with assms obtain m u where mu: "u \<le> t" "(i, m, u) \<in> set (take 100 (sm_pending st))"
    unfolding tracked_def by blast
  then have "(i, m, u) \<in> set (take 100 (filter (\<lambda>(i, n, t). 0 \<le> i \<and> idle \<le> now - t) (sm_pending st)))"
    using assms(2) by (intro take_filter) auto
  then have "i \<in> set (take 100 (sm_idle now idle 0 st))"
    unfolding sm_idle_def take_map by force
  then show ?thesis ..
qed simp


text \<open>The rounds of a run: each begins with a claim, the job's idle time after the round before.\<close>

definition last_ms :: "pass \<Rightarrow> pass list \<Rightarrow> int" where
  "last_ms p ps = foldl max (ps_ms p) (map ps_ms ps)"

fun claims_apart :: "settler \<Rightarrow> int \<Rightarrow> (pass list option \<times> pass) list \<Rightarrow> bool" where
  "claims_apart S t [] \<longleftrightarrow> True"
| "claims_apart S t ((Some (p # ps), q) # rounds) \<longleftrightarrow>
     t + millis (min_idle S) \<le> ps_ms p \<and> claims_apart S (last_ms p ps) rounds"
| "claims_apart S t (_ # rounds) \<longleftrightarrow> False"

lemma le_foldl_max: "x \<le> foldl max x xs" for x :: "'a :: linorder"
  by (induction xs arbitrary: x) (simp_all, meson max.cobounded1 order_trans)

lemma min_idle_pos: "0 \<le> millis (min_idle S)"
  by (simp add: min_idle_def DefaultMinIdle_def millis_def pos_imp_zdiv_nonneg_iff)

lemma tracked_claims:
  assumes K: "key_laws R" and L: "stream_laws R"
  shows "\<forall>p \<in> set ps. pass_answered p \<Longrightarrow> tracked i n t (rd_stream R s SettleStream) \<Longrightarrow>
    tracked i n (foldl max t (map ps_ms ps)) (rd_stream R (fst (claim_jobs C R S ps start s)) SettleStream)"
proof (induction ps arbitrary: start s t)
  case (Cons p ps)
  obtain s1 msgs nxt where c: "rd_claim R s (ps_ms p) SettleStream (millis (min_idle S)) start 100 = (s1, msgs, nxt)"
    using prod_cases3 by blast
  obtain s2 vs where h: "handle_all C R S (ps_jobs p) msgs s1 = (s2, vs)" by fastforce
  have p: "pass_answered p" "\<forall>p \<in> set ps. pass_answered p" using Cons.prems(1) by simp_all
  obtain A where A: "rd_stream R s2 SettleStream = xack_set A (fst (sm_claim (ps_ms p)
       (take 100 (sm_idle (ps_ms p) (millis (min_idle S)) start (rd_stream R s SettleStream))) (rd_stream R s SettleStream)))"
    by (rule claim_pass [OF K L p(1) c h]) blast
  have "tracked i n (max t (ps_ms p)) (rd_stream R s2 SettleStream)"
    unfolding A by (rule tracked_xack, rule tracked_mono [OF tracked_claim [OF Cons.prems(2)]]) simp_all
  from Cons.IH [OF p(2) this] tracked_mono [OF this order_refl le_foldl_max] show ?case
    using c h p(1) by (simp add: pass_answered_def prod.case_eq_if)
qed simp

text \<open>One round: a claim that finds the job, then a read\<close>

lemma tracked_round:
  assumes K: "key_laws R" and L: "stream_laws R"
    and p: "\<forall>p \<in> set (p # ps). pass_answered p" "pass_answered q"
    and T: "tracked i n t (rd_stream R s SettleStream)" and idle: "t + millis (min_idle S) \<le> ps_ms p"
  shows "tracked i (Suc n) (last_ms p ps)
    (rd_stream R (fst (step_jobs C R S q (fst (claim_jobs C R S (p # ps) 0 s)))) SettleStream)"
proof -
  let ?st = "rd_stream R s SettleStream"
  obtain s1 msgs nxt where c: "rd_claim R s (ps_ms p) SettleStream (millis (min_idle S)) 0 100 = (s1, msgs, nxt)"
    using prod_cases3 by blast
  obtain s2 vs where h: "handle_all C R S (ps_jobs p) msgs s1 = (s2, vs)" by fastforce
  have pp: "pass_answered p" "\<forall>p \<in> set ps. pass_answered p" using p(1) by simp_all
  let ?ids = "take 100 (sm_idle (ps_ms p) (millis (min_idle S)) 0 ?st)"
  obtain A where A: "rd_stream R s2 SettleStream = xack_set A (fst (sm_claim (ps_ms p) ?ids ?st))"
    by (rule claim_pass [OF K L pp(1) c h]) blast
  have t: "t \<le> ps_ms p" using idle min_idle_pos [of S] by simp
  have "tracked i (Suc n) (ps_ms p) (fst (sm_claim (ps_ms p) ?ids ?st))"
  proof (cases "i \<in> set ?ids")
    case True
    with tracked_claim [OF T, of ?ids "ps_ms p"] t show ?thesis by (simp add: max_def split: if_splits)
  next
    case False
    with tracked_idle [OF T idle] have "i \<notin> fst ` set (sm_pending ?st)" by blast
    then have "i \<notin> fst ` set (sm_pending (fst (sm_claim (ps_ms p) ?ids ?st)))"
      by (force simp: sm_claim_def split: if_splits)
    moreover have "stream_ok (fst (sm_claim (ps_ms p) ?ids ?st))" "i < sm_delivered (fst (sm_claim (ps_ms p) ?ids ?st))"
      using T claim_ok by (auto simp: tracked_def sm_claim_def)
    ultimately show ?thesis by (intro tracked_gone)
  qed
  then have s2: "tracked i (Suc n) (ps_ms p) (rd_stream R s2 SettleStream)" unfolding A by (rule tracked_xack)
  have "fst (claim_jobs C R S (p # ps) 0 s) = s2 \<or>
      fst (claim_jobs C R S (p # ps) 0 s) = fst (claim_jobs C R S ps nxt s2)"
    using c h pp(1) by (simp add: pass_answered_def prod.case_eq_if)
  then have s3: "tracked i (Suc n) (last_ms p ps) (rd_stream R (fst (claim_jobs C R S (p # ps) 0 s)) SettleStream)"
    using tracked_claims [OF K L pp(2) s2] tracked_mono [OF s2 order_refl le_foldl_max] by (auto simp: last_ms_def)
  obtain s4 vs' where r: "step_jobs C R S q (fst (claim_jobs C R S (p # ps) 0 s)) = (s4, vs')" by fastforce
  obtain B where "rd_stream R s4 SettleStream = xack_set B (fst (sm_read (ps_ms q) (nat (count_of S))
      (rd_stream R (fst (claim_jobs C R S (p # ps) 0 s)) SettleStream)))"
    by (rule read_pass [OF K L p(2) r])
  then show ?thesis using r s3 by (simp add: tracked_xack tracked_read)
qed

lemma tracked_run:
  assumes K: "key_laws R" and L: "stream_laws R"
  shows "rounds_answered rounds \<Longrightarrow> claims_apart S t rounds \<Longrightarrow> tracked i n t (rd_stream R s SettleStream) \<Longrightarrow>
    \<exists>u. tracked i (n + length rounds) u (rd_stream R (run_loop C R S rounds s) SettleStream)"
proof (induction rounds arbitrary: s t n)
  case (Cons r rounds)
  obtain tick q where r: "r = (tick, q)" by (cases r)
  with Cons.prems(2) obtain p ps where tick: "tick = Some (p # ps)"
    and apart: "t + millis (min_idle S) \<le> ps_ms p" "claims_apart S (last_ms p ps) rounds"
    by (cases "(S, t, r # rounds)" rule: claims_apart.cases) auto
  have a: "\<forall>p \<in> set (p # ps). pass_answered p" "pass_answered q" "rounds_answered rounds"
    using Cons.prems(1) by (simp_all add: rounds_answered_def r tick)
  from Cons.IH [OF a(3) apart(2) tracked_round [OF K L a(1,2) Cons.prems(3) apart(1)]]
  show ?case by (simp add: r tick)
qed auto

section \<open>Lemmas: a handling and the ledger\<close>

definition settle_trace :: "fields \<Rightarrow> ledger_event list \<Rightarrow> bool" where
  "settle_trace vs es \<longleftrightarrow>
     filter (\<lambda>e. e \<noteq> Elsewhere) es = [] \<or>
     (\<exists>j f payer amount ok. parse_job vs = Inr j \<and> parse_address (jb_payer j) = Inr payer \<and>
        big_set_string (jb_amount j) = Some amount \<and> filter (\<lambda>e. e \<noteq> Elsewhere) es = [Released f payer amount ok])"

lemma settle_end_run:
  assumes L: "stream_laws R" and v: "rd_view R s1 = rd_view R s"
    and a: "ack R w i out (settle_release C R w j s1) = (s', v)"
    and j: "case j of None \<Rightarrow> True | Some j' \<Rightarrow> parse_job vs = Inr j'"
  shows "\<exists>es. ledger_run C R c (hw_release_ms w) s (map (Pair (hw_release_ms w)) es) s' \<and> settle_trace vs es"
proof -
  let ?t = "hw_release_ms w"
  obtain es where es: "ledger_run C R c ?t s1 (map (Pair ?t) es) (settle_release C R w j s1)" "releases j es"
    using settle_release_run [of C R c w s1 j] by blast
  have first: "ledger_step C R c ?t s Elsewhere s1" by (rule step_elsewhere) (simp add: v)
  have "ledger_run C R c ?t s1 (map (Pair ?t) es @ [(?t, Elsewhere)]) s'"
    by (rule ledger.run_join [OF es(1) ledger.run_one [OF ack_run [OF L a]]]) auto
  then have "ledger_run C R c ?t s (map (Pair ?t) (Elsewhere # es @ [Elsewhere])) s'"
    using first by (auto intro: run_cons)
  moreover have "settle_trace vs (Elsewhere # es @ [Elsewhere])"
    using es(2) j by (auto simp: settle_trace_def releases_def split: option.splits)
  ultimately show ?thesis by blast
qed

lemma handle_run:
  assumes L: "stream_laws R" and h: "handle_job C R S w msg s = (s', v)"
  shows "\<exists>es. ledger_run C R c (hw_release_ms w) s (map (Pair (hw_release_ms w)) es) s' \<and> settle_trace (snd msg) es"
  using h
proof (cases rule: handle_cases)
  case Left
  then show ?thesis by (intro exI [of _ "[]"]) (simp add: settle_trace_def run_nil)
next
  case (Done j pp out)
  show ?thesis
    by (rule settle_end_run [OF L refl Done(3) [unfolded finish_job_def]]) (simp add: Done)
next
  case (Dead j out why)
  from L Dead(1) show ?thesis
  proof (cases rule: dead_cases)
    case Lost
    then have "ledger_step C R c (hw_release_ms w) s Elsewhere s'" by (intro step_elsewhere) simp
    from ledger.run_one [OF this] show ?thesis
      by (intro exI [of _ "[Elsewhere]"]) (simp add: settle_trace_def)
  next
    case (Written s1)
    show ?thesis by (rule settle_end_run [OF L Written(1) Written(4) Dead(3)])
  qed
qed

section \<open>A job to handle\<close>

definition demo_settler :: settler where
  "demo_settler = \<lparr>sl_facilitators = [''eip155:72344''], sl_rpcs = [''eip155:72344''], sl_group = [], sl_block = 0,
     sl_count = 0, sl_claimEvery = 0, sl_minIdle = 0, sl_maxDeliveries = 1, sl_settleTimeout = 0\<rparr>"

definition demo_handling :: handling where
  "demo_handling = \<lparr>hw_clock = 0, hw_dead_clock = 0, hw_list_ms = 0, hw_dead_ms = 0, hw_release_ms = 0, hw_ack_ms = 0,
     hw_list_fault = Answered, hw_dead_fault = Answered, hw_release_fault = Answered, hw_ack_fault = Answered,
     hw_facilitator = (\<lambda>_ _ _. Inl (PlainError ''timeout'')), hw_rpc = (\<lambda>_ _. Inl (PlainError ''timeout'')),
     hw_waited = True, hw_err_text = []\<rparr>"

definition demo_pass :: "int \<Rightarrow> pass" where
  "demo_pass t = \<lparr>ps_ms = t, ps_fault = Answered, ps_jobs = (\<lambda>_. demo_handling)\<rparr>"

text \<open>An entry with no fields, delivered once and left\<close>

definition demo_pending :: mem where
  "demo_pending = (Map.empty, (\<lambda>_. empty_stream)(SettleStream :=
     \<lparr>sm_entries = [(0, [])], sm_next = 1, sm_delivered = 1, sm_pending = [(0, 1, 0)]\<rparr>))"

lemma demo_pending_stream:
  "rd_stream mem_redis demo_pending SettleStream =
     \<lparr>sm_entries = [(0, [])], sm_next = 1, sm_delivered = 1, sm_pending = [(0, 1, 0)]\<rparr>"
  by (simp add: mem_redis_def demo_pending_def)

lemma demo_pending_ok: "within_limit demo_settler (rd_stream mem_redis demo_pending SettleStream)"
  by (simp add: demo_pending_stream within_limit_def stream_ok_def max_deliveries_def demo_settler_def)

lemma demo_pass_answered: "pass_answered (demo_pass t)"
  by (simp add: pass_answered_def demo_pass_def answering_def demo_handling_def)

lemma mem_laws: "key_laws mem_redis" "stream_laws mem_redis"
  using mem_redis_laws by (simp_all add: redis_laws_def)

lemma demo_malformed: "parse_job [] = Inl BadValidBefore"
  by code_simp

section \<open>Properties\<close>

text \<open>
  C21: no job is lost.  A pending job that a handling takes off the pending list was settled by
  the facilitator with a 2xx answer, or the chain says its nonce is used, or the facilitator
  refused it for good with a 4xx that is not its empty wallet pool; or it is in the
  dead-letter stream, every field of it with the reason, the outcome and the time.
\<close>

theorem no_job_is_lost:
  assumes "key_laws R" "stream_laws R" "handle_job C R S w (i, vs) s = (s', v)"
    and "sm_deliveries i (rd_stream R s SettleStream) \<noteq> None" "sm_deliveries i (rd_stream R s' SettleStream) = None"
  shows "(\<exists>j pp. parse_job vs = Inr j \<and> decode_payment_payload (jb_payment j) = Inr pp \<and>
      (unix (hw_clock w) < jb_validBefore j \<and>
         (\<exists>resp. fac_settle (hw_facilitator w (jb_network j)) pp (jb_requirements j) = (resp, None) \<and> sr_success resp) \<or>
       used_on_chain C (hw_rpc w (jb_network j)) pp = Some True \<or>
       unix (hw_clock w) < jb_validBefore j \<and>
         (\<exists>resp st body. fac_settle (hw_facilitator w (jb_network j)) pp (jb_requirements j) =
            (resp, Some (FacStatus st body)) \<and> 400 \<le> st \<and> st < 500 \<and> \<not> str_contains body no_wallets))) \<or>
    (\<exists>why out. out \<in> {DeadLettered, ExpiredUnsettled} \<and>
       dead_values vs why out (hw_dead_clock w) \<in> snd ` set (sm_entries (rd_stream R s' DeadStream)))"
  using assms(3)
proof (cases rule: handle_cases)
  case Left
  with assms(4,5) show ?thesis by simp
next
  case (Done j pp out)
  then show ?thesis by (cases out) (auto simp: finished_because_def)
next
  case (Dead j out why)
  have "dead_lettered R s' w vs why out"
    using dead_effect(2) [OF assms(1,2) Dead(1)] assms(4,5) by auto
  with Dead(2) show ?thesis unfolding dead_lettered_def by blast
qed

theorem no_job_is_lost_witness:
  "\<exists>s' v why out. handle_job demo_crypto mem_redis demo_settler demo_handling (0, []) demo_pending = (s', v) \<and>
     dead_values [] why out 0 \<in> snd ` set (sm_entries (rd_stream mem_redis s' DeadStream))"
proof -
  obtain s' v where h: "handle_job demo_crypto mem_redis demo_settler demo_handling (0, []) demo_pending = (s', v)"
    by fastforce
  have d: "dead demo_crypto mem_redis demo_handling (0, []) None DeadLettered [] demo_pending = (s', v)"
    using h by (simp add: handle_job_def demo_malformed demo_handling_def)
  have "sm_deliveries 0 (rd_stream mem_redis s' SettleStream) = None"
    using dead_effect(2,3) [OF mem_laws d] by (auto simp: demo_handling_def deliveries_xack_set)
  moreover have "sm_deliveries 0 (rd_stream mem_redis demo_pending SettleStream) \<noteq> None"
    by (simp add: demo_pending_stream sm_deliveries_def)
  ultimately have "\<exists>why out. dead_values [] why out (hw_dead_clock demo_handling) \<in>
      snd ` set (sm_entries (rd_stream mem_redis s' DeadStream))"
    using no_job_is_lost [OF mem_laws h] by (auto simp: demo_malformed)
  with h show ?thesis by (simp add: demo_handling_def)
qed

text \<open>
  C23: the delivery limit is kept.  Whatever the settler reads, claims and handles, if Redis
  answers its calls then no job stays pending with more deliveries than the limit: the
  delivery above it ends the job.
\<close>

theorem deliveries_stay_within_the_limit:
  assumes "key_laws R" "stream_laws R" "rounds_answered rounds" "within_limit S (rd_stream R s SettleStream)"
  shows "within_limit S (rd_stream R (run_loop C R S rounds s) SettleStream)"
  using assms by (rule run_within)

lemma demo_rounds:
  "rounds_answered [(Some [demo_pass 60000], demo_pass 60001)]"
  "claims_apart demo_settler 0 [(Some [demo_pass 60000], demo_pass 60001)]"
  by (simp_all add: rounds_answered_def demo_pass_answered)
    (simp add: demo_pass_def min_idle_def demo_settler_def DefaultMinIdle_def millis_def)

theorem deliveries_stay_within_the_limit_witness:
  "within_limit demo_settler (rd_stream mem_redis
      (run_loop demo_crypto mem_redis demo_settler [(Some [demo_pass 60000], demo_pass 60001)] demo_pending) SettleStream)"
  by (rule deliveries_stay_within_the_limit [OF mem_laws demo_rounds(1) demo_pending_ok])

text \<open>
  C22: no job is retried for ever.  A job among the first hundred pending, with \<open>n\<close> deliveries,
  is off the pending list after \<open>max_deliveries - n + 1\<close> rounds that begin with a claim at
  least \<open>MinIdle\<close> after the last, whatever the facilitator and the node answer.
\<close>

theorem stuck_job_leaves_the_pending_list:
  assumes "key_laws R" "stream_laws R" "rounds_answered rounds" "claims_apart S t rounds"
    and "within_limit S (rd_stream R s SettleStream)" "(i, n, t) \<in> set (take 100 (sm_pending (rd_stream R s SettleStream)))"
    and "max_deliveries S < int n + int (length rounds)"
  shows "sm_deliveries i (rd_stream R (run_loop C R S rounds s) SettleStream) = None"
proof -
  let ?st' = "rd_stream R (run_loop C R S rounds s) SettleStream"
  have ok: "stream_ok (rd_stream R s SettleStream)" using assms(5) by (simp add: within_limit_def)
  have "i < sm_delivered (rd_stream R s SettleStream)"
    using ok assms(6) by (fastforce simp: stream_ok_def dest: in_set_takeD)
  from tracked_here [OF ok this assms(6) order_refl order_refl]
  obtain u where "tracked i (n + length rounds) u ?st'" using tracked_run [OF assms(1-4)] by blast
  moreover have w': "within_limit S ?st'" by (rule run_within [OF assms(1-3,5)])
  ultimately have "i \<notin> fst ` set (sm_pending ?st')"
    using assms(7) by (elim trackedE) (fastforce simp: within_limit_def dest: in_set_takeD)+
  then show ?thesis by (simp add: sm_deliveries_def map_of_eq_None_iff)
qed

theorem stuck_job_leaves_the_pending_list_witness:
  "sm_deliveries 0 (rd_stream mem_redis demo_pending SettleStream) = Some 1 \<and>
   sm_deliveries 0 (rd_stream mem_redis
     (run_loop demo_crypto mem_redis demo_settler [(Some [demo_pass 60000], demo_pass 60001)] demo_pending) SettleStream) = None"
proof -
  have "sm_deliveries 0 (rd_stream mem_redis
     (run_loop demo_crypto mem_redis demo_settler [(Some [demo_pass 60000], demo_pass 60001)] demo_pending) SettleStream) = None"
    by (rule stuck_job_leaves_the_pending_list [OF mem_laws demo_rounds demo_pending_ok, where n = 1])
      (simp_all add: demo_pending_stream max_deliveries_def demo_settler_def)
  then show ?thesis by (simp only: demo_pending_stream) (simp add: sm_deliveries_def)
qed

text \<open>
  C25: to the ledger a handling is at most one release, of the job's own payer and amount:
  the settler neither reserves nor touches another payer's sum.
\<close>

theorem settling_only_releases:
  assumes "stream_laws R" "handle_job C R S w msg s = (s', v)"
  shows "\<exists>es. ledger_run C R c (hw_release_ms w) s (map (Pair (hw_release_ms w)) es) s' \<and>
    (filter (\<lambda>e. e \<noteq> Elsewhere) es = [] \<or>
     (\<exists>j f payer amount ok. parse_job (snd msg) = Inr j \<and> parse_address (jb_payer j) = Inr payer \<and>
        big_set_string (jb_amount j) = Some amount \<and>
        filter (\<lambda>e. e \<noteq> Elsewhere) es = [Released f payer amount ok]))"
  using handle_run [OF assms, of c] by (auto simp: settle_trace_def)

theorem settling_only_releases_witness:
  "\<exists>s' v es. handle_job demo_crypto mem_redis demo_settler demo_handling (0, []) demo_pending = (s', v) \<and>
     ledger_run demo_crypto mem_redis demo_cfg 0 demo_pending (map (Pair 0) es) s' \<and> filter (\<lambda>e. e \<noteq> Elsewhere) es = []"
proof -
  obtain s' v where h: "handle_job demo_crypto mem_redis demo_settler demo_handling (0, []) demo_pending = (s', v)"
    by fastforce
  with settling_only_releases [OF mem_laws(2) h, of demo_cfg] show ?thesis
    by (simp add: demo_malformed demo_handling_def)
qed

lemma answered_release:
  assumes R: "key_laws R" "stream_laws R" and ok: "counter_ok (rd_view R s t) (inflight_key C payer)"
    and j: "parse_address (jb_payer j) = Inr payer" "big_set_string (jb_amount j) = Some a"
    and a: "0 < a" "a \<le> MaxExact" and w: "hw_release_fault w = Answered" "hw_release_ms w = t"
    and f: "finish_job C R w i j out s = (s', v)"
  shows "rd_view R s' t = release_view (rd_view R s t) (inflight_key C payer) a"
proof -
  obtain s1 r where r: "release_script R t (inflight_key C payer) (int_str a) s = (s1, Inr r)"
    "rd_view R s1 t = release_view (rd_view R s t) (inflight_key C payer) a"
    by (rule release_script_spec [OF R(1) refl ok a])
  have "ack R w i out s1 = (s', v)"
    using f j w r(1) by (simp add: finish_job_def settle_release_def release_def)
  from ack_effect(1) [OF R(2) this] r(2) show ?thesis by simp
qed

lemma release_view_inflight:
  assumes "counter_ok v k" "0 < a"
  shows "counter_ok (release_view v k a) k" "inflight_of (release_view v k a) k = max 0 (inflight_of v k - a)"
proof -
  have "counter_ok (release_view v k a) k \<and> inflight_of (release_view v k a) k = max 0 (inflight_of v k - a)"
    using assms(1)
  proof (cases rule: counter_okE)
    case 1
    then show ?thesis using assms(2) by (simp add: release_view_def counter_ok_def inflight_of_def)
  next
    case (2 n e)
    show ?thesis
    proof (cases "n \<le> a")
      case True
      then show ?thesis using 2 by (simp add: release_view_def counter_ok_def inflight_of_def)
    next
      case False
      then have "is_int64 (n - a)" using 2 assms(2) by (intro exact_int64) auto
      with False 2 assms(2) show ?thesis
        by (auto simp: release_view_def counter_ok_def inflight_of_def parse_int64_int_str)
    qed
  qed
  then show "counter_ok (release_view v k a) k" "inflight_of (release_view v k a) k = max 0 (inflight_of v k - a)"
    by simp_all
qed

text \<open>A job the facilitator settles in time\<close>

lemma live_job_is_settled:
  assumes "key_laws R" "stream_laws R" "parse_job vs = Inr j" "decode_payment_payload (jb_payment j) = Inr pp"
    and "jb_network j \<in> set (sl_facilitators S)" "jb_network j \<in> set (sl_rpcs S)"
    and "deliveries R w i s \<le> max_deliveries S" "unix (hw_clock w) < jb_validBefore j"
    and "fac_settle (hw_facilitator w (jb_network j)) pp (jb_requirements j) = (resp, None)" "sr_success resp"
    and "hw_release_fault w = Answered" "hw_ack_fault w = Answered"
    and "parse_address (jb_payer j) = Inr payer" "big_set_string (jb_amount j) = Some a" "0 < a" "a \<le> MaxExact"
    and "counter_ok (rd_view R s (hw_release_ms w)) (inflight_key C payer)"
    and "handle_job C R S w (i, vs) s = (s', v)"
  shows "v = Acked Settled" "sm_deliveries i (rd_stream R s' SettleStream) = None"
    "inflight_of (rd_view R s' (hw_release_ms w)) (inflight_key C payer) =
       max 0 (inflight_of (rd_view R s (hw_release_ms w)) (inflight_key C payer) - a)"
proof -
  have f: "finish_job C R w i j Settled s = (s', v)"
    using assms(3-10,18) by (simp add: handle_job_def Let_def settle_attempt_def)
  from finish_job_effect(2,4) [OF assms(1,2) f] assms(12)
  show "v = Acked Settled" "sm_deliveries i (rd_stream R s' SettleStream) = None"
    by (auto simp: deliveries_xack_set)
  show "inflight_of (rd_view R s' (hw_release_ms w)) (inflight_key C payer) =
       max 0 (inflight_of (rd_view R s (hw_release_ms w)) (inflight_key C payer) - a)"
    unfolding answered_release [OF assms(1,2,17,13,14,15,16,11) refl f]
    by (rule release_view_inflight(2) [OF assms(17,15)])
qed

text \<open>A claim that finds one job idle long enough\<close>

lemma sole_entry: "sorted_wrt (<) (map fst es) \<Longrightarrow> (i, x) \<in> set es \<Longrightarrow> filter (\<lambda>e. fst e = (i::nat)) es = [(i, x)]"
proof (induction es)
  case (Cons e es)
  show ?case
  proof (cases "fst e = i")
    case True
    then have "filter (\<lambda>e. fst e = i) es = []" using Cons.prems(1) by (auto simp: filter_empty_conv)
    moreover have "e = (i, x)" using True Cons.prems by force
    ultimately show ?thesis by simp
  qed (use Cons in auto)
qed simp

lemma claimed_alone:
  assumes "stream_laws R" "stream_ok (rd_stream R s k)" "(i, vs) \<in> set (sm_entries (rd_stream R s k))"
    and "sm_idle t idle 0 (rd_stream R s k) = [i]" "sm_deliveries i (rd_stream R s k) = Some n"
    and "rd_claim R s t k idle 0 100 = (s1, msgs, nxt)"
  shows "msgs = [(i, vs)]" "sm_deliveries i (rd_stream R s1 k) = Some (Suc n)" "rd_view R s1 = rd_view R s"
proof -
  note c = law_claim [OF assms(1,6), unfolded assms(4)]
  show "msgs = [(i, vs)]"
    using c(2) sole_entry [OF _ assms(3)] assms(2) by (simp add: sm_claim_def stream_ok_def)
  have "(i, n, u) \<in> set (sm_pending (rd_stream R s k)) \<Longrightarrow>
      (i, Suc n, t) \<in> set (sm_pending (fst (sm_claim t [i] (rd_stream R s k))))" for u
    using assms(3) by (force simp: sm_claim_def)
  then show "sm_deliveries i (rd_stream R s1 k) = Some (Suc n)"
    using c(1) assms(5) by (auto simp: sm_deliveries_iff [OF assms(2)] sm_deliveries_iff [OF claim_ok [OF assms(2)]])
  show "rd_view R s1 = rd_view R s" by (rule c(3))
qed

lemma settled_in_full:
  assumes "handle_job C R S w (i, vs) s = (s1, Unacked Settled)" "parse_job vs = Inr j"
  shows "finish_job C R w i j Settled s = (s1, Unacked Settled)"
    "jb_network j \<in> set (sl_facilitators S)" "jb_network j \<in> set (sl_rpcs S)"
proof -
  have d: "dead C R w m j' out why s \<noteq> (s1, Unacked Settled)" if "out \<noteq> Settled" for m j' out why
    using that by (auto simp: dead_def ack_def split: option.splits prod.splits)
  have f: "finish_job C R w i j out s \<noteq> (s1, Unacked Settled)" if "out \<noteq> Settled" for out
    using that by (auto simp: finish_job_def ack_def split: option.splits prod.splits)
  show "finish_job C R w i j Settled s = (s1, Unacked Settled)"
    "jb_network j \<in> set (sl_facilitators S)" "jb_network j \<in> set (sl_rpcs S)"
    using assms by (auto simp: handle_job_def settle_attempt_def Let_def d f
        split: sum.splits prod.splits if_splits option.splits bool.splits)
qed

text \<open>A job the chain knows already is finished, in time or not.\<close>

lemma used_job_is_finished:
  assumes "parse_job vs = Inr j" "decode_payment_payload (jb_payment j) = Inr pp"
    and "jb_network j \<in> set (sl_facilitators S)" "jb_network j \<in> set (sl_rpcs S)"
    and "deliveries R w i s \<le> max_deliveries S" "used_on_chain C (hw_rpc w (jb_network j)) pp = Some True"
    and "jb_validBefore j \<le> unix (hw_clock w) \<or>
      hw_waited w \<and> \<not> (case fac_settle (hw_facilitator w (jb_network j)) pp (jb_requirements j) of
        (resp, err) \<Rightarrow> err = None \<and> sr_success resp)"
  shows "handle_job C R S w (i, vs) s = finish_job C R w i j SettledOnChain s"
  using assms by (auto simp: handle_job_def settle_attempt_def Let_def split: prod.splits)

text \<open>
  C26: a job whose acknowledgement is lost is released again when it comes back.  The settler
  settled it and released what it held, and its acknowledgement did not reach Redis.  In any
  later state in which the entry is still pending, and idle for the claim's minimum, the next
  claim delivers it again: the facilitator settles no payment twice, or \<open>validBefore\<close> has passed,
  the chain says that the nonce is used, and the same amount comes off the payer's in-flight
  sum a second time, whatever the payer has in flight by then.
\<close>

theorem unacknowledged_job_is_released_again:
  assumes "key_laws R" "stream_laws R"
    and job: "parse_job vs = Inr j" "parse_address (jb_payer j) = Inr payer" "big_set_string (jb_amount j) = Some a"
      "0 < a" "a \<le> MaxExact"
    and first: "handle_job C R S w (i, vs) s = (s1, Unacked Settled)" "hw_ack_fault w = NotRun"
      "hw_release_fault w = Answered" "counter_ok (rd_view R s (hw_release_ms w)) (inflight_key C payer)"
    and pending: "stream_ok (rd_stream R s2 SettleStream)" "(i, vs) \<in> set (sm_entries (rd_stream R s2 SettleStream))"
      "sm_deliveries i (rd_stream R s2 SettleStream) = Some n" "int (Suc n) \<le> max_deliveries S"
      "sm_idle (ps_ms p) (millis (min_idle S)) 0 (rd_stream R s2 SettleStream) = [i]"
    and again: "ps_fault p = Answered" "answering (ps_jobs p i)" "hw_release_fault (ps_jobs p i) = Answered"
      "counter_ok (rd_view R s2 (hw_release_ms (ps_jobs p i))) (inflight_key C payer)"
      "decode_payment_payload (jb_payment j) = Inr pp"
      "used_on_chain C (hw_rpc (ps_jobs p i) (jb_network j)) pp = Some True"
      "jb_validBefore j \<le> unix (hw_clock (ps_jobs p i)) \<or>
       hw_waited (ps_jobs p i) \<and> \<not> (case fac_settle (hw_facilitator (ps_jobs p i) (jb_network j)) pp (jb_requirements j) of
         (resp, err) \<Rightarrow> err = None \<and> sr_success resp)"
  shows "rd_stream R s1 SettleStream = rd_stream R s SettleStream \<and>
    inflight_of (rd_view R s1 (hw_release_ms w)) (inflight_key C payer) =
      max 0 (inflight_of (rd_view R s (hw_release_ms w)) (inflight_key C payer) - a) \<and>
    (\<exists>s3. claim_jobs C R S [p] 0 s2 = (s3, [(i, Acked SettledOnChain)]) \<and>
       sm_deliveries i (rd_stream R s3 SettleStream) = None \<and>
       inflight_of (rd_view R s3 (hw_release_ms (ps_jobs p i))) (inflight_key C payer) =
         max 0 (inflight_of (rd_view R s2 (hw_release_ms (ps_jobs p i))) (inflight_key C payer) - a))"
proof -
  let ?k = "inflight_key C payer" and ?w = "ps_jobs p i"
  have f1: "finish_job C R w i j Settled s = (s1, Unacked Settled)"
    and net: "jb_network j \<in> set (sl_facilitators S)" "jb_network j \<in> set (sl_rpcs S)"
    using settled_in_full [OF first(1)] job(1) by simp_all
  have "rd_stream R s1 SettleStream = rd_stream R s SettleStream"
    using f1 first(2) assms(1) by (auto simp: finish_job_def ack_def)
  moreover have "inflight_of (rd_view R s1 (hw_release_ms w)) ?k = max 0 (inflight_of (rd_view R s (hw_release_ms w)) ?k - a)"
    unfolding answered_release [OF assms(1,2) first(4) job(2-5) first(3) refl f1]
    by (rule release_view_inflight(2) [OF first(4) job(4)])
  moreover obtain sc msgs nxt where c: "rd_claim R s2 (ps_ms p) SettleStream (millis (min_idle S)) 0 100 = (sc, msgs, nxt)"
    using prod_cases3 by blast
  note got = claimed_alone [OF assms(2) pending(1,2,5,3) c]
  obtain s3 v where f3: "finish_job C R ?w i j SettledOnChain sc = (s3, v)" by fastforce
  have "deliveries R ?w i sc \<le> max_deliveries S"
    using got(2) pending(4) again(2) by (simp add: deliveries_def answering_def law_deliveries [OF assms(2)])
  from used_job_is_finished [OF job(1) again(5) net this again(6,7)] f3
  have h: "handle_job C R S ?w (i, vs) sc = (s3, v)" by simp
  have v: "v = Acked SettledOnChain" "sm_deliveries i (rd_stream R s3 SettleStream) = None"
    using finish_job_effect(2,4) [OF assms(1,2) f3] again(2) by (auto simp: answering_def deliveries_xack_set)
  have "counter_ok (rd_view R sc (hw_release_ms ?w)) ?k" using again(4) got(3) by simp
  note r = answered_release [OF assms(1,2) this job(2-5) again(3) refl f3]
    release_view_inflight(2) [OF this job(4)]
  have "claim_jobs C R S [p] 0 s2 = (s3, [(i, Acked SettledOnChain)])"
    using c got(1) h v(1) again(1) by simp
  ultimately show ?thesis using v(2) r got(3) by (intro conjI exI [of _ s3]) simp_all
qed

definition demo_wire :: authorization_wire where
  "demo_wire = \<lparr>w_from = SBC, w_to = SBC, w_value = ''1000'', w_validAfter = ''0'', w_validBefore = ''60'',
     w_nonce = ''0x'' @ replicate 64 (CHR ''1'')\<rparr>"

definition demo_settled :: payment_payload where
  "demo_settled = zero_payment_payload
     \<lparr>pp_version := 2, pp_payload := Some (enc_eip3009 \<lparr>e_signature = ''0x'', e_authorization = demo_wire\<rparr>),
      pp_accepted := zero_requirements\<lparr>rq_scheme := ''exact'', rq_network := ''eip155:1''\<rparr>\<rparr>"

lemma demo_settled_ok:
  "ok_payload demo_settled" "pp_version demo_settled = x402_version"
  "rq_scheme (pp_accepted demo_settled) \<noteq> []" "rq_network (pp_accepted demo_settled) \<noteq> []"
  "is_json_object (pp_payload demo_settled)"
  by code_simp+

lemma demo_settled_size: "length (encode_payment_payload demo_settled) \<le> max_header_bytes"
proof -
  have "json_size (enc_payment_payload demo_settled) \<le> 4000" by code_simp
  then show ?thesis
    using length_encode_header [OF wf_enc_payload [OF demo_settled_ok(1)]]
    by (simp add: encode_payment_payload_def max_header_bytes_def)
qed

lemma demo_settled_auth: "is_ok (parse_authorization demo_wire)"
  by code_simp

lemma demo_settled_eip3009: "eip3009_of demo_settled = Inr \<lparr>e_signature = ''0x'', e_authorization = demo_wire\<rparr>"
  by (rule eip3009_of_enc) (simp_all add: demo_settled_def demo_wire_def SBC_def)

text \<open>A node that answers whether the nonce is used\<close>

definition chain_word :: "bool \<Rightarrow> string" where
  "chain_word b = ''{\"result\":\"0x'' @ replicate 63 (CHR ''0'') @ (if b then ''1'' else ''0'') @ ''\"}''"

lemma demo_chain_word:
  "Option.bind (decode_stream (chain_word b)) (dec_struct [''result'', ''error''] set_envelope
     \<lparr>en_result = None, en_error = None\<rparr>) =
   Some \<lparr>en_result = Some (JStr (''0x'' @ replicate 63 (CHR ''0'') @ (if b then ''1'' else ''0''))), en_error = None\<rparr>"
  by (cases b; simp only: if_True if_False; code_simp)

lemma demo_node: "used_on_chain demo_crypto (\<lambda>_. Inr (200, chain_word b)) demo_settled = Some b"
proof -
  obtain a where a: "parse_authorization demo_wire = Inr a" using demo_settled_auth by (auto simp: is_ok_iff)
  let ?h = "replicate 63 (CHR ''0'') @ (if b then ''1'' else ''0'')"
  have "hex_decode ?h = Some (replicate 31 0 @ [if b then 1 else 0])" by (cases b; simp only: if_True if_False; code_simp)
  moreover have "trim_prefix (''0x'' @ ?h) ''0x'' = ?h" by (cases b; simp only: if_True if_False; code_simp)
  moreover have "be_val (replicate 31 0 @ [if b then 1 else 0]) = (if b then 1 else 0)"
    by (cases b; simp only: if_True if_False; code_simp)
  ultimately show ?thesis
    using a demo_chain_word [of b]
    by (simp add: used_on_chain_def demo_settled_eip3009 authorization_state_def call32_def rpc_call_def)
qed

text \<open>
  C24: an expired job is resolved.  Past \<open>validBefore\<close>, when the node answers and Redis does,
  the job is acknowledged: as settled when the chain says the nonce is used, and otherwise
  in the dead-letter stream as expired.
\<close>

theorem expired_job_is_resolved:
  assumes "key_laws R" "stream_laws R" "parse_job vs = Inr j" "decode_payment_payload (jb_payment j) = Inr pp"
    and "jb_network j \<in> set (sl_facilitators S)" "jb_network j \<in> set (sl_rpcs S)"
    and "deliveries R w i s \<le> max_deliveries S" "jb_validBefore j \<le> unix (hw_clock w)"
    and "used_on_chain C (hw_rpc w (jb_network j)) pp = Some b"
    and "hw_dead_fault w = Answered" "hw_ack_fault w = Answered"
    and "handle_job C R S w (i, vs) s = (s', v)"
  shows "v = Acked (if b then SettledOnChain else ExpiredUnsettled) \<and>
    sm_deliveries i (rd_stream R s' SettleStream) = None \<and>
    (b \<or> dead_values vs ''validBefore has passed; nothing can settle it now'' ExpiredUnsettled (hw_dead_clock w)
       \<in> snd ` set (sm_entries (rd_stream R s' DeadStream)))"
proof (cases b)
  case True
  then have "finish_job C R w i j SettledOnChain s = (s', v)" using assms by (simp add: handle_job_def Let_def)
  from finish_job_effect(2,4) [OF assms(1,2) this] assms(11) True show ?thesis
    by (auto simp: deliveries_xack_set)
next
  case False
  then have "dead C R w (i, vs) (Some j) ExpiredUnsettled ''validBefore has passed; nothing can settle it now'' s = (s', v)"
    using assms by (simp add: handle_job_def Let_def)
  from dead_effect(2,3) [OF assms(1,2) this] assms(10,11) False show ?thesis
    by (auto simp: deliveries_xack_set dead_lettered_def)
qed

definition demo_paid_job :: job where
  "demo_paid_job = \<lparr>jb_paymentId = ''id'', jb_payer = SBC, jb_route = [], jb_amount = ''1000'', jb_network = ''eip155:72344'',
     jb_validBefore = 60, jb_payment = ''x'', jb_requirements = zero_requirements, jb_servedAt = 0\<rparr>"

definition demo_expired :: job where
  "demo_expired = demo_paid_job\<lparr>jb_payment := encode_payment_payload demo_settled\<rparr>"

lemma demo_expired_job:
  "parse_job (job_fields demo_expired) = Inr demo_expired"
  "decode_payment_payload (jb_payment demo_expired) = Inr demo_settled"
proof -
  have d: "decode_payment_payload (encode_payment_payload demo_settled) = Inr demo_settled"
    by (rule payload_roundtrip [OF demo_settled_ok demo_settled_size])
  then show "decode_payment_payload (jb_payment demo_expired) = Inr demo_settled" by (simp add: demo_expired_def)
  have "\<not> is_ok (decode_payment_payload [])" by code_simp
  with d have "encode_payment_payload demo_settled \<noteq> []" by auto
  then have "parse_job (job_fields demo_expired) =
      Inr (demo_expired\<lparr>jb_servedAt := unix_milli (jb_servedAt demo_expired) * msec\<rparr>)"
    by (intro parse_job_fields) (simp_all add: demo_expired_def demo_paid_job_def is_int64_def unix_milli_def
        ok_requirements_def zero_requirements_def ascii_def SBC_def)
  then show "parse_job (job_fields demo_expired) = Inr demo_expired"
    by (simp add: demo_expired_def demo_paid_job_def unix_milli_def)
qed

theorem expired_job_is_resolved_witness:
  "\<exists>s'. handle_job demo_crypto mem_redis demo_settler
      (demo_handling\<lparr>hw_clock := 60 * nsec, hw_rpc := (\<lambda>_ _. Inr (200, chain_word False))\<rparr>) (0, job_fields demo_expired) demo_pending
     = (s', Acked ExpiredUnsettled)"
proof -
  let ?w = "demo_handling\<lparr>hw_clock := 60 * nsec, hw_rpc := (\<lambda>_ _. Inr (200, chain_word False))\<rparr>"
  obtain s' v where h: "handle_job demo_crypto mem_redis demo_settler ?w (0, job_fields demo_expired) demo_pending = (s', v)"
    by fastforce
  have "deliveries mem_redis ?w 0 demo_pending \<le> max_deliveries demo_settler"
    using mem_laws(2) by (simp add: deliveries_def demo_handling_def law_deliveries demo_pending_stream sm_deliveries_def
        max_deliveries_def demo_settler_def)
  then have "v = Acked (if False then SettledOnChain else ExpiredUnsettled)"
    using expired_job_is_resolved [OF mem_laws demo_expired_job(1) _ _ _ _ _ _ _ _ h, of demo_settled False] demo_expired_job(2) demo_node
    by (simp add: demo_expired_def demo_paid_job_def demo_settler_def demo_handling_def unix_def)
  with h show ?thesis by simp
qed

text \<open>
  The same job, settled at once, its acknowledgement lost, claimed again after a minute: the payer
  reserved 2000 in between, of which 1000 is left on the sum.
\<close>

definition demo_delivered :: mem where
  "demo_delivered = (Map.empty(inflight_key demo_crypto SBCAddress \<mapsto> (RString (int_str 1000), Some 30000)),
     (\<lambda>_. empty_stream)(SettleStream :=
       \<lparr>sm_entries = [(0, job_fields demo_expired)], sm_next = 1, sm_delivered = 1, sm_pending = [(0, 1, 0)]\<rparr>))"

definition demo_unacked :: handling where
  "demo_unacked = demo_handling\<lparr>hw_facilitator := (\<lambda>_. demo_settle_http), hw_ack_fault := NotRun\<rparr>"

definition demo_again :: pass where
  "demo_again = \<lparr>ps_ms = 60000, ps_fault = Answered, ps_jobs = (\<lambda>_. demo_handling
     \<lparr>hw_clock := 60 * nsec, hw_release_ms := 60000, hw_rpc := (\<lambda>_ _. Inr (200, chain_word True))\<rparr>)\<rparr>"

lemma demo_delivered_view:
  "rd_view mem_redis demo_delivered 0 =
     Map.empty(inflight_key demo_crypto SBCAddress \<mapsto> (RString (int_str 1000), Some 30000))"
  "rd_stream mem_redis demo_delivered SettleStream =
     \<lparr>sm_entries = [(0, job_fields demo_expired)], sm_next = 1, sm_delivered = 1, sm_pending = [(0, 1, 0)]\<rparr>"
  by (simp_all add: mem_redis_def demo_delivered_def live_at_upd) (simp add: live_at_def)

lemma demo_delivered_counter: "counter_ok (rd_view mem_redis demo_delivered 0) (inflight_key demo_crypto SBCAddress)"
  by (auto simp: demo_delivered_view counter_ok_def MaxExact_def)

lemma demo_delivered_sum: "inflight_of (rd_view mem_redis demo_delivered 0) (inflight_key demo_crypto SBCAddress) = 1000"
  by (simp add: demo_delivered_view inflight_of_def parse_int64_int_str is_int64_def)

lemma demo_job_amount: "parse_address (jb_payer demo_expired) = Inr SBCAddress" "big_set_string (jb_amount demo_expired) = Some 1000"
proof -
  have "big_set_string ''1000'' = Some 1000" by code_simp
  then show "big_set_string (jb_amount demo_expired) = Some 1000" by (simp add: demo_expired_def demo_paid_job_def)
qed (simp add: demo_expired_def demo_paid_job_def parse_SBC)

lemma demo_first_handling:
  obtains s1 where "handle_job demo_crypto mem_redis (demo_settler\<lparr>sl_maxDeliveries := 0\<rparr>) demo_unacked
      (0, job_fields demo_expired) demo_delivered = (s1, Unacked Settled)"
    "rd_view mem_redis s1 0 = Map.empty" "rd_stream mem_redis s1 = rd_stream mem_redis demo_delivered"
proof -
  obtain sr where sr: "fac_settle demo_settle_http demo_settled (jb_requirements demo_expired) = (sr, None)" "sr_success sr"
    using demo_settle_answers(2) by blast
  have "deliveries mem_redis demo_unacked 0 demo_delivered = 1"
    using mem_laws(2) by (simp add: deliveries_def demo_unacked_def demo_handling_def law_deliveries demo_delivered_view
        sm_deliveries_def)
  then have "\<exists>s1. handle_job demo_crypto mem_redis (demo_settler\<lparr>sl_maxDeliveries := 0\<rparr>) demo_unacked
      (0, job_fields demo_expired) demo_delivered = (s1, Unacked Settled)"
    using sr demo_expired_job
    by (simp add: handle_job_def settle_attempt_def finish_job_def ack_def demo_unacked_def demo_handling_def unix_def
        demo_settler_def max_deliveries_def DefaultMaxDeliveries_def)
      (simp add: demo_expired_def demo_paid_job_def)
  then obtain s1 where h: "handle_job demo_crypto mem_redis (demo_settler\<lparr>sl_maxDeliveries := 0\<rparr>) demo_unacked
      (0, job_fields demo_expired) demo_delivered = (s1, Unacked Settled)" ..
  note f = settled_in_full(1) [OF h demo_expired_job(1)]
  have "rd_view mem_redis s1 0 = release_view (rd_view mem_redis demo_delivered 0) (inflight_key demo_crypto SBCAddress) 1000"
    by (rule answered_release [OF mem_laws demo_delivered_counter _ _ _ _ _ _ f])
      (simp_all add: demo_job_amount MaxExact_def demo_unacked_def demo_handling_def)
  then have "rd_view mem_redis s1 0 = Map.empty"
    unfolding release_view_def demo_delivered_sum by (simp add: demo_delivered_view)
  moreover have "rd_stream mem_redis s1 = rd_stream mem_redis demo_delivered"
    using f mem_laws(1) by (auto simp: finish_job_def ack_def demo_unacked_def)
  ultimately show thesis using h that by blast
qed

lemma demo_second_reserve:
  assumes "rd_view mem_redis s1 0 = Map.empty"
  obtains s2 q where "reserve demo_crypto mem_redis demo_cfg Answered (45 * nsec) 45000 SBCAddress [1] 2000 5000 (100 * nsec) s1
      = (s2, Inr (OutOK, Some q))"
    "rd_view mem_redis s2 60000 (inflight_key demo_crypto SBCAddress) = Some (RString (int_str 2000), Some 75000)"
    "rd_stream mem_redis s2 = rd_stream mem_redis s1"
proof -
  let ?k = "inflight_key demo_crypto SBCAddress"
  have v: "rd_view mem_redis s1 45000 = Map.empty"
    using assms law_time [OF mem_laws(1), of 0 45000 s1] by (auto simp: live_at_def)
  have i: "inflight_of (rd_view mem_redis s1 45000) ?k = 0" and c: "counter_ok (rd_view mem_redis s1 45000) ?k"
    by (simp_all add: v inflight_of_def counter_ok_def)
  obtain s2 where s2: "reserve demo_crypto mem_redis demo_cfg Answered (45 * nsec) 45000 SBCAddress [1] 2000 5000 (100 * nsec) s1 =
       (s2, Inr (reserve_result SBCAddress [1] 2000 (inflight_of (rd_view mem_redis s1 45000) ?k)
          (reserve_code (rd_view mem_redis s1 45000) (nonce_key demo_crypto SBCAddress [1]) ?k 2000 (clamp_balance 5000))))"
    "rd_view mem_redis s2 45000 = reserve_view (rd_view mem_redis s1 45000) 45000 (nonce_key demo_crypto SBCAddress [1]) ?k 2000
       (clamp_balance 5000) (millis (nonce_ttl demo_cfg (45 * nsec) (100 * nsec))) (millis (inflight_ttl demo_cfg))"
    "rd_stream mem_redis s2 = rd_stream mem_redis s1"
    by (rule reserve_answered [OF mem_laws(1) c _ _ demo_cfg_ttl, where a = 2000 and b = 5000 and n = "[1]"
          and clock = "45 * nsec" and x = "100 * nsec"]) (simp_all add: MaxExact_def)
  have code: "reserve_code (rd_view mem_redis s1 45000) (nonce_key demo_crypto SBCAddress [1]) ?k 2000 (clamp_balance 5000) = 0"
    by (simp add: reserve_code_def v inflight_of_def clamp_balance_def MaxExact_def)
  have "rd_view mem_redis s2 45000 ?k = Some (RString (int_str 2000), Some 75000)"
    unfolding s2(2) reserve_view_def code
    by (simp add: i demo_cfg_def inflight_ttl_def DefaultInflightTTL_def millis_def)
  then have "rd_view mem_redis s2 60000 ?k = Some (RString (int_str 2000), Some 75000)"
    using law_time [OF mem_laws(1), of 45000 60000 s2] by (simp add: live_at_def)
  with s2 show thesis using that by (simp add: code reserve_result_def)
qed

theorem unacknowledged_job_is_released_again_witness:
  "\<exists>s1 s2 q s3. handle_job demo_crypto mem_redis (demo_settler\<lparr>sl_maxDeliveries := 0\<rparr>) demo_unacked
      (0, job_fields demo_expired) demo_delivered = (s1, Unacked Settled) \<and>
    reserve demo_crypto mem_redis demo_cfg Answered (45 * nsec) 45000 SBCAddress [1] 2000 5000 (100 * nsec) s1
      = (s2, Inr (OutOK, Some q)) \<and>
    claim_jobs demo_crypto mem_redis (demo_settler\<lparr>sl_maxDeliveries := 0\<rparr>) [demo_again] 0 s2
      = (s3, [(0, Acked SettledOnChain)]) \<and>
    inflight_of (rd_view mem_redis s3 60000) (inflight_key demo_crypto SBCAddress) = 1000"
proof -
  let ?k = "inflight_key demo_crypto SBCAddress" and ?S = "demo_settler\<lparr>sl_maxDeliveries := 0\<rparr>"
  obtain s1 where 1: "handle_job demo_crypto mem_redis ?S demo_unacked (0, job_fields demo_expired) demo_delivered
      = (s1, Unacked Settled)" "rd_view mem_redis s1 0 = Map.empty" "rd_stream mem_redis s1 = rd_stream mem_redis demo_delivered"
    by (rule demo_first_handling)
  obtain s2 q where 2: "reserve demo_crypto mem_redis demo_cfg Answered (45 * nsec) 45000 SBCAddress [1] 2000 5000 (100 * nsec) s1
      = (s2, Inr (OutOK, Some q))" "rd_view mem_redis s2 60000 ?k = Some (RString (int_str 2000), Some 75000)"
    "rd_stream mem_redis s2 = rd_stream mem_redis s1" by (rule demo_second_reserve [OF 1(2)])
  have st: "rd_stream mem_redis s2 SettleStream = rd_stream mem_redis demo_delivered SettleStream" by (simp add: 2(3) 1(3))
  have i2: "inflight_of (rd_view mem_redis s2 60000) ?k = 2000" "counter_ok (rd_view mem_redis s2 60000) ?k"
    by (auto simp: 2(2) inflight_of_def parse_int64_int_str is_int64_def counter_ok_def MaxExact_def)
  have w: "hw_release_ms demo_unacked = 0" "hw_release_ms (ps_jobs demo_again 0) = 60000"
    by (simp_all add: demo_unacked_def demo_again_def demo_handling_def)
  have ans: "answering (ps_jobs demo_again 0)" by (simp add: answering_def demo_again_def demo_handling_def)
  note twice = unacknowledged_job_is_released_again [OF mem_laws demo_expired_job(1) demo_job_amount _ _ 1(1) _ _
      demo_delivered_counter [folded w(1)] _ _ _ _ _ _ ans _ i2(2) [folded w(2)] demo_expired_job(2)]
  have "rd_stream mem_redis s1 SettleStream = rd_stream mem_redis demo_delivered SettleStream \<and>
    inflight_of (rd_view mem_redis s1 (hw_release_ms demo_unacked)) ?k =
      max 0 (inflight_of (rd_view mem_redis demo_delivered (hw_release_ms demo_unacked)) ?k - 1000) \<and>
    (\<exists>s3. claim_jobs demo_crypto mem_redis ?S [demo_again] 0 s2 = (s3, [(0, Acked SettledOnChain)]) \<and>
       sm_deliveries 0 (rd_stream mem_redis s3 SettleStream) = None \<and>
       inflight_of (rd_view mem_redis s3 (hw_release_ms (ps_jobs demo_again 0))) ?k =
         max 0 (inflight_of (rd_view mem_redis s2 (hw_release_ms (ps_jobs demo_again 0))) ?k - 1000))"
    by (rule twice [where n = 1])
      (simp_all add: MaxExact_def st demo_delivered_view stream_ok_def sm_deliveries_def sm_idle_def demo_node
        demo_unacked_def demo_again_def demo_handling_def max_deliveries_def DefaultMaxDeliveries_def
        demo_settler_def min_idle_def DefaultMinIdle_def millis_def demo_expired_def demo_paid_job_def unix_def)
  then obtain s3 where 3: "claim_jobs demo_crypto mem_redis ?S [demo_again] 0 s2 = (s3, [(0, Acked SettledOnChain)])"
    "inflight_of (rd_view mem_redis s3 60000) ?k = max 0 (inflight_of (rd_view mem_redis s2 60000) ?k - 1000)"
    unfolding w by blast
  have "inflight_of (rd_view mem_redis s3 60000) ?k = 1000" using 3(2) i2(1) by simp
  with 1(1) 2(1) 3(1) show ?thesis by blast
qed

end
