(* ===== verification/Verify.thy ===== *)
theory Verify
  imports Eip3009
begin

text \<open>
  The local payment verifier of \<open>internal/x402/verify/verify.go\<close>: the checks in the order
  the code makes them, each refusal with its reason code (the message beside the code is
  not modelled), and the result a verified payment commits to.  \<open>Panicked\<close> is the panic of
  an over-wide ABI word; \<open>verify_no_panic\<close> shows that no input reaches it.
\<close>

datatype verify_error = Refused string | Panicked

text \<open>\<open>Reason\<close>: the code of a refusal; any other error is the unexpected one.\<close>

fun verify_reason :: "verify_error \<Rightarrow> string" where
  "verify_reason (Refused r) = r"
| "verify_reason Panicked = ReasonUnexpectedVerify"

record verified =
  v_payer :: address
  v_auth :: authorization
  v_signature :: bytes
  v_expires :: int

text \<open>Seconds by which a buyer's clock may run ahead of the filter's.\<close>

definition skew_allowance :: int where
  "skew_allowance = 30"

definition accept_limit :: "int \<Rightarrow> requirements \<Rightarrow> int" where
  "accept_limit now route = unix now + i64 (rq_timeout route + skew_allowance)"

definition verify ::
  "('pk, 'sk) crypto \<Rightarrow> int \<Rightarrow> requirements \<Rightarrow> domain \<Rightarrow> payment_payload \<Rightarrow> (verify_error, verified) result"
where
  "verify C now route dm pp =
     (if pp_version pp \<noteq> x402_version then Inl (Refused ReasonInvalidVersion)
      else if rq_scheme route \<noteq> SchemeExact then Inl (Refused ReasonInvalidRequirements)
      else if transfer_method route \<noteq> TransferEIP3009 then Inl (Refused ReasonInvalidRequirements)
      else
     bind_r (map_err (\<lambda>_. Refused ReasonInvalidRequirements) (parse_uint256 (rq_amount route))) (\<lambda>price.
     bind_r (map_err (\<lambda>_. Refused ReasonInvalidRequirements) (parse_address (rq_payTo route))) (\<lambda>payTo.
     let acc = pp_accepted pp in
      if rq_scheme acc \<noteq> rq_scheme route then Inl (Refused ReasonInvalidScheme)
      else if rq_network acc \<noteq> rq_network route then Inl (Refused ReasonInvalidNetwork)
      else if \<not> equal_fold (rq_asset acc) (rq_asset route) then Inl (Refused ReasonInvalidPayload)
      else if \<not> equal_fold (rq_payTo acc) (rq_payTo route) then Inl (Refused ReasonRecipientMismatch)
      else if rq_amount acc \<noteq> rq_amount route then Inl (Refused ReasonValueMismatch)
      else if transfer_method acc \<noteq> TransferEIP3009 then Inl (Refused ReasonInvalidPayload)
      else
     bind_r (map_err (\<lambda>_. Refused ReasonInvalidPayload) (eip3009_of pp)) (\<lambda>raw.
     bind_r (map_err (\<lambda>_. Refused ReasonInvalidPayload) (parse_authorization (e_authorization raw))) (\<lambda>auth.
     bind_r (map_err (\<lambda>_. Refused ReasonSignature) (parse_signature (e_signature raw))) (\<lambda>sig.
      if a_to auth \<noteq> payTo then Inl (Refused ReasonRecipientMismatch)
      else if a_value auth < price then Inl (Refused ReasonValueMismatch)
      else if a_after auth > unix now then Inl (Refused ReasonValidAfter)
      else if a_before auth \<le> unix now then Inl (Refused ReasonValidBefore)
      else if rq_timeout route > 0 \<and> a_before auth > accept_limit now route
        then Inl (Refused ReasonValidBefore)
      else if \<not> is_int64 (a_before auth) then Inl (Refused ReasonValidBefore)
      else
        (case digest C dm auth of
           None \<Rightarrow> Inl Panicked
         | Some h \<Rightarrow>
             bind_r (map_err (\<lambda>_. Refused ReasonSignature) (recover C h sig)) (\<lambda>signer.
               if signer \<noteq> a_from auth then Inl (Refused ReasonSignature)
               else Inr \<lparr>v_payer = signer, v_auth = auth, v_signature = sig,
                         v_expires = a_before auth * nsec\<rparr>))))))))"

section \<open>What an accepted payment satisfies\<close>

text \<open>The route itself is payable: the checks on the server's own terms.\<close>

definition payable_route :: "requirements \<Rightarrow> int \<Rightarrow> address \<Rightarrow> bool" where
  "payable_route route price payTo \<longleftrightarrow>
     rq_scheme route = SchemeExact \<and> transfer_method route = TransferEIP3009 \<and>
     parse_uint256 (rq_amount route) = Inr price \<and> parse_address (rq_payTo route) = Inr payTo"

text \<open>The client's echo repeats the route's terms.\<close>

definition echo_matches :: "requirements \<Rightarrow> requirements \<Rightarrow> bool" where
  "echo_matches acc route \<longleftrightarrow>
     rq_scheme acc = rq_scheme route \<and> rq_network acc = rq_network route \<and>
     equal_fold (rq_asset acc) (rq_asset route) \<and> equal_fold (rq_payTo acc) (rq_payTo route) \<and>
     rq_amount acc = rq_amount route \<and> transfer_method acc = TransferEIP3009"

text \<open>The signed message meets the terms at the given time.\<close>

definition terms_met :: "int \<Rightarrow> requirements \<Rightarrow> int \<Rightarrow> address \<Rightarrow> authorization \<Rightarrow> bool" where
  "terms_met now route price payTo auth \<longleftrightarrow>
     a_to auth = payTo \<and> price \<le> a_value auth \<and>
     a_after auth \<le> unix now \<and> unix now < a_before auth \<and>
     (0 < rq_timeout route \<longrightarrow> a_before auth \<le> accept_limit now route) \<and> is_int64 (a_before auth)"

lemma verify_Inr_iff:
  "verify C now route dm pp = Inr r \<longleftrightarrow>
     pp_version pp = x402_version \<and>
     (\<exists>price payTo raw h.
        payable_route route price payTo \<and> echo_matches (pp_accepted pp) route \<and>
        eip3009_of pp = Inr raw \<and>
        parse_authorization (e_authorization raw) = Inr (v_auth r) \<and>
        parse_signature (e_signature raw) = Inr (v_signature r) \<and>
        terms_met now route price payTo (v_auth r) \<and>
        digest C dm (v_auth r) = Some h \<and>
        recover C h (v_signature r) = Inr (a_from (v_auth r)) \<and>
        v_payer r = a_from (v_auth r) \<and>
        v_expires r = a_before (v_auth r) * nsec)"
  (is "?L \<longleftrightarrow> ?R")
proof
  assume ?L
  then obtain price payTo raw auth sig h signer where
    "pp_version pp = x402_version" "rq_scheme route = SchemeExact"
    "transfer_method route = TransferEIP3009"
    "parse_uint256 (rq_amount route) = Inr price" "parse_address (rq_payTo route) = Inr payTo"
    "echo_matches (pp_accepted pp) route" "eip3009_of pp = Inr raw"
    "parse_authorization (e_authorization raw) = Inr auth"
    "parse_signature (e_signature raw) = Inr sig"
    "terms_met now route price payTo auth" "digest C dm auth = Some h"
    "recover C h sig = Inr signer" "signer = a_from auth"
    "r = \<lparr>v_payer = signer, v_auth = auth, v_signature = sig, v_expires = a_before auth * nsec\<rparr>"
    unfolding verify_def Let_def echo_matches_def terms_met_def
    by (fastforce simp only: guard_eq_Inr bind_r_eq_Inr map_err_eq_Inr case_option_eq_Inr not_not
        linorder_not_less linorder_not_le not_False_eq_True sum.inject)
  then show ?R unfolding payable_route_def by auto
next
  assume ?R
  then show ?L
    by (cases r) (auto simp: verify_def payable_route_def echo_matches_def terms_met_def Let_def)
qed

lemmas verify_InrD = verify_Inr_iff [THEN iffD1]

lemma verify_Inr_wf: "verify C now route dm pp = Inr r \<Longrightarrow> wf_authorization (v_auth r)"
  by (auto simp: verify_Inr_iff dest: parse_authorization_wf)

lemma verify_Inr_payer:
  "verify C now route dm pp = Inr r \<Longrightarrow> v_payer r = a_from (v_auth r) \<and> is_address (v_payer r)"
  using verify_Inr_wf [of C now route dm pp r]
  by (auto simp: verify_Inr_iff wf_authorization_def)

lemma verify_no_panic:
  assumes "is_address (d_contract dm)"
  shows "verify C now route dm pp \<noteq> Inl Panicked"
proof
  assume p: "verify C now route dm pp = Inl Panicked"
  then obtain raw :: eip3009_payload and auth where a: "parse_authorization (e_authorization raw) = Inr auth"
    and "digest C dm auth = None"
    by (auto simp: verify_def Let_def bind_r_eq_Inl map_err_eq_Inl map_err_eq_Inr
        split: if_splits option.splits)
  moreover from parse_authorization_wf [OF a] assms obtain h where "digest C dm auth = Some h"
    by (rule digest_Some)
  ultimately show False by simp
qed

text \<open>The window an accepted payment leaves: at most the route's timeout and the allowance.\<close>

lemma verify_Inr_window:
  assumes "verify C now route dm pp = Inr r" "0 < rq_timeout route" "rq_timeout route \<le> 2 ^ 62"
  shows "unix now * nsec < v_expires r"
    and "v_expires r \<le> (unix now + rq_timeout route + skew_allowance) * nsec"
proof -
  from assms(2,3) have "i64 (rq_timeout route + skew_allowance) = rq_timeout route + skew_allowance"
    by (intro i64_id) (simp add: is_int64_def skew_allowance_def)
  with assms show "unix now * nsec < v_expires r"
    "v_expires r \<le> (unix now + rq_timeout route + skew_allowance) * nsec"
    by (auto simp: verify_Inr_iff terms_met_def accept_limit_def)
qed

text \<open>Only the route's terms decide: the echo of an accepted payment can be replaced by them.\<close>

lemma verify_echo_irrelevant:
  assumes "verify C now route dm pp = Inr r"
  shows "verify C now route dm (pp\<lparr>pp_accepted := route\<rparr>) = Inr r"
  using assms
  by (auto simp: verify_Inr_iff echo_matches_def payable_route_def eip3009_of_def)

section \<open>Properties\<close>

text \<open>
  C13: exactly what the verifier accepts: the protocol's version; a payable route whose
  terms the client echoed; a well-formed authorization and signature that pay the route's
  recipient at least its price, inside its window; and a signature that recovers, over the
  EIP-712 digest, the address the authorization names as the payer.
\<close>

theorem verify_accepts_iff:
  "verify C now route dm pp = Inr r \<longleftrightarrow>
     pp_version pp = x402_version \<and>
     (\<exists>price payTo raw h.
        payable_route route price payTo \<and> echo_matches (pp_accepted pp) route \<and>
        eip3009_of pp = Inr raw \<and>
        parse_authorization (e_authorization raw) = Inr (v_auth r) \<and>
        parse_signature (e_signature raw) = Inr (v_signature r) \<and>
        terms_met now route price payTo (v_auth r) \<and>
        digest C dm (v_auth r) = Some h \<and>
        recover C h (v_signature r) = Inr (a_from (v_auth r)) \<and>
        v_payer r = a_from (v_auth r) \<and>
        v_expires r = a_before (v_auth r) * nsec)"
  by (rule verify_Inr_iff)

text \<open>
  C14: no payment header makes the verifier panic: the ABI encoding of whatever parsed fits
  its words, for a token contract that is an address.
\<close>

theorem verify_never_panics:
  assumes "is_address (d_contract dm)"
  shows "verify C now route dm pp \<noteq> Inl Panicked"
  using assms by (rule verify_no_panic)

theorem verify_never_panics_witness:
  "verify demo_crypto 0 zero_requirements demo_domain demo_payload \<noteq> Inl Panicked"
  by (rule verify_never_panics [OF demo_domain_address])

end
