(* ===== verification/GoUrl.thy ===== *)
theory GoUrl
  imports GoText
begin

text \<open>
  What the sources ask of Go's \<open>net/url.Parse\<close>: whether a URL parses, its scheme and its
  host.  Hosts with an IP literal in brackets are parsed by \<open>net/netip\<close>, of which the
  definitions take the result as an argument.
\<close>

definition is_alpha :: "char \<Rightarrow> bool" where
  "is_alpha c \<longleftrightarrow> is_lower c \<or> is_upper c"

definition has_ctl :: "string \<Rightarrow> bool" where
  "has_ctl s = list_ex (\<lambda>c. code c < 32 \<or> code c = 127) s"

definition scheme_char :: "char \<Rightarrow> bool" where
  "scheme_char c \<longleftrightarrow> is_alpha c \<or> is_digit c \<or> c \<in> set ''+-.''"

text \<open>\<open>getScheme\<close>: \<open>None\<close> is the missing scheme before a colon.\<close>

definition get_scheme :: "string \<Rightarrow> (string \<times> string) option" where
  "get_scheme raw =
     (if raw \<noteq> [] \<and> scheme_char (hd raw) \<and> \<not> is_alpha (hd raw) then Some ([], raw)
      else
        let pre = takeWhile scheme_char raw
        in (case drop (length pre) raw of
              [] \<Rightarrow> Some ([], raw)
            | c # r \<Rightarrow>
                if c = CHR '':'' then (if pre = [] then None else Some (pre, r))
                else Some ([], raw)))"

text \<open>Whether every percent sign starts an escape\<close>

fun escapes_ok :: "string \<Rightarrow> bool" where
  "escapes_ok [] = True"
| "escapes_ok (c # s) =
     (if c = CHR ''%''
      then (case s of
              a # b # r \<Rightarrow> hex_val a \<noteq> None \<and> hex_val b \<noteq> None
            | _ \<Rightarrow> False) \<and> escapes_ok s
      else escapes_ok s)"

definition host_char :: "char \<Rightarrow> bool" where
  "host_char c \<longleftrightarrow> is_alpha c \<or> is_digit c \<or> 128 \<le> code c \<or> c \<in> set ''-_.~!$&'()*+,;=:[]<>'' \<or> code c = 34"

text \<open>The unescaping of a host: an escape may stand for a byte from 128 or for a percent sign.\<close>

fun unescape_host :: "string \<Rightarrow> string option" where
  "unescape_host [] = Some []"
| "unescape_host (c # s) =
     (if c = CHR ''%''
      then (case s of
              a # b # r \<Rightarrow>
                (case (hex_val a, hex_val b) of
                   (Some x, Some y) \<Rightarrow>
                     if x < 8 \<and> [a, b] \<noteq> ''25'' then None
                     else map_option (Cons (char_of (16 * x + y))) (unescape_host r)
                 | _ \<Rightarrow> None)
            | _ \<Rightarrow> None)
      else if host_char c then map_option (Cons c) (unescape_host s)
      else None)"

definition parse_host :: "(string \<Rightarrow> string option) \<Rightarrow> string \<Rightarrow> string option" where
  "parse_host ip_host host =
     (if CHR ''['' \<in> set host then ip_host host
      else case cut_at (CHR '':'') host of (_, port, found) \<Rightarrow>
        if found \<and> \<not> list_all is_digit port then None else unescape_host host)"

definition userinfo_char :: "char \<Rightarrow> bool" where
  "userinfo_char c \<longleftrightarrow> is_alpha c \<or> is_digit c \<or> c \<in> set ''-._:~!$&'()*+,;=%@''"

text \<open>\<open>parseAuthority\<close>: the user information ends at the last at sign.\<close>

definition parse_authority :: "(string \<Rightarrow> string option) \<Rightarrow> string \<Rightarrow> string option" where
  "parse_authority ip_host auth =
     (case cut_at (CHR ''@'') (rev auth) of (h, u, found) \<Rightarrow>
        case parse_host ip_host (rev h) of
          None \<Rightarrow> None
        | Some host \<Rightarrow>
            if found \<and> \<not> (list_all userinfo_char (rev u) \<and> escapes_ok (rev u)) then None
            else Some host)"

definition url_parse :: "(string \<Rightarrow> string option) \<Rightarrow> string \<Rightarrow> (string \<times> string) option" where
  "url_parse ip_host raw =
     (case cut_at (CHR ''#'') raw of (u, frag, _) \<Rightarrow>
        if has_ctl u \<or> \<not> escapes_ok frag then None
        else if u = ''*'' then Some ([], [])
        else
          (case get_scheme u of
             None \<Rightarrow> None
           | Some (scheme, rest0) \<Rightarrow>
               let rest = fst (cut_at (CHR ''?'') rest0)
               in if \<not> prefix ''/'' rest \<and> scheme \<noteq> [] then Some (to_lower scheme, [])
                  else if \<not> prefix ''/'' rest \<and> CHR '':'' \<in> set (fst (cut_at (CHR ''/'') rest)) then None
                  else if (scheme \<noteq> [] \<or> \<not> prefix ''///'' rest) \<and> prefix ''//'' rest then
                    (case cut_at (CHR ''/'') (drop 2 rest) of (auth, path, _) \<Rightarrow>
                       case parse_authority ip_host auth of
                         None \<Rightarrow> None
                       | Some host \<Rightarrow> if escapes_ok path then Some (to_lower scheme, host) else None)
                  else if escapes_ok rest then Some (to_lower scheme, []) else None))"

lemma url_parse_sample: "url_parse ip ''https://docs.example/x'' = Some (''https'', ''docs.example'')"
  by (simp add: url_parse_def cut_at_def has_ctl_def get_scheme_def scheme_char_def is_alpha_def
      is_digit_def is_lower_def is_upper_def parse_authority_def parse_host_def Let_def to_lower_def
      to_lower_char_def host_char_def)

end
