(* ===== verification/Pricing.thy ===== *)
theory Pricing
  imports Radius Verify GoUrl Runs "HOL-Library.AList" "HOL-Library.List_Lexorder" "HOL-Library.Char_ord"
begin

text \<open>
  The price table of \<open>internal/pricing/pricing.go\<close>: the JSON schema with its exact-key
  check, the validation of a route, \<open>Parse\<close> (all or nothing), \<open>RouteKey\<close>, the store the
  request path reads, and the watcher of \<open>internal/pricing/watch.go\<close> that replaces the table
  only by a good one.  The Kubernetes informer delivers the events and is not modelled; a
  log line is not part of the state.
\<close>

section \<open>The table and its JSON form\<close>

definition table_schema_version :: int where "table_schema_version = 1"
definition ConfigMapKey :: string where "ConfigMapKey = ''prices.json''"
definition FailureClosed :: string where "FailureClosed = ''Closed''"
definition CaptureAsync :: string where "CaptureAsync = ''Async''"
definition MaxPrice :: int where "MaxPrice = 2 ^ 53 - 1"
definition MinTimeoutSeconds :: int where "MinTimeoutSeconds = 30"
definition MaxTimeoutSeconds :: int where "MaxTimeoutSeconds = 600"

record help_override =
  h_docsURL :: string
  h_message :: string

record route =
  r_network :: string
  r_price :: string
  r_asset :: string
  r_payTo :: string
  r_method :: string
  r_timeout :: int
  r_failure :: string
  r_capture :: string
  r_description :: string
  r_mimeType :: string
  r_help :: "help_override option"

record table =
  t_schema :: int
  t_routes :: "(string \<times> route) list"

definition zero_help :: help_override where
  "zero_help = \<lparr>h_docsURL = [], h_message = []\<rparr>"

definition zero_route :: route where
  "zero_route =
     \<lparr>r_network = [], r_price = [], r_asset = [], r_payTo = [], r_method = [], r_timeout = 0,
      r_failure = [], r_capture = [], r_description = [], r_mimeType = [], r_help = None\<rparr>"

definition help_names :: "string list" where
  "help_names = [''docsURL'', ''message'']"

definition route_names :: "string list" where
  "route_names =
     [''network'', ''price'', ''asset'', ''payTo'', ''assetTransferMethod'', ''maxTimeoutSeconds'',
      ''failureMode'', ''captureMode'', ''description'', ''mimeType'', ''help'']"

definition table_names :: "string list" where
  "table_names = [''schemaVersion'', ''routes'']"

text \<open>A decoder with \<open>DisallowUnknownFields\<close>: a key no field matches is an error.\<close>

fun dec_fields_strict ::
  "string list \<Rightarrow> (string \<Rightarrow> json \<Rightarrow> 'a \<Rightarrow> 'a option) \<Rightarrow> 'a \<Rightarrow> (string \<times> json) list \<Rightarrow> 'a option" where
  "dec_fields_strict names setf cur [] = Some cur"
| "dec_fields_strict names setf cur ((k, v) # ms) =
     (case field_of names k of
        None \<Rightarrow> None
      | Some f \<Rightarrow>
          (case setf f v cur of None \<Rightarrow> None | Some c \<Rightarrow> dec_fields_strict names setf c ms))"

fun dec_strict ::
  "string list \<Rightarrow> (string \<Rightarrow> json \<Rightarrow> 'a \<Rightarrow> 'a option) \<Rightarrow> 'a \<Rightarrow> json \<Rightarrow> 'a option" where
  "dec_strict names setf cur JNull = Some cur"
| "dec_strict names setf cur (JObj ms) = dec_fields_strict names setf cur ms"
| "dec_strict names setf cur _ = None"

definition set_help :: "string \<Rightarrow> json \<Rightarrow> help_override \<Rightarrow> help_override option" where
  "set_help f v h =
     (if f = ''docsURL'' then map_option (\<lambda>s. h\<lparr>h_docsURL := s\<rparr>) (dec_str (h_docsURL h) v)
      else map_option (\<lambda>s. h\<lparr>h_message := s\<rparr>) (dec_str (h_message h) v))"

definition set_route :: "string \<Rightarrow> json \<Rightarrow> route \<Rightarrow> route option" where
  "set_route f v r =
     (if f = ''network'' then map_option (\<lambda>s. r\<lparr>r_network := s\<rparr>) (dec_str (r_network r) v)
      else if f = ''price'' then map_option (\<lambda>s. r\<lparr>r_price := s\<rparr>) (dec_str (r_price r) v)
      else if f = ''asset'' then map_option (\<lambda>s. r\<lparr>r_asset := s\<rparr>) (dec_str (r_asset r) v)
      else if f = ''payTo'' then map_option (\<lambda>s. r\<lparr>r_payTo := s\<rparr>) (dec_str (r_payTo r) v)
      else if f = ''assetTransferMethod''
        then map_option (\<lambda>s. r\<lparr>r_method := s\<rparr>) (dec_str (r_method r) v)
      else if f = ''maxTimeoutSeconds''
        then map_option (\<lambda>n. r\<lparr>r_timeout := n\<rparr>) (dec_int (r_timeout r) v)
      else if f = ''failureMode'' then map_option (\<lambda>s. r\<lparr>r_failure := s\<rparr>) (dec_str (r_failure r) v)
      else if f = ''captureMode'' then map_option (\<lambda>s. r\<lparr>r_capture := s\<rparr>) (dec_str (r_capture r) v)
      else if f = ''description''
        then map_option (\<lambda>s. r\<lparr>r_description := s\<rparr>) (dec_str (r_description r) v)
      else if f = ''mimeType'' then map_option (\<lambda>s. r\<lparr>r_mimeType := s\<rparr>) (dec_str (r_mimeType r) v)
      else map_option (\<lambda>h. r\<lparr>r_help := h\<rparr>)
             (dec_ptr (dec_strict help_names set_help) zero_help (r_help r) v))"

definition dec_route :: "route \<Rightarrow> json \<Rightarrow> route option" where
  "dec_route = dec_strict route_names set_route"

text \<open>\<open>map[string]Route\<close>: each value is decoded into a fresh Route, the last of a key stays.\<close>

fun dec_members :: "(string \<times> route) list \<Rightarrow> (string \<times> json) list \<Rightarrow> (string \<times> route) list option" where
  "dec_members cur [] = Some cur"
| "dec_members cur ((k, v) # ms) =
     (case dec_route zero_route v of
        None \<Rightarrow> None
      | Some r \<Rightarrow> dec_members (AList.update k r cur) ms)"

fun dec_routes :: "(string \<times> route) list \<Rightarrow> json \<Rightarrow> (string \<times> route) list option" where
  "dec_routes cur JNull = Some []"
| "dec_routes cur (JObj ms) = dec_members cur ms"
| "dec_routes cur _ = None"

definition set_table :: "string \<Rightarrow> json \<Rightarrow> table \<Rightarrow> table option" where
  "set_table f v t =
     (if f = ''schemaVersion'' then map_option (\<lambda>n. t\<lparr>t_schema := n\<rparr>) (dec_int (t_schema t) v)
      else map_option (\<lambda>m. t\<lparr>t_routes := m\<rparr>) (dec_routes (t_routes t) v))"

definition dec_table :: "json \<Rightarrow> table option" where
  "dec_table = dec_strict table_names set_table \<lparr>t_schema = 0, t_routes = []\<rparr>"

section \<open>The exact-key check\<close>

text \<open>A decode into \<open>map[string]json.RawMessage\<close>: the last value of a key stays.\<close>

fun raw_map :: "json \<Rightarrow> (string \<times> json) list option" where
  "raw_map JNull = Some []"
| "raw_map (JObj ms) = Some ms"
| "raw_map _ = None"

definition last_of :: "(string \<times> json) list \<Rightarrow> string \<Rightarrow> json option" where
  "last_of ms k = map_of (rev ms) k"

definition keys_of :: "(string \<times> json) list \<Rightarrow> string list \<Rightarrow> bool" where
  "keys_of ms names = list_all (\<lambda>kv. fst kv \<in> set names) ms"

definition exact_route :: "json \<Rightarrow> bool" where
  "exact_route j =
     (case raw_map j of
        None \<Rightarrow> True
      | Some r \<Rightarrow>
          keys_of r route_names \<and>
          (case last_of r ''help'' of
             Some (JObj h) \<Rightarrow> keys_of h help_names
           | _ \<Rightarrow> True))"

definition exact_keys :: "json \<Rightarrow> bool" where
  "exact_keys j =
     (case raw_map j of
        None \<Rightarrow> False
      | Some tp \<Rightarrow>
          keys_of tp table_names \<and>
          (case last_of tp ''routes'' of
             Some (JObj rs) \<Rightarrow>
               if list_all (\<lambda>kv. raw_map (snd kv) \<noteq> None) rs
               then list_all (\<lambda>k. case last_of rs k of None \<Rightarrow> True | Some r \<Rightarrow> exact_route r) (map fst rs)
               else True
           | _ \<Rightarrow> True))"

section \<open>Route keys\<close>

definition dns_alnum :: "char \<Rightarrow> bool" where
  "dns_alnum c \<longleftrightarrow> is_lower c \<or> is_digit c"

definition dns_name :: "string \<Rightarrow> bool" where
  "dns_name s \<longleftrightarrow>
     s \<noteq> [] \<and> length s \<le> 253 \<and> dns_alnum (hd s) \<and> dns_alnum (last s) \<and>
     list_all (\<lambda>c. dns_alnum c \<or> c \<in> set ''.-'') s"

definition route_key :: "string \<Rightarrow> string option" where
  "route_key xds =
     (case split_n 4 (CHR ''/'') xds of
        [a, ns, nm, _] \<Rightarrow>
          if a = ''httproute'' \<and> dns_name ns \<and> dns_name nm
          then Some (a @ ''/'' @ ns @ ''/'' @ nm) else None
      | _ \<Rightarrow> None)"

section \<open>Validation\<close>

datatype route_error =
    BadKey
  | OtherNetwork string
  | OtherAsset string
  | OtherMethod string
  | PriceShape string
  | PriceTooLarge string
  | PayToShape evm_error
  | PayToZero
  | TimeoutRange int
  | OtherFailureMode string
  | OtherCaptureMode string
  | LongDescription
  | BadDocsURL string
  | BadMessage

record entry =
  pe_key :: string
  pe_route :: route
  pe_network :: profile
  pe_price :: int
  pe_requirements :: requirements

definition help_ok :: "(string \<Rightarrow> string option) \<Rightarrow> help_override \<Rightarrow> (route_error, unit) result" where
  "help_ok ip h =
     (if h_docsURL h \<noteq> [] \<and>
         (case url_parse ip (h_docsURL h) of
            None \<Rightarrow> True
          | Some (scheme, host) \<Rightarrow> scheme \<noteq> ''https'' \<or> host = [])
      then Inl (BadDocsURL (h_docsURL h))
      else if length (h_message h) > 200 \<or> list_ex (\<lambda>c. code c < 32 \<or> 126 < code c) (h_message h)
      then Inl BadMessage
      else Inr ())"

definition validate ::
  "('pk, 'sk) crypto \<Rightarrow> (string \<Rightarrow> string option) \<Rightarrow> string \<Rightarrow> route \<Rightarrow> profile list
     \<Rightarrow> (route_error, entry) result" where
  "validate C ip key r networks =
     (if route_key (key @ ''/'') \<noteq> Some key then Inl BadKey
      else (case find (\<lambda>p. network p = r_network r) networks of
        None \<Rightarrow> Inl (OtherNetwork (r_network r))
      | Some net \<Rightarrow>
          if \<not> equal_fold (r_asset r) SBC then Inl (OtherAsset (r_asset r))
          else if r_method r \<noteq> TransferEIP3009 then Inl (OtherMethod (r_method r))
          else (case parse_uint256 (r_price r) of
            Inl _ \<Rightarrow> Inl (PriceShape (r_price r))
          | Inr price \<Rightarrow>
              if price = 0 then Inl (PriceShape (r_price r))
              else if price > MaxPrice then Inl (PriceTooLarge (r_price r))
              else bind_r (map_err PayToShape (parse_address (r_payTo r))) (\<lambda>payTo.
                if payTo = zero_address then Inl PayToZero
                else if r_timeout r < MinTimeoutSeconds \<or> r_timeout r > MaxTimeoutSeconds
                  then Inl (TimeoutRange (r_timeout r))
                else if r_failure r \<noteq> FailureClosed then Inl (OtherFailureMode (r_failure r))
                else if r_capture r \<noteq> CaptureAsync then Inl (OtherCaptureMode (r_capture r))
                else if length (r_description r) > 256 then Inl LongDescription
                else bind_r (case r_help r of None \<Rightarrow> Inr () | Some h \<Rightarrow> help_ok ip h) (\<lambda>_.
                  Inr \<lparr>pe_key = key, pe_route = r, pe_network = net, pe_price = price,
                       pe_requirements =
                         exact_requirements net (int_str price) (address_string C payTo) (r_timeout r)\<rparr>)))))"

section \<open>Parsing a table\<close>

datatype table_error =
    DecodeError
  | SchemaError int
  | RouteErrors "(string \<times> route_error) list"

type_synonym prices = "(string \<times> entry) list"

fun validate_all ::
  "('pk, 'sk) crypto \<Rightarrow> (string \<Rightarrow> string option) \<Rightarrow> profile list \<Rightarrow> (string \<times> route) list
     \<Rightarrow> (string \<times> route_error) list \<times> prices" where
  "validate_all C ip nets [] = ([], [])"
| "validate_all C ip nets ((k, r) # rs) =
     (case validate_all C ip nets rs of (errs, out) \<Rightarrow>
        case validate C ip k r nets of
          Inl e \<Rightarrow> ((k, e) # errs, out)
        | Inr e \<Rightarrow> (errs, (k, e) # out))"

text \<open>The routes in the order of their sorted keys\<close>

definition sorted_routes :: "(string \<times> route) list \<Rightarrow> (string \<times> route) list" where
  "sorted_routes rs = map (\<lambda>k. (k, the (map_of rs k))) (sort (map fst rs))"

definition check_table ::
  "('pk, 'sk) crypto \<Rightarrow> (string \<Rightarrow> string option) \<Rightarrow> profile list \<Rightarrow> table \<Rightarrow> (table_error, prices) result" where
  "check_table C ip nets t =
     (if t_schema t \<noteq> table_schema_version then Inl (SchemaError (t_schema t))
      else case validate_all C ip nets (sorted_routes (t_routes t)) of (errs, out) \<Rightarrow>
        if errs \<noteq> [] then Inl (RouteErrors errs) else Inr out)"

definition parse_table ::
  "('pk, 'sk) crypto \<Rightarrow> (string \<Rightarrow> string option) \<Rightarrow> profile list \<Rightarrow> string \<Rightarrow> (table_error, prices) result" where
  "parse_table C ip nets text =
     (case parse_json text of
        None \<Rightarrow> Inl DecodeError
      | Some j \<Rightarrow>
          if \<not> exact_keys j then Inl DecodeError
          else bind_r (or_err DecodeError (dec_table j)) (check_table C ip nets))"

text \<open>\<open>Prices.Lookup\<close> and \<open>Len\<close>, on a nil table too\<close>

definition price_lookup :: "prices option \<Rightarrow> string \<Rightarrow> entry option" where
  "price_lookup p key = (case p of None \<Rightarrow> None | Some es \<Rightarrow> map_of es key)"

definition price_count :: "prices option \<Rightarrow> nat" where
  "price_count p = (case p of None \<Rightarrow> 0 | Some es \<Rightarrow> length es)"

section \<open>The store and the watcher\<close>

record store =
  st_table :: "prices option"
  st_loaded :: bool

definition new_store :: store where
  "new_store = \<lparr>st_table = None, st_loaded = False\<rparr>"

definition store_set :: "prices \<Rightarrow> store \<Rightarrow> store" where
  "store_set p s = s\<lparr>st_table := Some p, st_loaded := True\<rparr>"

record configmap =
  cm_name :: string
  cm_data :: "(string \<times> string) list"

datatype watch_event = Applied "configmap option" | Deleted

record watcher =
  wt_namespace :: string
  wt_name :: string
  wt_networks :: "profile list"

text \<open>\<open>apply\<close> and the delete handler, with the value passed to \<open>done\<close>, if any\<close>

definition watch_apply ::
  "('pk, 'sk) crypto \<Rightarrow> (string \<Rightarrow> string option) \<Rightarrow> watcher \<Rightarrow> configmap option \<Rightarrow> store
     \<Rightarrow> store \<times> bool option" where
  "watch_apply C ip w obj s =
     (case obj of
        None \<Rightarrow> (s, None)
      | Some cm \<Rightarrow>
          if cm_name cm \<noteq> wt_name w then (s, None)
          else (case map_of (cm_data cm) ConfigMapKey of
                  None \<Rightarrow> (s, Some False)
                | Some text \<Rightarrow>
                    (case parse_table C ip (wt_networks w) text of
                       Inl _ \<Rightarrow> (s, Some False)
                     | Inr p \<Rightarrow> (store_set p s, Some True))))"

definition watch_step ::
  "('pk, 'sk) crypto \<Rightarrow> (string \<Rightarrow> string option) \<Rightarrow> watcher \<Rightarrow> watch_event \<Rightarrow> store
     \<Rightarrow> store \<times> bool option" where
  "watch_step C ip w ev s =
     (case ev of Applied obj \<Rightarrow> watch_apply C ip w obj s | Deleted \<Rightarrow> (s, Some False))"

definition watch_run ::
  "('pk, 'sk) crypto \<Rightarrow> (string \<Rightarrow> string option) \<Rightarrow> watcher \<Rightarrow> watch_event list \<Rightarrow> store \<Rightarrow> store" where
  "watch_run C ip w evs s = fold (\<lambda>ev s. fst (watch_step C ip w ev s)) evs s"

section \<open>Lemmas: route keys\<close>

lemma dns_name_no_slash: "dns_name s \<Longrightarrow> CHR ''/'' \<notin> set s"
  by (auto simp: dns_name_def list_all_iff dns_alnum_def is_lower_def is_digit_def)

lemma split_n_4:
  "split_n 4 c s = [a, b, d, e] \<longleftrightarrow>
     s = a @ c # b @ c # d @ c # e \<and> c \<notin> set a \<and> c \<notin> set b \<and> c \<notin> set d"
proof
  have four: "(4::nat) = Suc (Suc (Suc (Suc 0)))" by simp
  have cut: "\<exists>x y. s = x @ c # y \<and> c \<notin> set x \<and> cut_at c s = (x, y, True)" if "snd (snd (cut_at c s))" for s
  proof -
    from that have "c \<in> set s" by (simp add: cut_at_def Let_def)
    from split_list_first [OF this] obtain x y where "s = x @ c # y" "c \<notin> set x" by blast
    then show ?thesis by auto
  qed
  assume "split_n 4 c s = [a, b, d, e]"
  then show "s = a @ c # b @ c # d @ c # e \<and> c \<notin> set a \<and> c \<notin> set b \<and> c \<notin> set d"
    unfolding four by (auto split: prod.splits if_splits dest!: cut [of s] cut)
      (metis cut cut_at_append fst_conv snd_conv)+
next
  assume "s = a @ c # b @ c # d @ c # e \<and> c \<notin> set a \<and> c \<notin> set b \<and> c \<notin> set d"
  then show "split_n 4 c s = [a, b, d, e]" by (simp add: numeral_eq_Suc)
qed

lemma no_slash_httproute: "CHR ''/'' \<notin> set ''httproute''"
  by simp

lemma route_key_Some:
  "route_key xds = Some k \<longleftrightarrow>
     (\<exists>ns nm rest. xds = ''httproute/'' @ ns @ ''/'' @ nm @ ''/'' @ rest \<and> dns_name ns \<and> dns_name nm \<and>
        k = ''httproute/'' @ ns @ ''/'' @ nm)"
  (is "?L \<longleftrightarrow> ?R")
proof
  assume ?L
  then obtain a ns nm rest where s: "split_n 4 (CHR ''/'') xds = [a, ns, nm, rest]"
    and "a = ''httproute''" "dns_name ns" "dns_name nm" "k = a @ ''/'' @ ns @ ''/'' @ nm"
    by (auto simp: route_key_def split: list.splits if_splits)
  moreover from s have "xds = a @ CHR ''/'' # ns @ CHR ''/'' # nm @ CHR ''/'' # rest"
    by (simp add: split_n_4)
  ultimately show ?R by auto
next
  assume ?R
  then obtain ns nm rest where x: "xds = ''httproute/'' @ ns @ ''/'' @ nm @ ''/'' @ rest"
    and n: "dns_name ns" "dns_name nm" and k: "k = ''httproute/'' @ ns @ ''/'' @ nm"
    by blast
  have "split_n 4 (CHR ''/'') xds = [''httproute'', ns, nm, rest]"
    using x n by (subst split_n_4) (simp add: dns_name_no_slash)
  with n k show ?L by (simp add: route_key_def)
qed

lemma route_key_unique:
  assumes "''httproute/'' @ ns @ ''/'' @ nm = ''httproute/'' @ ns' @ ''/'' @ nm'"
    and "dns_name ns" "dns_name ns'"
  shows "ns = ns' \<and> nm = nm'"
proof -
  have "cut_at (CHR ''/'') (ns @ CHR ''/'' # nm) = cut_at (CHR ''/'') (ns' @ CHR ''/'' # nm')"
    using assms(1) by simp
  then show ?thesis using assms(2,3) by (simp add: dns_name_no_slash)
qed

section \<open>Lemmas: validation\<close>

text \<open>What a validated entry is, whatever table it came from.\<close>

definition entry_ok :: "('pk, 'sk) crypto \<Rightarrow> profile list \<Rightarrow> entry \<Rightarrow> bool" where
  "entry_ok C nets e \<longleftrightarrow>
     route_key (pe_key e @ ''/'') = Some (pe_key e) \<and> pe_network e \<in> set nets \<and>
     0 < pe_price e \<and> pe_price e \<le> MaxPrice \<and>
     (\<exists>payTo. is_address payTo \<and> payTo \<noteq> zero_address \<and>
        pe_requirements e =
          exact_requirements (pe_network e) (int_str (pe_price e)) (address_string C payTo)
            (r_timeout (pe_route e))) \<and>
     MinTimeoutSeconds \<le> r_timeout (pe_route e) \<and> r_timeout (pe_route e) \<le> MaxTimeoutSeconds"

lemma validate_Inr:
  assumes "validate C ip k r nets = Inr e"
  shows "entry_ok C nets e" "pe_key e = k" "pe_route e = r"
    "parse_uint256 (r_price r) = Inr (pe_price e)" "network (pe_network e) = r_network r"
proof -
  from assms obtain net payTo where v: "route_key (k @ ''/'') = Some k"
    "find (\<lambda>p. network p = r_network r) nets = Some net"
    "parse_uint256 (r_price r) = Inr (pe_price e)" "pe_price e \<noteq> 0" "pe_price e \<le> MaxPrice"
    "parse_address (r_payTo r) = Inr payTo" "payTo \<noteq> zero_address"
    "MinTimeoutSeconds \<le> r_timeout r" "r_timeout r \<le> MaxTimeoutSeconds"
    "e = \<lparr>pe_key = k, pe_route = r, pe_network = net, pe_price = pe_price e,
          pe_requirements = exact_requirements net (int_str (pe_price e)) (address_string C payTo) (r_timeout r)\<rparr>"
    by (auto simp: validate_def bind_r_eq_Inr map_err_eq_Inr split: if_splits option.splits sum.splits)
  then have eqs: "pe_key e = k" "pe_route e = r" "pe_network e = net" "pe_requirements e =
      exact_requirements net (int_str (pe_price e)) (address_string C payTo) (r_timeout r)"
    by (metis entry.select_convs)+
  from v(2) have net: "net \<in> set nets" "network net = r_network r"
    by (auto simp: find_Some_iff)
  have "0 < pe_price e" using v(3,4) parse_uint256_bounds by fastforce
  moreover have "is_address payTo" using v(6) by (rule parse_address_length)
  ultimately show "entry_ok C nets e" using v eqs net by (auto simp: entry_ok_def)
  show "pe_key e = k" "pe_route e = r" "parse_uint256 (r_price r) = Inr (pe_price e)"
    "network (pe_network e) = r_network r"
    using eqs v net by simp_all
qed

text \<open>An entry's own requirements are a route the verifier can charge.\<close>

lemma entry_ok_payable:
  assumes "entry_ok C nets e"
  obtains payTo where "payable_route (pe_requirements e) (pe_price e) payTo" "payTo \<noteq> zero_address"
proof -
  from assms obtain payTo where p: "is_address payTo" "payTo \<noteq> zero_address"
    "pe_requirements e = exact_requirements (pe_network e) (int_str (pe_price e))
       (address_string C payTo) (r_timeout (pe_route e))"
    "0 < pe_price e" "pe_price e \<le> MaxPrice"
    by (auto simp: entry_ok_def)
  have "pe_price e \<le> max_uint256" using p(5) by (simp add: MaxPrice_def max_uint256_def)
  with p show thesis
    by (intro that [of payTo]) (simp_all add: payable_route_def exact_requirements_def
        transfer_method_def TransferEIP3009_def parse_uint256_int_str parse_address_string)
qed

section \<open>Lemmas: tables\<close>

lemma validate_all_split:
  "fst (validate_all C ip nets rs) = [] \<longleftrightarrow> (\<forall>(k, r) \<in> set rs. is_ok (validate C ip k r nets))"
  by (induction rs) (auto split: prod.splits sum.splits)

lemma validate_all_errors:
  "fst (validate_all C ip nets rs) =
     concat (map (\<lambda>(k, r). case validate C ip k r nets of Inl e \<Rightarrow> [(k, e)] | Inr _ \<Rightarrow> []) rs)"
  by (induction rs) (auto split: prod.splits sum.splits)

lemma validate_all_entries:
  assumes "fst (validate_all C ip nets rs) = []"
  shows "map_of (snd (validate_all C ip nets rs)) k =
    Option.bind (map_of rs k) (\<lambda>r. case validate C ip k r nets of Inl _ \<Rightarrow> None | Inr e \<Rightarrow> Some e)"
    and "map fst (snd (validate_all C ip nets rs)) = map fst rs"
  using assms by (induction rs) (auto split: prod.splits sum.splits)

lemma map_of_sorted_routes:
  "map_of (sorted_routes rs) k = map_of rs k"
proof (cases "k \<in> fst ` set rs")
  case True
  then have "map_of (sorted_routes rs) k = Some (the (map_of rs k))"
    by (simp add: sorted_routes_def map_of_map_restrict restrict_map_def)
  moreover from True obtain v where "map_of rs k = Some v"
    by (metis map_of_eq_None_iff not_None_eq)
  ultimately show ?thesis by simp
next
  case False
  then have "map_of rs k = None" by (simp add: map_of_eq_None_iff)
  with False show ?thesis
    by (simp add: sorted_routes_def map_of_map_restrict restrict_map_def)
qed

lemma check_table_Inr:
  assumes "check_table C ip nets t = Inr ps"
  shows "t_schema t = table_schema_version"
    and "map_of ps k = Option.bind (map_of (t_routes t) k)
           (\<lambda>r. case validate C ip k r nets of Inl _ \<Rightarrow> None | Inr e \<Rightarrow> Some e)"
    and "map_of (t_routes t) k = Some r \<Longrightarrow> is_ok (validate C ip k r nets)"
    and "map fst ps = sort (map fst (t_routes t))"
proof -
  let ?v = "validate_all C ip nets (sorted_routes (t_routes t))"
  from assms have *: "t_schema t = table_schema_version" "fst ?v = []" "snd ?v = ps"
    by (auto simp: check_table_def split: if_splits prod.splits)
  from *(1) show "t_schema t = table_schema_version" .
  from validate_all_entries [OF *(2)] *(3)
  show "map_of ps k = Option.bind (map_of (t_routes t) k)
      (\<lambda>r. case validate C ip k r nets of Inl _ \<Rightarrow> None | Inr e \<Rightarrow> Some e)"
    "map fst ps = sort (map fst (t_routes t))"
    by (simp_all add: map_of_sorted_routes) (simp add: sorted_routes_def comp_def)
  assume "map_of (t_routes t) k = Some r"
  then have "(k, r) \<in> set (sorted_routes (t_routes t))"
    by (intro map_of_SomeD) (simp add: map_of_sorted_routes)
  with *(2) show "is_ok (validate C ip k r nets)" by (auto simp: validate_all_split)
qed

lemma check_table_errors:
  assumes "check_table C ip nets t = Inl (RouteErrors errs)"
  shows "errs \<noteq> []" "errs = concat (map (\<lambda>(k, r). case validate C ip k r nets of
      Inl e \<Rightarrow> [(k, e)] | Inr _ \<Rightarrow> []) (sorted_routes (t_routes t)))"
  using assms validate_all_errors [of C ip nets "sorted_routes (t_routes t)"]
  by (auto simp: check_table_def split: if_splits prod.splits)

lemma parse_table_Inr:
  assumes "parse_table C ip nets text = Inr ps"
  obtains j t where "parse_json text = Some j" "exact_keys j" "dec_table j = Some t"
    "check_table C ip nets t = Inr ps"
  using assms by (auto simp: parse_table_def bind_r_eq_Inr or_err_eq_Inr split: option.splits if_splits)

lemma parse_table_entries:
  assumes "parse_table C ip nets text = Inr ps" "map_of ps k = Some e"
  shows "entry_ok C nets e" "pe_key e = k"
proof -
  from assms(1) obtain t where t: "check_table C ip nets t = Inr ps" by (rule parse_table_Inr)
  from assms(2) check_table_Inr(2) [OF t, of k] obtain r where "validate C ip k r nets = Inr e"
    by (auto split: bind_splits sum.splits)
  then show "entry_ok C nets e" "pe_key e = k" by (auto dest: validate_Inr)
qed

section \<open>Lemmas: the watcher\<close>

text \<open>The last good table of an event sequence, with no store in it.\<close>

definition event_table ::
  "('pk, 'sk) crypto \<Rightarrow> (string \<Rightarrow> string option) \<Rightarrow> watcher \<Rightarrow> watch_event \<Rightarrow> prices option" where
  "event_table C ip w ev =
     (case ev of
        Applied (Some cm) \<Rightarrow>
          if cm_name cm = wt_name w
          then Option.bind (map_of (cm_data cm) ConfigMapKey)
                 (\<lambda>text. case parse_table C ip (wt_networks w) text of Inl _ \<Rightarrow> None | Inr p \<Rightarrow> Some p)
          else None
      | _ \<Rightarrow> None)"

lemma watch_step_store:
  "fst (watch_step C ip w ev s) =
     (case event_table C ip w ev of None \<Rightarrow> s | Some p \<Rightarrow> store_set p s)"
  by (auto simp: watch_step_def watch_apply_def event_table_def
      split: watch_event.splits option.splits sum.splits bind_splits)

lemma watch_run_append: "watch_run C ip w (a @ b) s = watch_run C ip w b (watch_run C ip w a s)"
  by (simp add: watch_run_def)

lemma watch_run_bad:
  "\<forall>ev \<in> set evs. event_table C ip w ev = None \<Longrightarrow> watch_run C ip w evs s = s"
  by (induction evs arbitrary: s) (simp_all add: watch_run_def watch_step_store)

lemma watch_run_last_good:
  assumes "event_table C ip w ev = Some p" "\<forall>ev \<in> set after. event_table C ip w ev = None"
  shows "watch_run C ip w (before @ ev # after) s = \<lparr>st_table = Some p, st_loaded = True\<rparr>"
proof -
  have "watch_run C ip w (before @ ev # after) s =
      fst (watch_step C ip w ev (watch_run C ip w before s))"
    using watch_run_bad [OF assms(2)] by (simp add: watch_run_append [of _ _ _ before]) (simp add: watch_run_def)
  then show ?thesis using assms(1)
    by (cases "watch_run C ip w before s") (simp add: watch_step_store store_set_def)
qed

text \<open>The store is marked loaded exactly when it has a table, and every entry it has was checked.\<close>

definition store_flag :: "store \<Rightarrow> bool" where
  "store_flag s \<longleftrightarrow> st_loaded s = (st_table s \<noteq> None)"

definition store_ok :: "('pk, 'sk) crypto \<Rightarrow> watcher \<Rightarrow> store \<Rightarrow> bool" where
  "store_ok C w s \<longleftrightarrow>
     (\<forall>k e. price_lookup (st_table s) k = Some e \<longrightarrow> entry_ok C (wt_networks w) e \<and> pe_key e = k)"

lemma watch_step_store_ok:
  assumes "store_ok C w s"
  shows "store_ok C w (fst (watch_step C ip w ev s))"
proof (cases "event_table C ip w ev")
  case None
  with assms show ?thesis by (simp add: watch_step_store)
next
  case (Some p)
  then obtain t where "parse_table C ip (wt_networks w) t = Inr p"
    by (auto simp: event_table_def split: watch_event.splits option.splits if_splits bind_splits sum.splits)
  then show ?thesis using Some
    by (auto simp: store_ok_def watch_step_store store_set_def price_lookup_def dest: parse_table_entries)
qed

interpretation watch_flag: step_invariant "\<lambda>ev s. fst (watch_step C ip w ev s)" store_flag
  for C :: "('pk, 'sk) crypto" and ip w
  by unfold_locales (auto simp: store_flag_def watch_step_store store_set_def split: option.splits)

interpretation watch_entries: step_invariant "\<lambda>ev s. fst (watch_step C ip w ev s)" "store_ok C w"
  for C :: "('pk, 'sk) crypto" and ip w
  by unfold_locales (rule watch_step_store_ok)

lemma watch_run_loaded:
  "st_loaded s = (st_table s \<noteq> None) \<Longrightarrow>
     st_loaded (watch_run C ip w evs s) = (st_table (watch_run C ip w evs s) \<noteq> None)"
  using watch_flag.fold_keeps [of s C ip w evs] by (simp add: store_flag_def watch_run_def)

lemma watch_run_entries:
  assumes "\<forall>k e. price_lookup (st_table s) k = Some e \<longrightarrow> entry_ok C (wt_networks w) e \<and> pe_key e = k"
  shows "price_lookup (st_table (watch_run C ip w evs s)) k = Some e \<Longrightarrow>
    entry_ok C (wt_networks w) e \<and> pe_key e = k"
  using watch_entries.fold_keeps [of C w s ip evs] assms by (simp add: store_ok_def watch_run_def)

definition demo_table :: string where
  "demo_table = print_json
     (JObj [(''schemaVersion'', JNum ''1''),
            (''routes'', JObj [(''httproute/a/b'',
               JObj [(''network'', JStr ''eip155:72344''), (''price'', JStr ''1000''),
                     (''asset'', JStr SBC), (''payTo'', JStr SBC),
                     (''assetTransferMethod'', JStr ''eip3009''), (''maxTimeoutSeconds'', JNum ''60''),
                     (''failureMode'', JStr ''Closed''), (''captureMode'', JStr ''Async'')])])])"

definition demo_route :: route where
  "demo_route = zero_route\<lparr>r_network := ''eip155:72344'', r_price := ''1000'', r_asset := SBC,
     r_payTo := SBC, r_method := TransferEIP3009, r_timeout := 60, r_failure := FailureClosed,
     r_capture := CaptureAsync\<rparr>"

lemma demo_table_parses: "parse_json demo_table = Some
     (JObj [(''schemaVersion'', JNum ''1''),
            (''routes'', JObj [(''httproute/a/b'',
               JObj [(''network'', JStr ''eip155:72344''), (''price'', JStr ''1000''),
                     (''asset'', JStr SBC), (''payTo'', JStr SBC),
                     (''assetTransferMethod'', JStr ''eip3009''), (''maxTimeoutSeconds'', JNum ''60''),
                     (''failureMode'', JStr ''Closed''), (''captureMode'', JStr ''Async'')])])])"
  unfolding demo_table_def by (rule parse_print_json) code_simp

lemma demo_route_key: "route_key (''httproute/a/b'' @ ''/'') = Some ''httproute/a/b''"
  by (subst route_key_Some, rule exI [of _ "''a''"], rule exI [of _ "''b''"], rule exI [of _ "[]"])
    (simp add: dns_name_def dns_alnum_def is_lower_def)

lemma demo_price: "parse_uint256 ''1000'' = Inr 1000" "int_str 1000 = ''1000''"
proof -
  show i: "int_str 1000 = ''1000''"
    by (simp add: int_str_def nat_str.simps digit_char_def)
  show "parse_uint256 ''1000'' = Inr 1000"
    using parse_uint256_int_str [of 1000] by (simp add: i max_uint256_def)
qed

lemma SBC_not_zero: "SBCAddress \<noteq> zero_address"
proof
  assume "SBCAddress = zero_address"
  then have "parse_address SBC = Inr zero_address" using parse_SBC by simp
  then have "hex_decode (drop 2 SBC) = Some zero_address"
    by (auto simp: parse_address_def split: if_splits option.splits)
  then have "map_option hd (hex_decode (drop 2 SBC)) = Some 0" by (simp add: zero_address_def)
  then show False by (simp add: SBC_def hex_val_def is_digit_def)
qed

definition demo_entry :: entry where
  "demo_entry =
     \<lparr>pe_key = ''httproute/a/b'', pe_route = demo_route, pe_network = Testnet, pe_price = 1000,
      pe_requirements = exact_requirements Testnet ''1000'' (address_string demo_crypto SBCAddress) 60\<rparr>"

lemma demo_validates:
  "validate demo_crypto (\<lambda>_. None) ''httproute/a/b'' demo_route [Testnet] = Inr demo_entry"
  unfolding validate_def demo_route_key
  by (simp add: demo_route_def network_testnet demo_price parse_SBC SBC_not_zero MaxPrice_def
      MinTimeoutSeconds_def MaxTimeoutSeconds_def zero_route_def demo_entry_def)

lemma demo_table_decodes:
  "dec_table
     (JObj [(''schemaVersion'', JNum ''1''),
            (''routes'', JObj [(''httproute/a/b'',
               JObj [(''network'', JStr ''eip155:72344''), (''price'', JStr ''1000''),
                     (''asset'', JStr SBC), (''payTo'', JStr SBC),
                     (''assetTransferMethod'', JStr ''eip3009''), (''maxTimeoutSeconds'', JNum ''60''),
                     (''failureMode'', JStr ''Closed''), (''captureMode'', JStr ''Async'')])])]) =
     Some \<lparr>t_schema = 1, t_routes = [(''httproute/a/b'', demo_route)]\<rparr>"
  by (simp add: dec_table_def table_names_def set_table_def field_of_def dec_route_def route_names_def
      set_route_def zero_route_def demo_route_def TransferEIP3009_def FailureClosed_def CaptureAsync_def
      parse_int64_def signed_dec_def all_digits_def is_digit_def is_int64_def dec_val_def digit_val_def)

lemma demo_parse_table:
  "parse_table demo_crypto (\<lambda>_. None) [Testnet] demo_table = Inr [(''httproute/a/b'', demo_entry)]"
  by (simp add: parse_table_def demo_table_parses demo_table_decodes check_table_def table_schema_version_def
      sorted_routes_def demo_validates exact_keys_def exact_route_def keys_of_def last_of_def
      table_names_def route_names_def)


section \<open>Properties\<close>

text \<open>
  C29: a table is accepted whole or not at all.  When \<open>Parse\<close> returns a table, the text is
  JSON of the one schema version, every one of its routes passes the validation, and a
  lookup finds exactly the validated routes: none is dropped, none is added.
\<close>

theorem parsed_table_is_the_validated_routes:
  assumes "parse_table C ip nets s = Inr ps"
  shows "\<exists>j t. parse_json s = Some j \<and> exact_keys j \<and> dec_table j = Some t \<and>
    t_schema t = table_schema_version \<and>
    (\<forall>k. case map_of (t_routes t) k of
           None \<Rightarrow> price_lookup (Some ps) k = None
         | Some r \<Rightarrow> \<exists>e. validate C ip k r nets = Inr e \<and> price_lookup (Some ps) k = Some e)"
proof -
  from assms obtain j t where j: "parse_json s = Some j" "exact_keys j" "dec_table j = Some t"
    "check_table C ip nets t = Inr ps" by (rule parse_table_Inr)
  moreover have "case map_of (t_routes t) k of
      None \<Rightarrow> price_lookup (Some ps) k = None
    | Some r \<Rightarrow> \<exists>e. validate C ip k r nets = Inr e \<and> price_lookup (Some ps) k = Some e" for k
    using check_table_Inr(2,3) [OF j(4), of k]
    by (auto simp: price_lookup_def is_ok_iff split: option.splits)
  ultimately show ?thesis using check_table_Inr(1) [OF j(4)] by blast
qed

theorem parsed_table_is_the_validated_routes_witness:
  "\<exists>j t. parse_json demo_table = Some j \<and> exact_keys j \<and> dec_table j = Some t \<and>
    t_schema t = table_schema_version \<and>
    (\<forall>k. case map_of (t_routes t) k of
           None \<Rightarrow> price_lookup (Some [(''httproute/a/b'', demo_entry)]) k = None
         | Some r \<Rightarrow> \<exists>e. validate demo_crypto (\<lambda>_. None) k r [Testnet] = Inr e \<and>
             price_lookup (Some [(''httproute/a/b'', demo_entry)]) k = Some e)"
  by (rule parsed_table_is_the_validated_routes [OF demo_parse_table])

definition demo_watcher :: watcher where
  "demo_watcher = \<lparr>wt_namespace = ''x402'', wt_name = ''prices'', wt_networks = [Testnet]\<rparr>"

definition demo_event :: watch_event where
  "demo_event = Applied (Some \<lparr>cm_name = ''prices'', cm_data = [(ConfigMapKey, demo_table)]\<rparr>)"

lemma demo_event_table:
  "event_table demo_crypto (\<lambda>_. None) demo_watcher demo_event = Some [(''httproute/a/b'', demo_entry)]"
  by (simp add: event_table_def demo_event_def demo_watcher_def demo_parse_table)

text \<open>
  C30: whatever events the watcher saw, every price the request path can look up is
  chargeable: it stands under its own well-formed key, on a network the filter charges on,
  for a positive amount the Redis scripts compare exactly, with a timeout in bounds, and
  its requirements are a route the verifier can charge for that amount to a recipient that
  is not the zero address.
\<close>

theorem every_loaded_price_is_chargeable:
  assumes "price_lookup (st_table (watch_run C ip w evs new_store)) k = Some e"
  shows "pe_key e = k \<and> pe_network e \<in> set (wt_networks w) \<and>
    0 < pe_price e \<and> pe_price e < 2 ^ 53 \<and>
    30 \<le> rq_timeout (pe_requirements e) \<and> rq_timeout (pe_requirements e) \<le> 600 \<and>
    (\<exists>payTo. payable_route (pe_requirements e) (pe_price e) payTo \<and> payTo \<noteq> zero_address)"
proof -
  have e: "entry_ok C (wt_networks w) e" "pe_key e = k"
    using watch_run_entries [OF _ assms] by (simp_all add: new_store_def price_lookup_def)
  obtain payTo where "payable_route (pe_requirements e) (pe_price e) payTo" "payTo \<noteq> zero_address"
    by (rule entry_ok_payable [OF e(1)])
  then have "\<exists>payTo. payable_route (pe_requirements e) (pe_price e) payTo \<and> payTo \<noteq> zero_address"
    by blast
  moreover have "rq_timeout (pe_requirements e) = r_timeout (pe_route e)"
    using e(1) by (auto simp: entry_ok_def exact_requirements_def)
  ultimately show ?thesis
    using e by (simp add: entry_ok_def MaxPrice_def MinTimeoutSeconds_def MaxTimeoutSeconds_def)
qed

theorem every_loaded_price_is_chargeable_witness:
  "pe_key demo_entry = ''httproute/a/b'' \<and> pe_network demo_entry \<in> set (wt_networks demo_watcher) \<and>
    0 < pe_price demo_entry \<and> pe_price demo_entry < 2 ^ 53 \<and>
    30 \<le> rq_timeout (pe_requirements demo_entry) \<and> rq_timeout (pe_requirements demo_entry) \<le> 600 \<and>
    (\<exists>payTo. payable_route (pe_requirements demo_entry) (pe_price demo_entry) payTo \<and>
      payTo \<noteq> zero_address)"
  by (rule every_loaded_price_is_chargeable [of demo_crypto "\<lambda>_. None" demo_watcher "[demo_event]"])
    (simp add: watch_run_def watch_step_store demo_event_table store_set_def price_lookup_def)

text \<open>
  C31: a bad table, a foreign object or a deleted ConfigMap never changes the prices: after
  any events before and any run of such events after a good table, the store holds that
  table, and it stays ready.
\<close>

theorem watcher_keeps_the_last_good_table:
  assumes "event_table C ip w ev = Some p" "\<forall>ev \<in> set after. event_table C ip w ev = None"
  shows "watch_run C ip w (before @ ev # after) s = \<lparr>st_table = Some p, st_loaded = True\<rparr>"
  using assms by (rule watch_run_last_good)

theorem watcher_keeps_the_last_good_table_witness:
  "watch_run demo_crypto (\<lambda>_. None) demo_watcher ([Deleted] @ demo_event # [Deleted, Applied None]) new_store =
     \<lparr>st_table = Some [(''httproute/a/b'', demo_entry)], st_loaded = True\<rparr>"
  by (rule watcher_keeps_the_last_good_table [OF demo_event_table]) (simp add: event_table_def)

text \<open>
  A route name selects a price key exactly when it is
  \<open>httproute/<namespace>/<name>/<rest>\<close> with two Kubernetes names; the key drops the rest.
\<close>

theorem route_key_iff:
  "route_key xds = Some k \<longleftrightarrow>
     (\<exists>ns nm rest. xds = ''httproute/'' @ ns @ ''/'' @ nm @ ''/'' @ rest \<and> dns_name ns \<and> dns_name nm \<and>
        k = ''httproute/'' @ ns @ ''/'' @ nm)"
  by (rule route_key_Some)

text \<open>
  The exact-key check reads only the last of two \<open>routes\<close> objects, the typed decoder
  merges both: a table whose first \<open>routes\<close> spells \<open>payTo\<close> as \<open>PAYTO\<close> is accepted when
  an empty \<open>routes\<close> follows.
\<close>

definition sneaky_table :: string where
  "sneaky_table = print_json
     (JObj [(''schemaVersion'', JNum ''1''),
            (''routes'', JObj [(''httproute/a/b'',
               JObj [(''network'', JStr ''eip155:72344''), (''price'', JStr ''1000''),
                     (''asset'', JStr SBC), (''PAYTO'', JStr SBC),
                     (''assetTransferMethod'', JStr ''eip3009''), (''maxTimeoutSeconds'', JNum ''60''),
                     (''failureMode'', JStr ''Closed''), (''captureMode'', JStr ''Async'')])]),
            (''routes'', JObj [])])"

theorem duplicate_routes_skip_the_key_check:
  "parse_table demo_crypto (\<lambda>_. None) [Testnet] sneaky_table = Inr [(''httproute/a/b'', demo_entry)]"
proof -
  have p: "parse_json sneaky_table = Some
     (JObj [(''schemaVersion'', JNum ''1''),
            (''routes'', JObj [(''httproute/a/b'',
               JObj [(''network'', JStr ''eip155:72344''), (''price'', JStr ''1000''),
                     (''asset'', JStr SBC), (''PAYTO'', JStr SBC),
                     (''assetTransferMethod'', JStr ''eip3009''), (''maxTimeoutSeconds'', JNum ''60''),
                     (''failureMode'', JStr ''Closed''), (''captureMode'', JStr ''Async'')])]),
            (''routes'', JObj [])])"
    unfolding sneaky_table_def by (rule parse_print_json) code_simp
  have f: "field_of route_names ''network'' = Some ''network''" "field_of route_names ''price'' = Some ''price''"
    "field_of route_names ''asset'' = Some ''asset''" "field_of route_names ''PAYTO'' = Some ''payTo''"
    "field_of route_names ''assetTransferMethod'' = Some ''assetTransferMethod''"
    "field_of route_names ''maxTimeoutSeconds'' = Some ''maxTimeoutSeconds''"
    "field_of route_names ''failureMode'' = Some ''failureMode''"
    "field_of route_names ''captureMode'' = Some ''captureMode''" by code_simp+
  have i: "parse_int64 ''1'' = Some 1" "parse_int64 ''60'' = Some 60" by code_simp+
  have "dec_route zero_route
      (JObj [(''network'', JStr ''eip155:72344''), (''price'', JStr ''1000''),
             (''asset'', JStr SBC), (''PAYTO'', JStr SBC),
             (''assetTransferMethod'', JStr ''eip3009''), (''maxTimeoutSeconds'', JNum ''60''),
             (''failureMode'', JStr ''Closed''), (''captureMode'', JStr ''Async'')]) = Some demo_route"
    by (simp add: dec_route_def f i set_route_def zero_route_def demo_route_def TransferEIP3009_def
        FailureClosed_def CaptureAsync_def)
  then show ?thesis
    by (simp add: parse_table_def p dec_table_def table_names_def set_table_def field_of_def i
        check_table_def table_schema_version_def sorted_routes_def demo_validates exact_keys_def
        keys_of_def last_of_def)
qed

end
