(* ===== verification/Paywall.thy ===== *)
theory Paywall
  imports Pricing
begin

text \<open>
  The 402 of a priced route (\<open>internal/paywall/paywall.go\<close>): the how-to-pay steps, the one
  line hint, the shell quoting of the caller's URL, the choice of format, and \<open>Render\<close> with
  its headers and its JSON and markdown bodies (the markdown template \<open>page.md\<close> written out
  as a function).  The HTML page is an argument here, a function of the page's data: the
  theory \<open>HtmlPage\<close> has the one the code renders.
\<close>

section \<open>Data\<close>

definition HowToPayExtension :: string where "HowToPayExtension = ''how-to-pay''"
definition max_url_in_hint :: nat where "max_url_in_hint = 512"
definition X402Docs :: string where "X402Docs = ''https://docs.radiustech.xyz/build/x402/''"
definition CLIInstall :: string where "CLIInstall = ''npm i -g radius-cli''"
definition SDKPackage :: string where "SDKPackage = ''radius-sdk''"
definition SDKImport :: string where "SDKImport = ''radius-sdk/client''"
definition SDKEntry :: string where "SDKEntry = ''createRadiusFetch''"
definition DisplayAsset :: string where "DisplayAsset = ''SBC''"

record pay_request =
  pq_method :: string
  pq_url :: string
  pq_accept :: string
  pq_userAgent :: string
  pq_refused :: string

type_synonym headers = "(string \<times> string) list"

record response =
  rp_status :: int
  rp_headers :: headers
  rp_body :: string

record pay_step =
  sp_do :: string
  sp_run :: string
  sp_note :: string

record sdk =
  sd_package :: string
  sd_import :: string
  sd_entry :: string
  sd_note :: string

record how_to_pay =
  hp_summary :: string
  hp_price :: string
  hp_asset :: string
  hp_network :: string
  hp_payTo :: string
  hp_steps :: "pay_step list"
  hp_sdk :: sdk
  hp_docs :: string
  hp_description :: string
  hp_message :: string

section \<open>The steps\<close>

definition or_get :: "string \<Rightarrow> string" where
  "or_get m = (if m = [] then ''GET'' else m)"

definition quote :: char where "quote = CHR 0x27"

definition shell_quote :: "string \<Rightarrow> string" where
  "shell_quote s =
     [quote] @ concat (map (\<lambda>c. if c = quote then [quote, CHR 0x5C, quote, quote] else [c]) s) @ [quote]"

definition cli_command :: "string \<Rightarrow> string \<Rightarrow> string \<Rightarrow> string \<Rightarrow> string" where
  "cli_command env meth url price =
     env @ ''radius-cli wallet pay '' @ to_lower (or_get meth) @ '' '' @ shell_quote url
       @ '' --threshold '' @ price"

definition cli_env :: "profile \<Rightarrow> string" where
  "cli_env p = (if p_name p \<noteq> p_name Mainnet then ''RADIUS_NETWORK='' @ p_name p @ '' '' else [])"

definition how_to_pay :: "entry \<Rightarrow> pay_request \<Rightarrow> how_to_pay" where
  "how_to_pay e req =
     (let docs = (case r_help (pe_route e) of
                    Some h \<Rightarrow> if h_docsURL h \<noteq> [] then h_docsURL h else X402Docs
                  | None \<Rightarrow> X402Docs);
          message = (case r_help (pe_route e) of Some h \<Rightarrow> h_message h | None \<Rightarrow> []);
          price = format_sbc (pe_price e);
          net = ''Radius '' @ p_name (pe_network e);
          env = cli_env (pe_network e)
      in \<lparr>hp_summary = to_upper (or_get (pq_method req)) @ '' '' @ pq_url req @ '' costs '' @ price @ '' ''
                         @ DisplayAsset @ '' on '' @ net @ ''.'',
          hp_price = price, hp_asset = DisplayAsset, hp_network = net,
          hp_payTo = rq_payTo (pe_requirements e),
          hp_steps =
            [\<lparr>sp_do = ''install'', sp_run = CLIInstall, sp_note = []\<rparr>,
             \<lparr>sp_do = ''create-wallet'', sp_run = ''radius-cli wallet new'',
              sp_note = ''once; the key stays in ~/.radius (set RADIUS_HOME to keep it per project)''\<rparr>,
             (if p_faucet (pe_network e) \<noteq> []
              then \<lparr>sp_do = ''fund'', sp_run = env @ ''radius-cli wallet faucet'',
                    sp_note = ''test SBC from the faucet; the payment needs '' @ price @ '' '' @ DisplayAsset\<rparr>
              else \<lparr>sp_do = ''fund'', sp_run = env @ ''radius-cli wallet balance'',
                    sp_note = ''the wallet needs at least '' @ price @ '' '' @ DisplayAsset\<rparr>),
             \<lparr>sp_do = ''pay'', sp_run = cli_command env (pq_method req) (pq_url req) price,
              sp_note = ''signs the payment, retries the request and prints the response; --threshold refuses any higher price''\<rparr>],
          hp_sdk = \<lparr>sd_package = SDKPackage, sd_import = SDKImport, sd_entry = SDKEntry,
                    sd_note = ''a fetch that reads this 402, signs the payment and retries''\<rparr>,
          hp_docs = docs, hp_description = r_description (pe_route e), hp_message = message\<rparr>)"

definition hint :: "how_to_pay \<Rightarrow> pay_request \<Rightarrow> string" where
  "hint h req =
     (let pay0 = sp_run (last (hp_steps h));
          pay = (if length (pq_url req) > max_url_in_hint
                 then replace_first pay0 (shell_quote (pq_url req)) ([quote] @ ''<this URL>'' @ [quote])
                 else pay0);
          line = ''Payment required: '' @ hp_price h @ '' '' @ hp_asset h @ '' on '' @ hp_network h
                   @ ''. Pay with: '' @ pay
      in if pq_refused req \<noteq> [] then pq_refused req @ '': payment refused. '' @ line else line)"

definition is_browser :: "pay_request \<Rightarrow> bool" where
  "is_browser req \<longleftrightarrow> str_contains (pq_accept req) ''text/html'' \<and> str_contains (pq_userAgent req) ''Mozilla''"

section \<open>Bodies\<close>

definition enc_step :: "pay_step \<Rightarrow> json" where
  "enc_step s = JObj ([(''do'', JStr (sp_do s)), (''run'', JStr (sp_run s))] @ omit_empty ''note'' (sp_note s))"

definition enc_sdk :: "sdk \<Rightarrow> json" where
  "enc_sdk s = JObj [(''package'', JStr (sd_package s)), (''import'', JStr (sd_import s)),
                     (''entry'', JStr (sd_entry s)), (''note'', JStr (sd_note s))]"

definition enc_how_to_pay :: "how_to_pay \<Rightarrow> json" where
  "enc_how_to_pay h =
     JObj ([(''summary'', JStr (hp_summary h)), (''price'', JStr (hp_price h)), (''asset'', JStr (hp_asset h)),
            (''network'', JStr (hp_network h)), (''payTo'', JStr (hp_payTo h)),
            (''steps'', JArr (map enc_step (hp_steps h))), (''sdk'', enc_sdk (hp_sdk h)),
            (''docs'', JStr (hp_docs h))]
           @ omit_empty ''description'' (hp_description h) @ omit_empty ''message'' (hp_message h))"

definition type_of :: "string \<Rightarrow> json" where
  "type_of t = JObj [(''type'', JStr t)]"

definition how_to_pay_schema :: json where
  "how_to_pay_schema =
     JObj [(''$schema'', JStr ''https://json-schema.org/draft/2020-12/schema''), (''type'', JStr ''object''),
       (''required'', JArr (map JStr [''summary'', ''price'', ''asset'', ''network'', ''payTo'', ''steps'', ''sdk'', ''docs''])),
       (''properties'', JObj
         [(''summary'', type_of ''string''), (''price'', type_of ''string''), (''asset'', type_of ''string''),
          (''network'', type_of ''string''), (''payTo'', type_of ''string''),
          (''steps'', JObj [(''type'', JStr ''array''), (''items'', JObj
             [(''type'', JStr ''object''), (''required'', JArr [JStr ''do'', JStr ''run'']),
              (''properties'', JObj [(''do'', type_of ''string''), (''run'', type_of ''string''), (''note'', type_of ''string'')])])]),
          (''sdk'', JObj [(''type'', JStr ''object''), (''properties'', JObj
             [(''package'', type_of ''string''), (''import'', type_of ''string''), (''entry'', type_of ''string''),
              (''note'', type_of ''string'')])]),
          (''docs'', JObj [(''type'', JStr ''string''), (''format'', JStr ''uri'')]),
          (''description'', type_of ''string''), (''message'', type_of ''string'')])]"

text \<open>\<open>json.Encoder\<close> with an indent of two spaces: a line break and a newline at the end\<close>

definition newline :: "nat \<Rightarrow> string" where
  "newline depth = CHR 0x0A # replicate (2 * depth) (CHR '' '')"

fun indent_json :: "nat \<Rightarrow> json \<Rightarrow> string" where
  "indent_json d (JArr []) = ''[]''"
| "indent_json d (JObj []) = ''{}''"
| "indent_json d (JArr (x # xs)) =
     ''['' @ newline (Suc d) @ indent_json (Suc d) x
       @ concat (map (\<lambda>y. '','' @ newline (Suc d) @ indent_json (Suc d) y) xs) @ newline d @ '']''"
| "indent_json d (JObj (m # ms)) =
     ''{'' @ newline (Suc d) @ print_str (fst m) @ '': '' @ indent_json (Suc d) (snd m)
       @ concat (map (\<lambda>m. '','' @ newline (Suc d) @ print_str (fst m) @ '': '' @ indent_json (Suc d) (snd m)) ms)
       @ newline d @ ''}''"
| "indent_json d j = print_json j"

definition md_safe :: "string \<Rightarrow> string" where
  "md_safe s =
     concat (map (\<lambda>c. if c = CHR 0x60 then ''%60'' else if c = CHR 0x0D then ''%0D''
                      else if c = CHR 0x0A then ''%0A'' else [c]) s)"

record page_data =
  pg_how :: how_to_pay
  pg_url :: string
  pg_terms :: requirements

text \<open>The template \<open>page.md\<close>\<close>

definition md_step :: "nat \<times> pay_step \<Rightarrow> string" where
  "md_step is =
     (case is of (i, s) \<Rightarrow>
        nat_str (Suc i) @ ''. '' @ [CHR 0x60] @ md_safe (sp_run s) @ [CHR 0x60]
          @ (if sp_note s = [] then [] else ''  '' @ [CHR 0x0A] @ ''   '' @ md_safe (sp_note s)) @ [CHR 0x0A])"

definition code_span :: "string \<Rightarrow> string" where
  "code_span s = [CHR 0x60] @ s @ [CHR 0x60]"

definition markdown :: "page_data \<Rightarrow> string" where
  "markdown d =
     (let h = pg_how d; t = pg_terms d; nl = [CHR 0x0A]
      in ''# Payment required'' @ nl @ nl
         @ md_safe (hp_summary h) @ '' Paid per request with x402; nothing has been charged.''
         @ (if hp_description h = [] then [] else nl @ nl @ md_safe (hp_description h))
         @ (if hp_message h = [] then [] else nl @ nl @ md_safe (hp_message h))
         @ nl @ nl @ ''## Pay from a terminal or an agent'' @ nl @ nl
         @ concat (map md_step (enumerate 0 (hp_steps h)))
         @ nl @ ''## Pay from code'' @ nl @ nl
         @ code_span (sd_entry (hp_sdk h)) @ '' from '' @ code_span (sd_import (hp_sdk h)) @ '' (npm ''
         @ code_span (sd_package (hp_sdk h)) @ ''): '' @ sd_note (hp_sdk h) @ ''.'' @ nl @ nl
         @ ''## Terms'' @ nl @ nl
         @ ''| | |'' @ nl @ ''|---|---|'' @ nl
         @ ''| Price | '' @ hp_price h @ '' '' @ hp_asset h @ '' ('' @ rq_amount t @ '' atomic units, '' @ rq_asset t @ '') |'' @ nl
         @ ''| Network | '' @ hp_network h @ '' ('' @ code_span (rq_network t) @ '') |'' @ nl
         @ ''| Pay to | '' @ code_span (rq_payTo t) @ '' |'' @ nl
         @ ''| Scheme | '' @ code_span (rq_scheme t) @ '', EIP-3009 transferWithAuthorization |'' @ nl
         @ ''| Signature valid for | up to '' @ int_str (rq_timeout t) @ '' s |'' @ nl @ nl
         @ ''The machine-readable terms are in the '' @ code_span ''PAYMENT-REQUIRED''
         @ '' response header (base64 JSON, x402 v2). Docs: '' @ md_safe (hp_docs h) @ nl)"

section \<open>Render\<close>

definition payment_required_of :: "entry \<Rightarrow> pay_request \<Rightarrow> payment_required" where
  "payment_required_of e req =
     \<lparr>pr_version = x402_version, pr_error = hint (how_to_pay e req) req,
      pr_resource = zero_resource\<lparr>rs_url := pq_url req, rs_description := r_description (pe_route e),
                                  rs_mimeType := r_mimeType (pe_route e)\<rparr>,
      pr_accepts = [pe_requirements e], pr_extensions = []\<rparr>"

definition json_body :: "payment_required \<Rightarrow> how_to_pay \<Rightarrow> string" where
  "json_body pr h =
     indent_json 0 (enc_payment_required (pr\<lparr>pr_extensions :=
       [(HowToPayExtension, JObj [(''info'', enc_how_to_pay h), (''schema'', how_to_pay_schema)])]\<rparr>))
     @ [CHR 0x0A]"

text \<open>\<open>None\<close> is the error of a template that cannot be executed.\<close>

definition render :: "(page_data \<Rightarrow> string option) \<Rightarrow> entry \<Rightarrow> pay_request \<Rightarrow> response option" where
  "render page e req =
     (let h = how_to_pay e req;
          pr = payment_required_of e req;
          data = \<lparr>pg_how = h, pg_url = pq_url req, pg_terms = pe_requirements e\<rparr>;
          hs = [(HeaderPaymentRequired, encode_payment_required pr), (''Cache-Control'', ''no-store''),
                (''Vary'', ''Accept, User-Agent''),
                (''Link'', ''<'' @ hp_docs h @ ''>; rel='' @ [CHR 0x22] @ ''help'' @ [CHR 0x22]),
                (''Access-Control-Expose-Headers'', HeaderPaymentRequired)];
          reply = (\<lambda>ctype body. \<lparr>rp_status = 402, rp_headers = hs @ [(''Content-Type'', ctype)], rp_body = body\<rparr>)
      in if is_browser req then map_option (reply ''text/html; charset=utf-8'') (page data)
         else if str_contains (pq_accept req) ''text/markdown''
           then Some (reply ''text/markdown; charset=utf-8'' (markdown data))
         else Some (reply ''application/json'' (json_body pr h)))"

section \<open>Lemmas\<close>

text \<open>
  How a POSIX shell reads a word made of single-quoted parts and backslash-escaped
  characters; anything else outside the quotes is refused.
\<close>

fun sh_word :: "bool \<Rightarrow> string \<Rightarrow> string option" where
  "sh_word True [] = None"
| "sh_word True (c # s) = (if c = quote then sh_word False s else map_option (Cons c) (sh_word True s))"
| "sh_word False [] = Some []"
| "sh_word False (c # s) =
     (if c = quote then sh_word True s
      else if c = CHR 0x5C then (case s of [] \<Rightarrow> None | d # r \<Rightarrow> map_option (Cons d) (sh_word False r))
      else None)"

lemma sh_word_quoted:
  "sh_word True (concat (map (\<lambda>c. if c = quote then [quote, CHR 0x5C, quote, quote] else [c]) s) @ [quote]) = Some s"
  by (induction s) (auto simp: quote_def)

lemma md_safe_chars:
  assumes "c \<in> set (md_safe s)" shows "c \<noteq> CHR 0x60" "c \<noteq> CHR 0x0D" "c \<noteq> CHR 0x0A"
  using assms by (auto simp: md_safe_def split: if_splits)

lemma md_safe_id: "CHR 0x60 \<notin> set s \<Longrightarrow> CHR 0x0D \<notin> set s \<Longrightarrow> CHR 0x0A \<notin> set s \<Longrightarrow> md_safe s = s"
  by (induction s) (auto simp: md_safe_def)

text \<open>The hint of a short URL, with nothing refused\<close>

lemma hint_text:
  assumes "pq_refused req = []" "length (pq_url req) \<le> max_url_in_hint"
  shows "hint (how_to_pay e req) req = ''Payment required: '' @ format_sbc (pe_price e) @ '' '' @ DisplayAsset @ '' on Radius ''
    @ p_name (pe_network e) @ ''. Pay with: ''
    @ cli_command (cli_env (pe_network e)) (pq_method req) (pq_url req) (format_sbc (pe_price e))"
  using assms by (simp add: hint_def how_to_pay_def Let_def)

lemma render_Some:
  assumes "render page e req = Some r"
  obtains ctype body where "rp_status r = 402"
    "rp_headers r =
       [(HeaderPaymentRequired, encode_payment_required (payment_required_of e req)),
        (''Cache-Control'', ''no-store''), (''Vary'', ''Accept, User-Agent''),
        (''Link'', ''<'' @ hp_docs (how_to_pay e req) @ ''>; rel='' @ [CHR 0x22] @ ''help'' @ [CHR 0x22]),
        (''Access-Control-Expose-Headers'', HeaderPaymentRequired), (''Content-Type'', ctype)]"
  using assms by (auto simp: render_def Let_def split: if_splits)

section \<open>Properties\<close>

text \<open>
  The command a 402 prints cannot be broken out of: a POSIX shell reads the quoted URL
  back as one word, the URL itself, whatever characters the caller put into it, and the
  markdown body shows it without a backtick or a line break.
\<close>

theorem quoted_url_is_one_word:
  "sh_word False (shell_quote s) = Some s \<and> CHR 0x60 \<notin> set (md_safe s) \<and>
   CHR 0x0A \<notin> set (md_safe s) \<and> CHR 0x0D \<notin> set (md_safe s)"
  using sh_word_quoted [of s] md_safe_chars [of _ s] by (auto simp: shell_quote_def)

definition demo_request :: pay_request where
  "demo_request = \<lparr>pq_method = ''GET'', pq_url = ''http://a/b'', pq_accept = [], pq_userAgent = [], pq_refused = []\<rparr>"

lemma demo_render: "\<exists>r. render (\<lambda>_. None) demo_entry demo_request = Some r"
  by (simp add: render_def Let_def is_browser_def demo_request_def)

end
