(* ===== verification/Balance.thy ===== *)
theory Balance
  imports Reserve
begin

text \<open>
  The payer's balance as the request path sees it (\<open>internal/balance/balance.go\<close>): the
  policy of \<open>Get\<close>, the cache entry it reads and the write of a finished read.  A read of the
  chain is detached from the request that started it: \<open>Get\<close> takes what the one read in
  flight delivers before the request's deadline (\<open>None\<close> when the deadline comes first), and
  \<open>fetch\<close> is the read itself, with its write to the cache.  The single-flight group, which
  makes concurrent requests share one read, and the contexts are not modelled.
\<close>

definition DefaultFresh :: int where "DefaultFresh = 5 * nsec"
definition DefaultLastKnown :: int where "DefaultLastKnown = 60 * nsec"

datatype source = SourceFresh | SourceLastKnown | SourceFetched

record balance =
  bl_value :: int
  bl_age :: int
  bl_source :: source

datatype balance_error = CacheDown | FetchFailed rpc_error | BalanceDeadline

record cache =
  ca_token :: address
  ca_fresh :: int
  ca_last_known :: int

definition fresh_for :: "cache \<Rightarrow> int" where
  "fresh_for c = (if 0 < ca_fresh c then ca_fresh c else DefaultFresh)"

definition last_known_for :: "cache \<Rightarrow> int" where
  "last_known_for c = (if 0 < ca_last_known c then ca_last_known c else DefaultLastKnown)"

definition balance_key :: "('pk, 'sk) crypto \<Rightarrow> address \<Rightarrow> string" where
  "balance_key C payer = ''bal:{'' @ to_lower (address_string C payer) @ ''}''"

text \<open>\<open>read\<close>: the value and the time of a cache entry; a corrupt entry is a miss.\<close>

definition parse_entry :: "string option list \<Rightarrow> (int \<times> int) option" where
  "parse_entry vals =
     (case vals of
        [Some vs, Some ts] \<Rightarrow>
          if vs = [] \<or> ts = [] then None
          else (case (big_set_string vs, parse_int64 ts) of
                  (Some v, Some ms) \<Rightarrow> Some (v, ms * msec)
                | _ \<Rightarrow> None)
      | _ \<Rightarrow> None)"

definition cache_read ::
  "('pk, 'sk) crypto \<Rightarrow> 'r redis \<Rightarrow> fault \<Rightarrow> int \<Rightarrow> address \<Rightarrow> 'r
     \<Rightarrow> (balance_error, (int \<times> int) option) result" where
  "cache_read C R fault rnow payer s =
     (case snd (deliver fault (\<lambda>s. (s, rd_hmget R s rnow (balance_key C payer) [''v'', ''t''])) s) of
        Some (Inr vals) \<Rightarrow> Inr (parse_entry vals)
      | _ \<Rightarrow> Inl CacheDown)"

text \<open>
  \<open>Get\<close>: the result, and whether a read of the chain was started or joined.  The age
  saturates as \<open>Time.Sub\<close> does.
\<close>

definition balance_get ::
  "('pk, 'sk) crypto \<Rightarrow> 'r redis \<Rightarrow> cache \<Rightarrow> fault \<Rightarrow> int \<Rightarrow> int \<Rightarrow> address
     \<Rightarrow> (rpc_error, int) result option \<Rightarrow> 'r \<Rightarrow> (balance_error, balance) result \<times> bool" where
  "balance_get C R c fault rnow clock payer arrival s =
     (case cache_read C R fault rnow payer s of
        Inl e \<Rightarrow> (Inl e, False)
      | Inr e \<Rightarrow>
          let wait =
            (case arrival of
               None \<Rightarrow> Inl BalanceDeadline
             | Some (Inl err) \<Rightarrow> Inl (FetchFailed err)
             | Some (Inr v) \<Rightarrow> Inr \<lparr>bl_value = v, bl_age = 0, bl_source = SourceFetched\<rparr>)
          in (case e of
                None \<Rightarrow> (wait, True)
              | Some (v, at) \<Rightarrow>
                  let age = sat64 (clock - at)
                  in if age \<le> fresh_for c
                     then (Inr \<lparr>bl_value = v, bl_age = age, bl_source = SourceFresh\<rparr>, False)
                     else if age \<le> last_known_for c
                     then (Inr \<lparr>bl_value = v, bl_age = age, bl_source = SourceLastKnown\<rparr>, True)
                     else (wait, True)))"

text \<open>\<open>write\<close>: \<open>HSET\<close> and \<open>PEXPIRE\<close> in one transaction; the client rounds a short time to live up.\<close>

definition px_millis :: "int \<Rightarrow> int" where
  "px_millis d = (if 0 < d \<and> d < msec then 1 else millis d)"

definition cache_write ::
  "('pk, 'sk) crypto \<Rightarrow> 'r redis \<Rightarrow> cache \<Rightarrow> fault \<Rightarrow> int \<Rightarrow> address \<Rightarrow> int \<Rightarrow> int \<Rightarrow> 'r \<Rightarrow> 'r" where
  "cache_write C R c fault rnow payer v at s =
     fst (deliver fault
            (\<lambda>s. (rd_pexpire R
                    (fst (rd_hset R s rnow (balance_key C payer)
                            [(''v'', int_str v), (''t'', int_str (unix_milli at))]))
                    rnow (balance_key C payer) (px_millis (last_known_for c)), ())) s)"

text \<open>The detached read: \<open>balanceOf\<close>, then the cache write, whose failure is only logged.\<close>

definition fetch ::
  "('pk, 'sk) crypto \<Rightarrow> 'r redis \<Rightarrow> cache \<Rightarrow> http \<Rightarrow> fault \<Rightarrow> int \<Rightarrow> int \<Rightarrow> address \<Rightarrow> 'r
     \<Rightarrow> 'r \<times> (rpc_error, int) result" where
  "fetch C R c http fault rnow clock payer s =
     (case balance_of C http (ca_token c) payer of
        Inl e \<Rightarrow> (s, Inl e)
      | Inr v \<Rightarrow> (cache_write C R c fault rnow payer v clock s, Inr v))"

section \<open>Lemmas\<close>

lemma balance_key_not_ledger: "ledger_key k \<Longrightarrow> k \<noteq> balance_key C p"
  by (auto simp: ledger_key_def balance_key_def)

lemma last_known_pos: "0 < last_known_for c"
  by (simp add: last_known_for_def DefaultLastKnown_def)

lemma px_millis_pos: "0 < d \<Longrightarrow> 0 < px_millis d"
  by (simp add: px_millis_def millis_def pos_imp_zdiv_pos_iff)

lemma hset_other: "k \<noteq> k' \<Longrightarrow> fst (ks_hset v k' fs) k = v k"
  by (simp add: ks_hset_def split: option.splits prod.splits rvalue.splits)

text \<open>A cache write is a step of the system outside the ledger.\<close>

lemma cache_write_elsewhere:
  assumes "key_laws R"
  shows "ledger_step C R rc t s Elsewhere (cache_write C' R c fault t payer v at s)"
proof (rule step_elsewhere)
  fix k assume k: "ledger_key k"
  have one: "rd_view R (rd_pexpire R (fst (rd_hset R s t (balance_key C' payer) fs)) t (balance_key C' payer) ttl) t k
      = rd_view R s t k" for s fs ttl
    using law_hset [OF assms, of s t "balance_key C' payer" fs] balance_key_not_ledger [OF k, of C' payer]
    by (cases "rd_hset R s t (balance_key C' payer) fs")
      (simp add: law_pexpire [OF assms] pexpire_other hset_other)
  show "rd_view R (cache_write C' R c fault t payer v at s) t k = rd_view R s t k"
    unfolding cache_write_def
    by (rule deliver_frame [where view = "\<lambda>s. rd_view R s t"]) (simp add: one)
qed

lemma fetch_elsewhere:
  assumes "key_laws R" "fetch C' R c http fault t clock payer s = (s', r)"
  shows "ledger_step C R rc t s Elsewhere s'"
  using assms cache_write_elsewhere [OF assms(1)]
  by (auto simp: fetch_def intro: step_elsewhere split: sum.splits)

lemma parse_entry_written:
  "is_int64 ms \<Longrightarrow> parse_entry [Some (int_str v), Some (int_str ms)] = Some (v, ms * msec)"
  by (simp add: parse_entry_def parse_int64_int_str)

text \<open>What a write leaves in the cache until its time to live is over.\<close>

lemma cache_write_view:
  assumes R: "key_laws R" and h: "\<And>w e. rd_view R s t (balance_key C p) \<noteq> Some (RString w, e)"
  obtains hm where "rd_view R (cache_write C R c Answered t p v at s) t (balance_key C p) =
      Some (RHash hm, Some (t + px_millis (last_known_for c)))"
    "map_of hm ''v'' = Some (int_str v)" "map_of hm ''t'' = Some (int_str (unix_milli at))"
proof -
  let ?fs = "[(''v'', int_str v), (''t'', int_str (unix_milli at))]"
  obtain s1 r where s1: "rd_hset R s t (balance_key C p) ?fs = (s1, r)"
    by (cases "rd_hset R s t (balance_key C p) ?fs")
  obtain hm e where hm: "rd_view R s1 t (balance_key C p) = Some (RHash hm, e)"
    "map_of hm ''v'' = Some (int_str v)" "map_of hm ''t'' = Some (int_str (unix_milli at))"
  proof (cases "rd_view R s t (balance_key C p)")
    case None
    then show thesis using law_hset [OF R s1]
      by (intro that [of "rev ?fs" None]) (simp_all add: ks_hset_def)
  next
    case (Some a)
    with h obtain h0 e where "rd_view R s t (balance_key C p) = Some (RHash h0, e)"
      by (cases a; cases "fst a") auto
    then show thesis using law_hset [OF R s1]
      by (intro that [of "rev ?fs @ h0" e]) (simp_all add: ks_hset_def)
  qed
  then show thesis
    using px_millis_pos [OF last_known_pos, of c]
    by (intro that [of hm]) (simp_all add: cache_write_def s1 law_pexpire [OF R] ks_pexpire_def)
qed

section \<open>Properties\<close>

text \<open>
  Where a balance comes from.  A fresh one is no older than the fresh limit; a last
  known one is no older than its limit and a refresh is under way; any other was read from
  the chain before the deadline.
\<close>

theorem balance_source_bounds:
  assumes "balance_get C R c fault rnow clock p arrival s = (Inr b, started)"
  shows "case bl_source b of
      SourceFresh \<Rightarrow> bl_age b \<le> fresh_for c \<and> \<not> started
    | SourceLastKnown \<Rightarrow> fresh_for c < bl_age b \<and> bl_age b \<le> last_known_for c \<and> started
    | SourceFetched \<Rightarrow> arrival = Some (Inr (bl_value b)) \<and> started"
  using assms
  by (auto simp: balance_get_def Let_def split: sum.splits option.splits prod.splits if_splits)

definition demo_cache :: cache where
  "demo_cache = \<lparr>ca_token = demo_payTo, ca_fresh = 0, ca_last_known = 0\<rparr>"

lemma demo_miss: "cache_read demo_crypto mem_redis Answered 0 demo_payTo empty_mem = Inr None"
  by (simp add: cache_read_def mem_redis_def empty_mem_def ks_hmget_def live_at_def parse_entry_def)

theorem balance_source_bounds_witness:
  "case bl_source \<lparr>bl_value = 7, bl_age = 0, bl_source = SourceFetched\<rparr> of
      SourceFresh \<Rightarrow> bl_age \<lparr>bl_value = 7, bl_age = 0, bl_source = SourceFetched\<rparr> \<le> fresh_for demo_cache \<and> \<not> True
    | SourceLastKnown \<Rightarrow> fresh_for demo_cache < bl_age \<lparr>bl_value = 7, bl_age = 0, bl_source = SourceFetched\<rparr> \<and>
        bl_age \<lparr>bl_value = 7, bl_age = 0, bl_source = SourceFetched\<rparr> \<le> last_known_for demo_cache \<and> True
    | SourceFetched \<Rightarrow> Some (Inr 7) =
        Some (Inr (bl_value \<lparr>bl_value = 7, bl_age = 0, bl_source = SourceFetched\<rparr>) :: (rpc_error, int) result) \<and> True"
  by (rule balance_source_bounds [of demo_crypto mem_redis demo_cache Answered 0 0 demo_payTo
        "Some (Inr 7)" empty_mem]) (simp add: balance_get_def demo_miss)

text \<open>
  The cache returns what was last written.  Until the entry's time to live is over, a
  request gets the written value with its age: at once when it is fresh or last known, and
  past that only what the chain answers before the deadline.
\<close>

theorem written_balance_is_read:
  assumes "key_laws R" "\<And>w e. rd_view R s t (balance_key C p) \<noteq> Some (RString w, e)"
    and "is_int64 (unix_milli at)" "t \<le> t'" "t' < t + px_millis (last_known_for c)"
  shows "balance_get C R c Answered t' clock p arrival (cache_write C R c Answered t p v at s) =
    (let age = sat64 (clock - unix_milli at * msec) in
     if age \<le> fresh_for c then (Inr \<lparr>bl_value = v, bl_age = age, bl_source = SourceFresh\<rparr>, False)
     else if age \<le> last_known_for c
       then (Inr \<lparr>bl_value = v, bl_age = age, bl_source = SourceLastKnown\<rparr>, True)
     else (case arrival of
             None \<Rightarrow> Inl BalanceDeadline
           | Some (Inl err) \<Rightarrow> Inl (FetchFailed err)
           | Some (Inr w) \<Rightarrow> Inr \<lparr>bl_value = w, bl_age = 0, bl_source = SourceFetched\<rparr>, True))"
proof -
  obtain hm where hm: "rd_view R (cache_write C R c Answered t p v at s) t (balance_key C p) =
      Some (RHash hm, Some (t + px_millis (last_known_for c)))"
    "map_of hm ''v'' = Some (int_str v)" "map_of hm ''t'' = Some (int_str (unix_milli at))"
    by (rule cache_write_view [OF assms(1,2)])
  then have "rd_view R (cache_write C R c Answered t p v at s) t' (balance_key C p) =
      Some (RHash hm, Some (t + px_millis (last_known_for c)))"
    using assms(4,5) by (simp add: law_time [OF assms(1,4)] live_at_Some)
  then have "cache_read C R Answered t' p (cache_write C R c Answered t p v at s) =
      Inr (Some (v, unix_milli at * msec))"
    using hm assms(3)
    by (simp add: cache_read_def law_hmget [OF assms(1)] ks_hmget_def parse_entry_written)
  then show ?thesis by (simp add: balance_get_def Let_def)
qed

theorem written_balance_is_read_witness:
  "balance_get demo_crypto mem_redis demo_cache Answered 10 (10 * msec) demo_payTo None
     (cache_write demo_crypto mem_redis demo_cache Answered 0 demo_payTo 5000 0 empty_mem) =
    (Inr \<lparr>bl_value = 5000, bl_age = 10 * msec, bl_source = SourceFresh\<rparr>, False)"
  using written_balance_is_read [OF mem_keys, of empty_mem 0 demo_crypto demo_payTo 0 10 demo_cache
      "10 * msec" None 5000]
  by (simp add: empty_mem_view is_int64_def unix_milli_def px_millis_def demo_cache_def last_known_for_def
      DefaultLastKnown_def millis_def sat64_def fresh_for_def DefaultFresh_def Let_def)

end
