(* ===== verification/Buyer.thy ===== *)
theory Buyer
  imports Radius Verify
begin

text \<open>
  The paying side, \<open>internal/buyer/buyer.go\<close>: a wallet signs an EIP-3009 authorization for one
  offer of a 402, chooses the offer it can pay, runs the 402, pay, retry loop, and asks the
  test network's faucet.  The random nonce, the clock and the two HTTP exchanges are
  arguments; a nonce of \<open>None\<close> is a failed random read.
\<close>

section \<open>Wallets and signing\<close>

record 'sk wallet =
  wa_key :: 'sk
  wa_network :: profile

datatype buyer_error =
    OnlyExactEip3009 string string
  | OfferNetwork string string
  | OfferAsset string
  | OfferPayTo evm_error
  | OfferAmount evm_error
  | NonceFailed
  | SignPanicked
  | AboveThreshold string string
  | NoPayableOffer "string list"
  | RequestFailed http_error
  | NoPaymentRequiredHeader
  | PaymentRequiredHeader codec_error

definition wallet_address :: "('pk, 'sk) crypto \<Rightarrow> 'sk wallet \<Rightarrow> address" where
  "wallet_address C w = key_address C (wa_key w)"

definition wallet_domain :: "'sk wallet \<Rightarrow> domain" where
  "wallet_domain w =
     \<lparr>d_name = SBCName, d_version = SBCVersion, d_chain = p_chain (wa_network w), d_contract = SBCAddress\<rparr>"

text \<open>How long the signature lives: the offer's window unless a shorter one is asked for.\<close>

definition sign_window :: "int \<Rightarrow> int \<Rightarrow> int" where
  "sign_window timeout validFor =
     (let w0 = i64 (timeout * nsec);
          window = (if w0 \<le> 0 then 60 * nsec else w0)
      in if validFor \<le> 0 \<or> validFor > window then window else validFor)"

definition sign ::
  "('pk, 'sk) crypto \<Rightarrow> 'sk wallet \<Rightarrow> requirements \<Rightarrow> resource option \<Rightarrow> int \<Rightarrow> int \<Rightarrow> bytes option
     \<Rightarrow> (buyer_error, payment_payload) result" where
  "sign C w req res now validFor nonce =
     (if rq_scheme req \<noteq> SchemeExact \<or> transfer_method req \<noteq> TransferEIP3009
        then Inl (OnlyExactEip3009 (rq_scheme req) (transfer_method req))
      else if rq_network req \<noteq> network (wa_network w)
        then Inl (OfferNetwork (rq_network req) (network (wa_network w)))
      else if \<not> equal_fold (rq_asset req) SBC then Inl (OfferAsset (rq_asset req))
      else
     bind_r (map_err OfferPayTo (parse_address (rq_payTo req))) (\<lambda>to.
     bind_r (map_err OfferAmount (parse_uint256 (rq_amount req))) (\<lambda>value.
        case nonce of
          None \<Rightarrow> Inl NonceFailed
        | Some n \<Rightarrow>
            let auth = \<lparr>a_from = wallet_address C w, a_to = to, a_value = value, a_after = 0,
                        a_before = unix (now + sign_window (rq_timeout req) validFor), a_nonce = n\<rparr>
            in (case digest C (wallet_domain w) auth of
                  None \<Rightarrow> Inl SignPanicked
                | Some h \<Rightarrow>
                    Inr \<lparr>pp_version = x402_version, pp_resource = res, pp_accepted = req,
                         pp_payload = Some (enc_eip3009
                           \<lparr>e_signature = hex_0x (sign_digest C (wa_key w) h),
                            e_authorization = wire_authorization C auth\<rparr>),
                         pp_extensions = []\<rparr>))))"

section \<open>Choosing an offer\<close>

definition payable_offer :: "'sk wallet \<Rightarrow> requirements \<Rightarrow> bool" where
  "payable_offer w req \<longleftrightarrow>
     rq_scheme req = SchemeExact \<and> transfer_method req = TransferEIP3009 \<and>
     rq_network req = network (wa_network w) \<and> equal_fold (rq_asset req) SBC"

definition offer_line :: "requirements \<Rightarrow> string" where
  "offer_line req =
     rq_scheme req @ ''/'' @ transfer_method req @ '' on '' @ rq_network req @ '' for '' @ rq_amount req"

fun choose_from ::
  "'sk wallet \<Rightarrow> int option \<Rightarrow> string list \<Rightarrow> requirements list \<Rightarrow> (buyer_error, requirements) result" where
  "choose_from w limit seen [] = Inl (NoPayableOffer seen)"
| "choose_from w limit seen (req # reqs) =
     (let seen' = seen @ [offer_line req] in
      if \<not> payable_offer w req then choose_from w limit seen' reqs
      else (case parse_uint256 (rq_amount req) of
              Inl _ \<Rightarrow> choose_from w limit seen' reqs
            | Inr amount \<Rightarrow>
                (case limit of
                   None \<Rightarrow> Inr req
                 | Some m \<Rightarrow>
                     if amount > m then Inl (AboveThreshold (format_sbc amount) (format_sbc m))
                     else Inr req)))"

definition choose_offer ::
  "'sk wallet \<Rightarrow> payment_required \<Rightarrow> int option \<Rightarrow> (buyer_error, requirements) result" where
  "choose_offer w pr limit = choose_from w limit [] (pr_accepts pr)"

section \<open>The payment loop\<close>

record http_response =
  hr_status :: int
  hr_headers :: "(string \<times> string) list"
  hr_body :: string

record pay_outcome =
  po_required :: "payment_required option"
  po_paid :: "requirements option"
  po_status :: int
  po_body :: string
  po_headers :: "(string \<times> string) list"
  po_settlement :: "settle_response option"

definition zero_outcome :: pay_outcome where
  "zero_outcome =
     \<lparr>po_required = None, po_paid = None, po_status = 0, po_body = [], po_headers = [], po_settlement = None\<rparr>"

text \<open>\<open>http.Header.Get\<close>: names compare without case, the first value, empty when absent.\<close>

definition header_get :: "(string \<times> string) list \<Rightarrow> string \<Rightarrow> string" where
  "header_get hs k =
     (case find (\<lambda>(n, v). to_lower n = to_lower k) hs of None \<Rightarrow> [] | Some (n, v) \<Rightarrow> v)"

text \<open>What \<open>do\<close> reads of a body: the rest is cut off\<close>

definition read_limit :: nat where "read_limit = 8 * 2 ^ 20"

definition read_body :: "http_response \<Rightarrow> string" where
  "read_body r = take read_limit (hr_body r)"

text \<open>
  \<open>Pay\<close>: \<open>exchange\<close> is what one request with the given extra headers brings; the retry
  carries the payment.  The result is the outcome with its error, and the payment sent.
\<close>

definition pay ::
  "('pk, 'sk) crypto \<Rightarrow> 'sk wallet \<Rightarrow> ((string \<times> string) list \<Rightarrow> (http_error, http_response) result)
     \<Rightarrow> int option \<Rightarrow> int \<Rightarrow> int \<Rightarrow> bytes option \<Rightarrow> pay_outcome \<times> buyer_error option \<times> string option" where
  "pay C w exchange limit now validFor nonce =
     (case exchange [] of
        Inl e \<Rightarrow> (zero_outcome, Some (RequestFailed e), None)
      | Inr first \<Rightarrow>
          let asis = zero_outcome\<lparr>po_status := hr_status first, po_body := read_body first,
                                  po_headers := hr_headers first\<rparr>;
              hdr = header_get (hr_headers first) HeaderPaymentRequired
          in if hr_status first \<noteq> 402 then (asis, None, None)
             else if hdr = [] then (asis, Some NoPaymentRequiredHeader, None)
             else (case decode_payment_required hdr of
                     Inl e \<Rightarrow> (asis, Some (PaymentRequiredHeader e), None)
                   | Inr pr \<Rightarrow>
                       (case choose_offer w pr limit of
                          Inl e \<Rightarrow> (asis\<lparr>po_required := Some pr\<rparr>, Some e, None)
                        | Inr offer \<Rightarrow>
                            (case sign C w offer (Some (pr_resource pr)) now validFor nonce of
                               Inl e \<Rightarrow> (zero_outcome\<lparr>po_required := Some pr\<rparr>, Some e, None)
                             | Inr pp \<Rightarrow>
                                 let sig = encode_payment_payload pp;
                                     tried = zero_outcome\<lparr>po_required := Some pr, po_paid := Some offer\<rparr>
                                 in (case exchange [(HeaderPaymentSignature, sig)] of
                                       Inl e \<Rightarrow> (tried, Some (RequestFailed e), Some sig)
                                     | Inr second \<Rightarrow>
                                         let h = header_get (hr_headers second) HeaderPaymentResponse in
                                         (tried\<lparr>po_status := hr_status second, po_body := read_body second,
                                                po_headers := hr_headers second,
                                                po_settlement :=
                                                  (if h = [] then None
                                                   else (case decode_settle_response h of
                                                           Inl _ \<Rightarrow> None | Inr r \<Rightarrow> Some r))\<rparr>,
                                          None, Some sig))))))"

section \<open>The faucet\<close>

record drip_error =
  de_code :: string
  de_message :: string
  de_challenge :: string

record drip_result =
  dr_success :: bool
  dr_txHash :: string
  dr_retryAfterMs :: int
  dr_error :: "drip_error option"

definition zero_drip_error :: drip_error where
  "zero_drip_error = \<lparr>de_code = [], de_message = [], de_challenge = []\<rparr>"

definition zero_drip :: drip_result where
  "zero_drip = \<lparr>dr_success = False, dr_txHash = [], dr_retryAfterMs = 0, dr_error = None\<rparr>"

definition set_challenge :: "string \<Rightarrow> json \<Rightarrow> string \<Rightarrow> string option" where
  "set_challenge f v c = dec_str c v"

definition set_drip_error :: "string \<Rightarrow> json \<Rightarrow> drip_error \<Rightarrow> drip_error option" where
  "set_drip_error f v e =
     (if f = ''code'' then map_option (\<lambda>s. e\<lparr>de_code := s\<rparr>) (dec_str (de_code e) v)
      else if f = ''message'' then map_option (\<lambda>s. e\<lparr>de_message := s\<rparr>) (dec_str (de_message e) v)
      else map_option (\<lambda>s. e\<lparr>de_challenge := s\<rparr>)
             (dec_struct [''challenge''] set_challenge (de_challenge e) v))"

definition set_drip :: "string \<Rightarrow> json \<Rightarrow> drip_result \<Rightarrow> drip_result option" where
  "set_drip f v d =
     (if f = ''success'' then map_option (\<lambda>b. d\<lparr>dr_success := b\<rparr>) (dec_bool (dr_success d) v)
      else if f = ''tx_hash'' then map_option (\<lambda>s. d\<lparr>dr_txHash := s\<rparr>) (dec_str (dr_txHash d) v)
      else if f = ''retry_after_ms''
        then map_option (\<lambda>n. d\<lparr>dr_retryAfterMs := n\<rparr>) (dec_int (dr_retryAfterMs d) v)
      else map_option (\<lambda>x. d\<lparr>dr_error := x\<rparr>)
             (dec_ptr (dec_struct [''code'', ''message'', ''details''] set_drip_error)
                zero_drip_error (dr_error d) v))"

datatype faucet_error =
    NoFaucet string
  | FaucetTransport http_error
  | FaucetBody int
  | FaucetRefused drip_result
  | WrongChallenge drip_result

text \<open>One request to \<open>/drip\<close>; the keys of the body are in order.\<close>

definition drip_post :: "http \<Rightarrow> (string \<times> string) list \<Rightarrow> (faucet_error, drip_result) result" where
  "drip_post http members =
     (case http (print_json (JObj (map (\<lambda>(k, v). (k, JStr v)) members))) of
        Inl e \<Rightarrow> Inl (FaucetTransport e)
      | Inr (status, body) \<Rightarrow>
          or_err (FaucetBody status)
            (Option.bind (decode_stream body)
               (dec_struct [''success'', ''tx_hash'', ''retry_after_ms'', ''error''] set_drip zero_drip)))"

definition drip_error_text :: "drip_result \<Rightarrow> string" where
  "drip_error_text d =
     (case dr_error d of
        None \<Rightarrow> ''no error given''
      | Some e \<Rightarrow> de_code e @ '': '' @ de_message e)"

definition faucet_challenge :: "string \<Rightarrow> string" where
  "faucet_challenge addr = ''Radius Faucet: drip SBC to '' @ addr"

definition drip :: "('pk, 'sk) crypto \<Rightarrow> 'sk wallet \<Rightarrow> http \<Rightarrow> (faucet_error, drip_result) result" where
  "drip C w http =
     (if p_faucet (wa_network w) = [] then Inl (NoFaucet (p_name (wa_network w)))
      else
        let addr = address_string C (wallet_address C w) in
        bind_r (drip_post http [(''address'', addr), (''token'', ''SBC'')]) (\<lambda>first.
          if dr_success first then Inr first
          else (case dr_error first of
                  None \<Rightarrow> Inl (FaucetRefused first)
                | Some e \<Rightarrow>
                    if de_code e \<noteq> ''signature_required'' then Inl (FaucetRefused first)
                    else if de_challenge e \<noteq> faucet_challenge addr then Inl (WrongChallenge first)
                    else
                      let sig = sign_digest C (wa_key w) (personal_hash C (str_bytes (faucet_challenge addr))) in
                      bind_r (drip_post http
                                [(''address'', addr), (''signature'', hex_0x sig), (''token'', ''SBC'')])
                        (\<lambda>second. if dr_success second then Inr second
                                   else Inl (FaucetRefused second)))))"

section \<open>Lemmas: signing\<close>

lemma sign_Inr:
  assumes "sign C w req res now validFor nonce = Inr pp"
  obtains to amt n h where
    "payable_offer w req" "parse_address (rq_payTo req) = Inr to" "parse_uint256 (rq_amount req) = Inr amt"
    "nonce = Some n"
    "digest C (wallet_domain w)
       \<lparr>a_from = wallet_address C w, a_to = to, a_value = amt, a_after = 0,
        a_before = unix (now + sign_window (rq_timeout req) validFor), a_nonce = n\<rparr> = Some h"
    "pp = \<lparr>pp_version = x402_version, pp_resource = res, pp_accepted = req,
           pp_payload = Some (enc_eip3009
             \<lparr>e_signature = hex_0x (sign_digest C (wa_key w) h),
              e_authorization = wire_authorization C
                \<lparr>a_from = wallet_address C w, a_to = to, a_value = amt, a_after = 0,
                 a_before = unix (now + sign_window (rq_timeout req) validFor), a_nonce = n\<rparr>\<rparr>),
           pp_extensions = []\<rparr>"
  using assms
  by (auto simp: sign_def payable_offer_def Let_def bind_r_eq_Inr map_err_eq_Inr
      split: if_splits option.splits)

lemma address_string_nonempty: "address_string C a \<noteq> []"
  by (simp add: address_string_def Let_def)

lemma hex_0x_nonempty: "hex_0x b \<noteq> []"
  by (simp add: hex_0x_def)

lemma wire_nonempty:
  "\<not> list_ex (\<lambda>v. v = []) [hex_0x s, w_from (wire_authorization C a), w_to (wire_authorization C a),
      w_value (wire_authorization C a), w_validAfter (wire_authorization C a),
      w_validBefore (wire_authorization C a), w_nonce (wire_authorization C a)]"
  by (simp add: wire_authorization_def address_string_nonempty hex_0x_nonempty)

text \<open>A wallet can sign every offer it can pay.\<close>

lemma sign_total:
  assumes C: "crypto_laws C" and o: "payable_offer w req" "parse_address (rq_payTo req) = Inr to"
    "parse_uint256 (rq_amount req) = Inr amt" and n: "length n = 32"
    and b: "0 \<le> unix (now + sign_window (rq_timeout req) validFor)"
      "unix (now + sign_window (rq_timeout req) validFor) \<le> max_uint256"
  obtains pp where "sign C w req res now validFor (Some n) = Inr pp"
proof -
  let ?a = "\<lparr>a_from = wallet_address C w, a_to = to, a_value = amt, a_after = 0,
      a_before = unix (now + sign_window (rq_timeout req) validFor), a_nonce = n\<rparr>"
  have "wf_authorization ?a"
    using o n b parse_uint256_bounds [OF o(3)] parse_address_length [OF o(2)]
    by (simp add: wf_authorization_def wallet_address_def key_address_is_address C max_uint256_def)
  moreover have "is_address (d_contract (wallet_domain w))" by (simp add: wallet_domain_def is_address_SBC)
  ultimately obtain h where "digest C (wallet_domain w) ?a = Some h" by (rule digest_Some)
  with o show thesis
    by (intro that) (auto simp: sign_def payable_offer_def Let_def)
qed

text \<open>A signed well-formed authorization, echoed with the terms it pays, verifies.\<close>

lemma signed_authorization_verifies:
  assumes C: "crypto_laws C" and d: "is_address (d_contract dm)" and wf: "wf_authorization auth"
    and h: "digest C dm auth = Some h" and v: "hd (sign_compact C k h) \<in> {27, 28}"
    and frm: "a_from auth = key_address C k"
    and pp: "pp_version pp = x402_version" "pp_accepted pp = route"
      "pp_payload pp = Some (enc_eip3009
         \<lparr>e_signature = hex_0x (sign_digest C k h), e_authorization = wire_authorization C auth\<rparr>)"
    and route: "payable_route route price payTo" and terms: "terms_met now route price payTo auth"
  shows "verify C now route dm pp = Inr
     \<lparr>v_payer = a_from auth, v_auth = auth, v_signature = sign_digest C k h, v_expires = a_before auth * nsec\<rparr>"
proof -
  have len: "length h = 32" by (rule digest_length [OF C h])
  have rec: "recover C h (sign_digest C k h) = Inr (a_from auth)"
    using recover_sign_digest [OF C len v] frm by simp
  have raw: "eip3009_of pp = Inr
      \<lparr>e_signature = hex_0x (sign_digest C k h), e_authorization = wire_authorization C auth\<rparr>"
    using wire_nonempty by (intro eip3009_of_enc [OF pp(3)]) simp
  show ?thesis unfolding verify_Inr_iff
    using pp route terms h rec raw parse_wire_authorization [OF wf, of C]
      parse_signature_hex [OF length_sign_digest [OF C len, of k]]
    by (auto simp: echo_matches_def payable_route_def)
qed

lemma payable_offer_route:
  assumes "payable_offer w req" "parse_address (rq_payTo req) = Inr to" "parse_uint256 (rq_amount req) = Inr v"
  shows "payable_route req v to"
  using assms by (simp add: payable_offer_def payable_route_def)

lemma sign_verifies:
  assumes C: "crypto_laws C" and s: "sign C w req res now validFor (Some n) = Inr pp" and n: "length n = 32"
    and v: "\<And>h. length h = 32 \<Longrightarrow> hd (sign_compact C (wa_key w) h) \<in> {27, 28}"
    and t: "unix t < unix (now + sign_window (rq_timeout req) validFor)"
      "0 < rq_timeout req \<Longrightarrow> unix (now + sign_window (rq_timeout req) validFor) \<le> accept_limit t req"
      "is_int64 (unix (now + sign_window (rq_timeout req) validFor))" "0 \<le> unix t"
  obtains r where "verify C t req (wallet_domain w) pp = Inr r" "v_payer r = wallet_address C w"
    "parse_uint256 (rq_amount req) = Inr (a_value (v_auth r))"
    "parse_address (rq_payTo req) = Inr (a_to (v_auth r))" "a_nonce (v_auth r) = n"
    "v_expires r = unix (now + sign_window (rq_timeout req) validFor) * nsec"
proof (rule sign_Inr [OF s])
  fix to amt m h
  let ?a = "\<lparr>a_from = wallet_address C w, a_to = to, a_value = amt, a_after = 0,
      a_before = unix (now + sign_window (rq_timeout req) validFor), a_nonce = m\<rparr>"
  assume p: "payable_offer w req" "parse_address (rq_payTo req) = Inr to" "parse_uint256 (rq_amount req) = Inr amt"
    and m: "Some n = Some m" and h: "digest C (wallet_domain w) ?a = Some h"
    and pp: "pp = \<lparr>pp_version = x402_version, pp_resource = res, pp_accepted = req,
           pp_payload = Some (enc_eip3009
             \<lparr>e_signature = hex_0x (sign_digest C (wa_key w) h), e_authorization = wire_authorization C ?a\<rparr>),
           pp_extensions = []\<rparr>"
  have wf: "wf_authorization ?a"
    using p(2,3) m n t
    by (auto simp: wf_authorization_def wallet_address_def key_address_is_address [OF C] is_int64_def max_uint256_def
        dest: parse_address_length parse_uint256_bounds)
  have "verify C t req (wallet_domain w) pp = Inr \<lparr>v_payer = a_from ?a, v_auth = ?a,
      v_signature = sign_digest C (wa_key w) h, v_expires = a_before ?a * nsec\<rparr>"
  proof (rule signed_authorization_verifies [OF C _ wf h])
    show "is_address (d_contract (wallet_domain w))" by (simp add: wallet_domain_def is_address_SBC)
    show "hd (sign_compact C (wa_key w) h) \<in> {27, 28}" by (rule v) (rule digest_length [OF C h])
    show "payable_route req amt to" by (rule payable_offer_route [OF p])
    show "terms_met t req amt to ?a" using t by (simp add: terms_met_def)
  qed (simp_all add: pp wallet_address_def)
  from that [OF this] show thesis using p m by simp
qed


section \<open>Lemmas: choosing and paying\<close>

lemma choose_from_Inr:
  assumes "choose_from w limit seen reqs = Inr req"
  shows "\<exists>pre post amount. reqs = pre @ req # post \<and> payable_offer w req \<and>
    parse_uint256 (rq_amount req) = Inr amount \<and> (\<forall>m. limit = Some m \<longrightarrow> amount \<le> m) \<and>
    (\<forall>q \<in> set pre. \<not> (payable_offer w q \<and> is_ok (parse_uint256 (rq_amount q))))"
  using assms
proof (induction w limit seen reqs rule: choose_from.induct)
  case (2 w limit seen q qs)
  show ?case
  proof (cases "payable_offer w q \<and> is_ok (parse_uint256 (rq_amount q))")
    case True
    then obtain a where "parse_uint256 (rq_amount q) = Inr a" by (cases "parse_uint256 (rq_amount q)") auto
    with True 2(3) have "q = req" "\<forall>m. limit = Some m \<longrightarrow> a \<le> m"
      by (auto simp: Let_def split: option.splits if_splits)
    with True \<open>parse_uint256 (rq_amount q) = Inr a\<close> show ?thesis by fastforce
  next
    case False
    have rest: "choose_from w limit (seen @ [offer_line q]) qs = Inr req"
      using False 2(3) by (cases "parse_uint256 (rq_amount q)") (auto simp: Let_def split: if_splits)
    obtain pre post amount where "qs = pre @ req # post" "payable_offer w req"
      "parse_uint256 (rq_amount req) = Inr amount" "\<forall>m. limit = Some m \<longrightarrow> amount \<le> m"
      "\<forall>q \<in> set pre. \<not> (payable_offer w q \<and> is_ok (parse_uint256 (rq_amount q)))"
    proof (cases "payable_offer w q")
      case True
      with False obtain e where e: "parse_uint256 (rq_amount q) = Inl e"
        by (cases "parse_uint256 (rq_amount q)") auto
      from True have n: "\<not> \<not> payable_offer w q" by simp
      from that 2(2) [OF refl n e rest] show ?thesis by blast
    next
      case False
      from that 2(1) [OF refl False rest] show ?thesis by blast
    qed
    with False show ?thesis by (intro exI [of _ "q # pre"] exI [of _ post] exI [of _ amount]) auto
  qed
qed simp

lemma pay_sends:
  assumes "pay C w exchange limit now validFor nonce = (out, err, Some sig)"
  obtains first pr offer pp where "exchange [] = Inr first" "hr_status first = 402"
    "decode_payment_required (header_get (hr_headers first) HeaderPaymentRequired) = Inr pr"
    "choose_offer w pr limit = Inr offer" "sign C w offer (Some (pr_resource pr)) now validFor nonce = Inr pp"
    "sig = encode_payment_payload pp" "po_paid out = Some offer"
  using assms
  by (auto simp: pay_def Let_def split: sum.splits if_splits)

section \<open>Lemmas: the header of a signed payment\<close>

lemma ascii_hex_encode: "ascii (hex_encode b)"
proof (induction b)
  case (Cons x b)
  have "unat x < 256" using unsigned_less [of x] by simp
  then have "unat x div 16 < 16" "unat x mod 16 < 16" by simp_all
  moreover have "code (hex_char n) < 128" if "n < 16" for n using that by (simp add: hex_char_code)
  ultimately have "code (hex_char (unat x div 16)) < 128" "code (hex_char (unat x mod 16)) < 128" by blast+
  with Cons show ?case by (simp add: ascii_code)
qed (simp add: ascii_def)

lemma ascii_hex_0x: "ascii (hex_0x b)"
  using ascii_hex_encode [of b] by (simp add: hex_0x_def ascii_def)

lemma ascii_int_str: "ascii (int_str x)"
proof -
  have "wf_json (jint x)" by (rule wf_jint)
  then show ?thesis by (auto simp: jint_def list_all_iff num_char_def ascii_code is_digit_def)
qed

lemma ascii_address_string: "ascii (address_string C a)"
proof -
  have "list_all2 (\<lambda>c d. c = d \<or> c = to_upper_char d) s t \<Longrightarrow> ascii t \<Longrightarrow> ascii s" for s t
  proof (induction rule: list_all2_induct)
    case (Cons c s d t)
    have "code (to_upper_char d) \<le> code d"
      using to_upper_char_code [of d] by (cases "is_lower d") (simp_all add: to_upper_char_def [of d])
    with Cons show ?case by (auto simp: ascii_code)
  qed simp
  from this [OF address_string_case ascii_hex_encode] have "ascii (drop 2 (address_string C a))" .
  moreover have "address_string C a = ''0x'' @ drop 2 (address_string C a)"
    by (simp add: address_string_def Let_def)
  moreover have "ascii ''0x''" by (simp add: ascii_def)
  ultimately show ?thesis by (metis Un_iff ascii_def set_append)
qed


lemma length_hex_0x: "length (hex_0x b) = 2 + 2 * length b"
  by (simp add: hex_0x_def)

text \<open>A signed payment of ordinary size comes out of its header as it went in.\<close>

lemma signed_header_roundtrip:
  assumes C: "crypto_laws C" and s: "sign C w req res now validFor (Some n) = Inr pp" and n: "length n = 32"
    and res: "\<And>r. res = Some r \<Longrightarrow> ok_resource r"
    and req: "ok_requirements acc" "rq_scheme acc \<noteq> []" "rq_network acc \<noteq> []"
    and small: "(case res of None \<Rightarrow> 0 | Some r \<Rightarrow> json_size (enc_resource r)) + json_size (enc_requirements acc) \<le> 4000"
    and len: "\<And>amt. parse_uint256 (rq_amount req) = Inr amt \<Longrightarrow> length (int_str amt) \<le> 80"
      "length (int_str (unix (now + sign_window (rq_timeout req) validFor))) \<le> 80"
  shows "decode_payment_payload (encode_payment_payload (pp\<lparr>pp_accepted := acc\<rparr>)) = Inr (pp\<lparr>pp_accepted := acc\<rparr>)"
proof (rule sign_Inr [OF s])
  fix to amt m h
  let ?a = "\<lparr>a_from = wallet_address C w, a_to = to, a_value = amt, a_after = 0,
      a_before = unix (now + sign_window (rq_timeout req) validFor), a_nonce = m\<rparr>"
  let ?e = "\<lparr>e_signature = hex_0x (sign_digest C (wa_key w) h), e_authorization = wire_authorization C ?a\<rparr>"
  assume p: "payable_offer w req" "parse_address (rq_payTo req) = Inr to" "parse_uint256 (rq_amount req) = Inr amt"
    and m: "Some n = Some m" and h: "digest C (wallet_domain w) ?a = Some h"
    and pp: "pp = \<lparr>pp_version = x402_version, pp_resource = res, pp_accepted = req,
           pp_payload = Some (enc_eip3009 ?e), pp_extensions = []\<rparr>"
  have sig: "length (sign_digest C (wa_key w) h) = 65"
    by (rule length_sign_digest [OF C digest_length [OF C h]])
  have addr: "length (address_string C (wallet_address C w)) = 42" "length (address_string C to) = 42"
    using length_address_string [OF key_address_is_address [OF C]] length_address_string [OF parse_address_length [OF p(2)]]
    by (simp_all add: wallet_address_def)
  have wf: "wf_json (enc_eip3009 ?e)"
    by (auto simp: enc_eip3009_def enc_authorization_def wire_authorization_def ascii_hex_0x ascii_int_str
        ascii_address_string ascii_code [of "''signature''"] ascii_code [of "''authorization''"] ascii_code [of "''from''"]
        ascii_code [of "''to''"] ascii_code [of "''value''"] ascii_code [of "''validAfter''"]
        ascii_code [of "''validBefore''"] ascii_code [of "''nonce''"])
  have size: "json_size (enc_eip3009 ?e) \<le> 3700"
    using len(1) [OF p(3)] len(2) addr sig n m
    by (simp add: enc_eip3009_def enc_authorization_def wire_authorization_def length_hex_0x int_str_def [of 0] nat_str.simps)
  let ?pp = "pp\<lparr>pp_accepted := acc\<rparr>"
  have ok: "ok_payload ?pp"
    using req(1) wf res by (simp add: pp ok_payload_def ok_members_def is_int64_def x402_version_def split: option.splits)
  have "length (encode_payment_payload ?pp) \<le> 2 * json_size (enc_payment_payload ?pp) + 2"
    unfolding encode_payment_payload_def by (rule length_encode_header [OF wf_enc_payload [OF ok]])
  also have "\<dots> \<le> max_header_bytes"
    using small size
    by (simp add: pp enc_payment_payload_def omit_map_def jint_def x402_version_def int_str_def nat_str.simps
        max_header_bytes_def split: option.splits)
  finally have l: "length (encode_payment_payload ?pp) \<le> max_header_bytes" .
  show ?thesis
    by (rule payload_roundtrip [OF ok _ _ _ _ l]) (use req(2,3) in \<open>simp_all add: pp enc_eip3009_obj\<close>)
qed

lemma signed_header_decodes_echo:
  assumes "crypto_laws C" "sign C w req None now validFor (Some n) = Inr pp" "length n = 32"
    and "ok_requirements acc" "json_size (enc_requirements acc) \<le> 4000" "rq_scheme acc \<noteq> []" "rq_network acc \<noteq> []"
    and "\<And>amt. parse_uint256 (rq_amount req) = Inr amt \<Longrightarrow> length (int_str amt) \<le> 80"
      "length (int_str (unix (now + sign_window (rq_timeout req) validFor))) \<le> 80"
  shows "decode_payment_payload (encode_payment_payload (pp\<lparr>pp_accepted := acc\<rparr>)) = Inr (pp\<lparr>pp_accepted := acc\<rparr>)"
  by (rule signed_header_roundtrip [OF assms(1-3) _ assms(4,6,7) _ assms(8,9)]) (simp_all add: assms(5))

lemma signed_header_decodes:
  assumes "crypto_laws C" "sign C w req None now validFor (Some n) = Inr pp" "length n = 32"
    and "ok_requirements req" "json_size (enc_requirements req) \<le> 4000"
    and "\<And>amt. parse_uint256 (rq_amount req) = Inr amt \<Longrightarrow> length (int_str amt) \<le> 80"
      "length (int_str (unix (now + sign_window (rq_timeout req) validFor))) \<le> 80"
  shows "decode_payment_payload (encode_payment_payload pp) = Inr pp"
proof -
  have "rq_scheme req \<noteq> []" "rq_network req \<noteq> []" "pp\<lparr>pp_accepted := req\<rparr> = pp"
    using assms(2) by (rule sign_Inr, simp add: payable_offer_def SchemeExact_def network_def)+
  with signed_header_decodes_echo [OF assms(1-5) _ _ assms(6,7)] show ?thesis by simp
qed

section \<open>Properties\<close>

text \<open>
  A signed payment is one the filter accepts.  What \<open>Sign\<close> produces for an offer,
  verified against the same terms at a time inside the signed window, passes every check;
  the verified payer, recipient, amount and nonce are those of the wallet, the offer and
  the draw.
\<close>

theorem signed_payment_is_accepted:
  assumes "crypto_laws C" "sign C w req res now validFor (Some n) = Inr pp" "length n = 32"
    and "\<And>h. length h = 32 \<Longrightarrow> hd (sign_compact C (wa_key w) h) \<in> {27, 28}"
    and "unix t < unix (now + sign_window (rq_timeout req) validFor)"
    and "0 < rq_timeout req \<Longrightarrow> unix (now + sign_window (rq_timeout req) validFor) \<le> accept_limit t req"
    and "is_int64 (unix (now + sign_window (rq_timeout req) validFor))" "0 \<le> unix t"
  shows "\<exists>r. verify C t req (wallet_domain w) pp = Inr r \<and> v_payer r = wallet_address C w \<and>
    parse_uint256 (rq_amount req) = Inr (a_value (v_auth r)) \<and>
    parse_address (rq_payTo req) = Inr (a_to (v_auth r)) \<and> a_nonce (v_auth r) = n"
  by (rule sign_verifies [OF assms]) (auto intro: exI)

section \<open>A concrete payment\<close>

definition demo_wallet :: "byte wallet" where
  "demo_wallet = \<lparr>wa_key = 5, wa_network = Testnet\<rparr>"

definition demo_offer :: requirements where
  "demo_offer =
     \<lparr>rq_scheme = ''exact'', rq_network = ''eip155:72344'', rq_amount = ''1000'', rq_asset = SBC, rq_payTo = SBC,
      rq_timeout = 60, rq_extra = Some \<lparr>x_method = ''eip3009'', x_name = [], x_version = []\<rparr>\<rparr>"

lemma demo_amount: "parse_uint256 ''1000'' = Inr 1000"
  using parse_uint256_int_str [of 1000] by (simp add: int_str_def nat_str.simps digit_char_def max_uint256_def)

lemma demo_offer_payable:
  "payable_offer demo_wallet demo_offer" "parse_address (rq_payTo demo_offer) = Inr SBCAddress"
  "parse_uint256 (rq_amount demo_offer) = Inr 1000" "rq_timeout demo_offer = 60"
  by (simp_all add: payable_offer_def demo_offer_def demo_wallet_def network_testnet SchemeExact_def
      transfer_method_def TransferEIP3009_def parse_SBC demo_amount)

lemma demo_window: "sign_window 60 0 = 60 * nsec" "unix (60 * nsec) = 60"
  by (simp_all add: sign_window_def Let_def i64_id is_int64_def unix_def)


lemma demo_signed:
  obtains pp where "sign demo_crypto demo_wallet demo_offer res 0 0 (Some (replicate 32 1)) = Inr pp"
proof (rule sign_total [OF demo_laws demo_offer_payable(1-3), where n = "replicate 32 1" and res = res])
  show "0 \<le> unix (0 + sign_window (rq_timeout demo_offer) 0)"
    "unix (0 + sign_window (rq_timeout demo_offer) 0) \<le> max_uint256"
    unfolding add_0 demo_offer_payable demo_window by (simp_all add: max_uint256_def)
qed (simp, rule that)

theorem signed_payment_is_accepted_witness:
  "\<exists>pp r. sign demo_crypto demo_wallet demo_offer None 0 0 (Some (replicate 32 1)) = Inr pp \<and>
    verify demo_crypto 0 demo_offer (wallet_domain demo_wallet) pp = Inr r \<and>
    v_payer r = wallet_address demo_crypto demo_wallet \<and>
    parse_uint256 (rq_amount demo_offer) = Inr (a_value (v_auth r)) \<and>
    parse_address (rq_payTo demo_offer) = Inr (a_to (v_auth r)) \<and> a_nonce (v_auth r) = replicate 32 1"
proof -
  obtain pp where s: "sign demo_crypto demo_wallet demo_offer None 0 0 (Some (replicate 32 1)) = Inr pp"
    by (rule demo_signed)
  have "\<exists>r. verify demo_crypto 0 demo_offer (wallet_domain demo_wallet) pp = Inr r \<and>
    v_payer r = wallet_address demo_crypto demo_wallet \<and>
    parse_uint256 (rq_amount demo_offer) = Inr (a_value (v_auth r)) \<and>
    parse_address (rq_payTo demo_offer) = Inr (a_to (v_auth r)) \<and> a_nonce (v_auth r) = replicate 32 1"
    by (rule signed_payment_is_accepted [OF demo_laws s])
      (simp_all add: demo_window demo_offer_payable accept_limit_def skew_allowance_def i64_id
        is_int64_def, simp_all add: unix_def demo_sign [simplified])
  with s show ?thesis by blast
qed

text \<open>
  C15: the buyer never signs above its threshold.  Whenever \<open>Pay\<close> sends a payment, the first
  answer was a 402 whose header decodes, the paid offer is one of that header's and payable
  by the wallet, no offer before it was, and its amount is within the threshold.
\<close>

theorem pay_respects_the_threshold:
  assumes "pay C w exchange limit now validFor nonce = (out, err, Some sig)"
  shows "\<exists>first pr pre offer post amount.
    exchange [] = Inr first \<and> hr_status first = 402 \<and>
    decode_payment_required (header_get (hr_headers first) HeaderPaymentRequired) = Inr pr \<and>
    pr_accepts pr = pre @ offer # post \<and> payable_offer w offer \<and> po_paid out = Some offer \<and>
    parse_uint256 (rq_amount offer) = Inr amount \<and> (\<forall>m. limit = Some m \<longrightarrow> amount \<le> m) \<and>
    (\<forall>q \<in> set pre. \<not> (payable_offer w q \<and> is_ok (parse_uint256 (rq_amount q)))) \<and>
    (\<exists>pp. sign C w offer (Some (pr_resource pr)) now validFor nonce = Inr pp \<and>
       sig = encode_payment_payload pp)"
proof (rule pay_sends [OF assms])
  fix first pr offer pp
  assume p: "exchange [] = Inr first" "hr_status first = 402"
    "decode_payment_required (header_get (hr_headers first) HeaderPaymentRequired) = Inr pr"
    "choose_offer w pr limit = Inr offer" "sign C w offer (Some (pr_resource pr)) now validFor nonce = Inr pp"
    "sig = encode_payment_payload pp" "po_paid out = Some offer"
  from choose_from_Inr [OF p(4) [unfolded choose_offer_def]] p show ?thesis by blast
qed


definition demo_required :: payment_required where
  "demo_required = zero_payment_required\<lparr>pr_version := 2, pr_accepts := [demo_offer]\<rparr>"

lemma demo_required_ok: "ok_required demo_required" by code_simp

lemma demo_required_len:
  "length (encode_payment_required demo_required) \<le> max_header_bytes"
  by code_simp


lemma demo_required_decodes:
  "decode_payment_required (encode_payment_required demo_required) = Inr demo_required"
  by (rule required_roundtrip [OF demo_required_ok _ _ demo_required_len])
    (simp_all add: demo_required_def x402_version_def)

definition demo_exchange :: "(string \<times> string) list \<Rightarrow> (http_error, http_response) result" where
  "demo_exchange hs =
     Inr (if hs = [] then \<lparr>hr_status = 402,
            hr_headers = [(HeaderPaymentRequired, encode_payment_required demo_required)], hr_body = []\<rparr>
          else \<lparr>hr_status = 200, hr_headers = [], hr_body = []\<rparr>)"

lemma encode_nonempty: "decode_payment_required h = Inr pr \<Longrightarrow> h \<noteq> []"
  by (auto simp: decode_payment_required_def decode_header_def bind_r_eq_Inr trim_space_def trim_left_def trim_right_def split: if_splits)

lemma demo_pays:
  obtains out sig where "pay demo_crypto demo_wallet demo_exchange (Some 1000) 0 0 (Some (replicate 32 1))
      = (out, None, Some sig)"
proof (rule demo_signed)
  fix pp assume s: "sign demo_crypto demo_wallet demo_offer (Some (pr_resource demo_required)) 0 0
      (Some (replicate 32 1)) = Inr pp"
  have "choose_offer demo_wallet demo_required (Some 1000) = Inr demo_offer"
    by (simp add: choose_offer_def demo_required_def demo_offer_payable)
  with s encode_nonempty [OF demo_required_decodes] show thesis
    by (intro that) (auto simp: pay_def demo_exchange_def header_get_def demo_required_decodes Let_def)
qed

theorem pay_respects_the_threshold_witness:
  "\<exists>out sig. pay demo_crypto demo_wallet demo_exchange (Some 1000) 0 0 (Some (replicate 32 1)) = (out, None, Some sig) \<and>
   (\<exists>first pr pre offer post amount.
    demo_exchange [] = Inr first \<and> hr_status first = 402 \<and>
    decode_payment_required (header_get (hr_headers first) HeaderPaymentRequired) = Inr pr \<and>
    pr_accepts pr = pre @ offer # post \<and> payable_offer demo_wallet offer \<and> po_paid out = Some offer \<and>
    parse_uint256 (rq_amount offer) = Inr amount \<and> (\<forall>m. Some 1000 = Some m \<longrightarrow> amount \<le> m) \<and>
    (\<forall>q \<in> set pre. \<not> (payable_offer demo_wallet q \<and> is_ok (parse_uint256 (rq_amount q)))) \<and>
    (\<exists>pp. sign demo_crypto demo_wallet offer (Some (pr_resource pr)) 0 0 (Some (replicate 32 1)) = Inr pp \<and>
       sig = encode_payment_payload pp))"
proof -
  obtain out sig where p: "pay demo_crypto demo_wallet demo_exchange (Some 1000) 0 0 (Some (replicate 32 1))
      = (out, None, Some sig)" by (rule demo_pays)
  from pay_respects_the_threshold [OF p] p show ?thesis by blast
qed

end
