(* ===== verification/Extproc.thy ===== *)
theory Extproc
  imports Paywall Balance Buyer
begin

text \<open>
  The ext_proc server of \<open>internal/extproc/server.go\<close>: one stream is one HTTP request, and its
  state carries what the request phase decided to the response phase and to the release on
  the way out.  Each handler takes the outside world of its phase as a record: the price
  table at that moment, the clocks, what becomes of each Redis call, and what a balance read
  delivers in time.  A reply is the answer to Envoy; the decision beside it is the label the
  handler logs.  Debug logging is not modelled.
\<close>

section \<open>Messages, replies and decisions\<close>

datatype attr_value = AttrString string | AttrOther

text \<open>A header as Envoy sends it: key, value, raw value.\<close>

type_synonym wire_headers = "(string \<times> string \<times> string) list"

datatype message =
    RequestHeaders "(string \<times> (string \<times> attr_value) list) list" wire_headers
  | ResponseHeaders wire_headers
  | OtherPhase

datatype decision =
    PaymentRequired | PaymentPresentUnverified | PaymentInvalid | Replay | InsufficientFunds
  | PaymentAccepted | Paid | ReleasedNon2xx | ReleasedStreamEnd | CaptureFailed | Deadline
  | DependencyUnavailable | Unpriced | NoRouteAttribute | TableNotLoaded | PaywallError

fun decision_str :: "decision \<Rightarrow> string" where
  "decision_str PaymentRequired = ''payment_required''"
| "decision_str PaymentPresentUnverified = ''payment_present_unverified''"
| "decision_str PaymentInvalid = ''payment_invalid''"
| "decision_str Replay = ''replay''"
| "decision_str InsufficientFunds = ''insufficient_funds''"
| "decision_str PaymentAccepted = ''payment_accepted''"
| "decision_str Paid = ''paid''"
| "decision_str ReleasedNon2xx = ''released_non_2xx''"
| "decision_str ReleasedStreamEnd = ''released_stream_end''"
| "decision_str CaptureFailed = ''capture_failed''"
| "decision_str Deadline = ''deadline''"
| "decision_str DependencyUnavailable = ''dependency_unavailable''"
| "decision_str Unpriced = ''unpriced''"
| "decision_str NoRouteAttribute = ''no_route_attribute''"
| "decision_str TableNotLoaded = ''table_not_loaded''"
| "decision_str PaywallError = ''paywall_error''"

record mutation =
  mu_remove :: "string list"
  mu_set :: headers

datatype reply =
    ContinueRequest "mutation option"
  | ContinueResponse "mutation option"
  | Immediate int headers string string

section \<open>Headers\<close>

definition attributesKey :: string where "attributesKey = ''envoy.filters.http.ext_proc''"
definition routeNameAttr :: string where "routeNameAttr = ''xds.route_name''"
definition HeaderPayer :: string where "HeaderPayer = ''x-x402-payer''"
definition HeaderPaymentID :: string where "HeaderPaymentID = ''x-x402-payment-id''"
definition ReasonReplay :: string where "ReasonReplay = ''payment_already_used''"
definition redacted :: "string list" where
  "redacted = [''authorization'', ''cookie'', ''set-cookie'', ''payment-signature'']"

definition route_attribute :: "(string \<times> (string \<times> attr_value) list) list \<Rightarrow> string" where
  "route_attribute attrs =
     (case Option.bind (map_of attrs attributesKey) (\<lambda>fs. map_of fs routeNameAttr) of
        Some (AttrString s) \<Rightarrow> s
      | _ \<Rightarrow> [])"

definition header_map :: "wire_headers \<Rightarrow> headers" where
  "header_map hs =
     foldl (\<lambda>m (k, v, raw). AList.update (to_lower k) (if v = [] then raw else v) m) [] hs"

definition hget :: "headers \<Rightarrow> string \<Rightarrow> string" where
  "hget h k = (case map_of h k of None \<Rightarrow> [] | Some v \<Rightarrow> v)"

definition redact :: "headers \<Rightarrow> headers" where
  "redact h = map (\<lambda>(k, v). (k, if k \<in> set redacted then ''[redacted]'' else v)) h"

definition public_url :: "headers \<Rightarrow> string" where
  "public_url h =
     (let s0 = hget h ''x-forwarded-proto'';
          s1 = (if s0 \<noteq> ''http'' \<and> s0 \<noteq> ''https'' then hget h '':scheme'' else s0);
          scheme = (if s1 = [] then ''http'' else s1)
      in scheme @ ''://'' @ hget h '':authority'' @ hget h '':path'')"

text \<open>Every mutation overwrites.\<close>

definition set_headers :: "headers \<Rightarrow> headers" where
  "set_headers kvs = map (\<lambda>(k, v). (to_lower k, v)) kvs"

definition immediate :: "int \<Rightarrow> headers \<Rightarrow> string \<Rightarrow> decision \<Rightarrow> reply" where
  "immediate status hs body d =
     Immediate (if 200 \<le> status \<and> status \<le> 599 then status else 500) (set_headers hs) body
       (''x402_'' @ decision_str d)"

definition text_headers :: headers where
  "text_headers = [(''Content-Type'', ''text/plain; charset=utf-8''), (''Cache-Control'', ''no-store'')]"

definition plain :: "int \<Rightarrow> string \<Rightarrow> decision \<Rightarrow> reply" where
  "plain status body d = immediate status text_headers body d"

definition retry_later :: "decision \<Rightarrow> reply" where
  "retry_later d =
     immediate 503 (text_headers @ [(''Retry-After'', ''1'')])
       (''x402 filter: temporarily unable to check the payment; retry in 1s'' @ [CHR 0x0A]) d"

section \<open>The server and a stream's state\<close>

record payments =
  pm_balances :: "(string \<times> cache) list"
  pm_reserve :: reserve_cfg

record stream_state =
  q_entry :: "entry option"
  q_payment :: string
  q_res :: "verified option"
  q_rsv :: "reservation option"
  q_captured :: bool
  q_released :: bool

definition new_request :: stream_state where
  "new_request =
     \<lparr>q_entry = None, q_payment = [], q_res = None, q_rsv = None, q_captured = False, q_released = False\<rparr>"

text \<open>The outside world of one phase\<close>

record phase =
  ph_table :: "prices option"
  ph_verify_at :: int
  ph_cache_at :: int
  ph_reserve_at :: int
  ph_served_at :: int
  ph_read_ms :: int
  ph_ms :: int
  ph_read_fault :: fault
  ph_reserve_fault :: fault
  ph_capture_fault :: fault
  ph_release_fault :: fault
  ph_arrival :: "(rpc_error, int) result option"
  ph_waited :: bool
  ph_sent :: bool

definition sbc_domain :: "profile \<Rightarrow> domain" where
  "sbc_domain p =
     \<lparr>d_name = SBCName, d_version = SBCVersion, d_chain = p_chain p, d_contract = SBCAddress\<rparr>"

definition payment_id :: "verified \<Rightarrow> string" where
  "payment_id res = hex_0x (a_nonce (v_auth res))"

section \<open>Handlers\<close>

text \<open>\<open>paywall\<close> and \<open>refuse\<close>\<close>

definition paywall_reply ::
  "(page_data \<Rightarrow> string option) \<Rightarrow> entry \<Rightarrow> pay_request \<Rightarrow> decision \<Rightarrow> reply \<times> decision" where
  "paywall_reply page e pw d =
     (case render page e pw of
        None \<Rightarrow> (plain 500 (''x402 filter: could not build the payment request'' @ [CHR 0x0A]) PaywallError,
                 PaywallError)
      | Some r \<Rightarrow> (immediate (rp_status r) (rp_headers r) (rp_body r) d, d))"

definition refuse ::
  "(page_data \<Rightarrow> string option) \<Rightarrow> entry \<Rightarrow> pay_request \<Rightarrow> string \<Rightarrow> decision \<Rightarrow> reply \<times> decision" where
  "refuse page e pw reason d = paywall_reply page e (pw\<lparr>pq_refused := reason\<rparr>) d"

definition accept_payment ::
  "('pk, 'sk) crypto \<Rightarrow> 'r redis \<Rightarrow> (page_data \<Rightarrow> string option) \<Rightarrow> payments \<Rightarrow> phase \<Rightarrow> entry
     \<Rightarrow> pay_request \<Rightarrow> string \<Rightarrow> stream_state \<Rightarrow> 'r \<Rightarrow> 'r \<times> stream_state \<times> reply \<times> decision" where
  "accept_payment C R page pays ph e pw hdr st s =
     (case decode_payment_payload hdr of
        Inl _ \<Rightarrow> (s, st, refuse page e pw ReasonInvalidPayload PaymentInvalid)
      | Inr pp \<Rightarrow>
          (case verify C (ph_verify_at ph) (pe_requirements e) (sbc_domain (pe_network e)) pp of
             Inl err \<Rightarrow> (s, st, refuse page e pw (verify_reason err) PaymentInvalid)
           | Inr res \<Rightarrow>
               (case map_of (pm_balances pays) (network (pe_network e)) of
                  None \<Rightarrow> (s, st, retry_later DependencyUnavailable, DependencyUnavailable)
                | Some cache \<Rightarrow>
                    (case fst (balance_get C R cache (ph_read_fault ph) (ph_read_ms ph) (ph_cache_at ph)
                                 (v_payer res) (ph_arrival ph) s) of
                       Inl BalanceDeadline \<Rightarrow> (s, st, retry_later Deadline, Deadline)
                     | Inl _ \<Rightarrow> (s, st, retry_later DependencyUnavailable, DependencyUnavailable)
                     | Inr bal \<Rightarrow>
                         (case reserve C R (pm_reserve pays) (ph_reserve_fault ph) (ph_reserve_at ph) (ph_ms ph)
                                 (v_payer res) (a_nonce (v_auth res)) (pe_price e) (bl_value bal)
                                 (v_expires res) s of
                            (s', Inl _) \<Rightarrow> (s', st, retry_later DependencyUnavailable, DependencyUnavailable)
                          | (s', Inr (OutReplay, _)) \<Rightarrow> (s', st, refuse page e pw ReasonReplay Replay)
                          | (s', Inr (OutInsufficient, _)) \<Rightarrow>
                              (s', st, refuse page e pw ReasonInsufficientFunds InsufficientFunds)
                          | (s', Inr (OutOK, rsv)) \<Rightarrow>
                              (s', st\<lparr>q_res := Some res, q_rsv := rsv, q_payment := hdr\<rparr>,
                               ContinueRequest (Some
                                 \<lparr>mu_remove = [to_lower HeaderPaymentSignature],
                                  mu_set = set_headers [(HeaderPayer, address_string C (v_payer res)),
                                                        (HeaderPaymentID, payment_id res)]\<rparr>),
                               PaymentAccepted))))))"

definition request_headers ::
  "('pk, 'sk) crypto \<Rightarrow> 'r redis \<Rightarrow> (page_data \<Rightarrow> string option) \<Rightarrow> payments option \<Rightarrow> phase
     \<Rightarrow> (string \<times> (string \<times> attr_value) list) list \<Rightarrow> headers \<Rightarrow> stream_state \<Rightarrow> 'r
     \<Rightarrow> 'r \<times> stream_state \<times> reply \<times> decision" where
  "request_headers C R page pays ph attrs h st s =
     (case route_key (route_attribute attrs) of
        None \<Rightarrow> (s, st, plain 500 (''x402 filter: route not identified'' @ [CHR 0x0A]) NoRouteAttribute,
                 NoRouteAttribute)
      | Some key \<Rightarrow>
          (case ph_table ph of
             None \<Rightarrow> (s, st, plain 503 (''x402 filter: price table not loaded'' @ [CHR 0x0A]) TableNotLoaded,
                      TableNotLoaded)
           | Some table \<Rightarrow>
               (case price_lookup (Some table) key of
                  None \<Rightarrow> (s, st, ContinueRequest None, Unpriced)
                | Some e \<Rightarrow>
                    let st1 = st\<lparr>q_entry := Some e\<rparr>;
                        pw = \<lparr>pq_method = hget h '':method'', pq_url = public_url h, pq_accept = hget h ''accept'',
                              pq_userAgent = hget h ''user-agent'', pq_refused = []\<rparr>;
                        hdr = hget h (to_lower HeaderPaymentSignature)
                    in if hdr = [] then (s, st1, paywall_reply page e pw PaymentRequired)
                       else (case pays of
                               None \<Rightarrow> (s, st1, paywall_reply page e pw PaymentPresentUnverified)
                             | Some p \<Rightarrow> accept_payment C R page p ph e pw hdr st1 s))))"

text \<open>\<open>strconv.Atoi\<close> with its error dropped: a number out of range is the nearest limit.\<close>

definition atoi :: "string \<Rightarrow> int" where
  "atoi s = (case signed_dec s of None \<Rightarrow> 0 | Some x \<Rightarrow> sat64 x)"

text \<open>\<open>release\<close> marks the reservation before it tries.\<close>

definition release_stream ::
  "('pk, 'sk) crypto \<Rightarrow> 'r redis \<Rightarrow> phase \<Rightarrow> stream_state \<Rightarrow> 'r \<Rightarrow> 'r \<times> stream_state" where
  "release_stream C R ph st s =
     (case q_rsv st of
        None \<Rightarrow> (s, st)
      | Some rsv \<Rightarrow>
          (fst (release C R (ph_release_fault ph) (ph_ms ph) (rv_payer rsv) (rv_amount rsv) s),
           st\<lparr>q_released := True\<rparr>))"

definition no_store_only :: "mutation option" where
  "no_store_only =
     Some \<lparr>mu_remove = [], mu_set = set_headers [(''cache-control'', ''private, no-store'')]\<rparr>"

definition settlement_job :: "('pk, 'sk) crypto \<Rightarrow> phase \<Rightarrow> entry \<Rightarrow> verified \<Rightarrow> string \<Rightarrow> job" where
  "settlement_job C ph e res payment =
     \<lparr>jb_paymentId = payment_id res, jb_payer = address_string C (v_payer res), jb_route = pe_key e,
      jb_amount = int_str (pe_price e), jb_network = network (pe_network e),
      jb_validBefore = unix (v_expires res), jb_payment = payment, jb_requirements = pe_requirements e,
      jb_servedAt = ph_served_at ph\<rparr>"

definition response_headers ::
  "('pk, 'sk) crypto \<Rightarrow> 'r redis \<Rightarrow> phase \<Rightarrow> headers \<Rightarrow> stream_state \<Rightarrow> 'r
     \<Rightarrow> 'r \<times> stream_state \<times> reply \<times> decision option" where
  "response_headers C R ph h st s =
     (case (q_rsv st, q_res st, q_entry st) of
        (Some rsv, Some res, Some e) \<Rightarrow>
          let status = atoi (hget h '':status'') in
          if status < 200 \<or> 299 < status then
            (case release_stream C R ph st s of
               (s', st') \<Rightarrow> (s', st', ContinueResponse None, Some ReleasedNon2xx))
          else
            (case capture R (ph_capture_fault ph) (ph_ms ph) (settlement_job C ph e res (q_payment st)) s of
               (s1, None) \<Rightarrow>
                 (case release_stream C R ph st s1 of
                    (s', st') \<Rightarrow> (s', st', ContinueResponse no_store_only, Some CaptureFailed))
             | (s1, Some _) \<Rightarrow>
                 (s1, st\<lparr>q_captured := True\<rparr>,
                  ContinueResponse (Some
                    \<lparr>mu_remove = [],
                     mu_set = set_headers
                       [(''cache-control'', ''private, no-store''),
                        (to_lower HeaderPaymentResponse,
                         encode_settle_response
                           (pending_receipt (network (pe_network e)) (address_string C (v_payer res)) (payment_id res))),
                        (''access-control-expose-headers'', HeaderPaymentResponse)]\<rparr>),
                  Some Paid))
      | _ \<Rightarrow> (s, st, ContinueResponse None, None))"

text \<open>\<open>handle\<close>: \<open>None\<close> is an error that ends the stream.\<close>

definition handle ::
  "('pk, 'sk) crypto \<Rightarrow> 'r redis \<Rightarrow> (page_data \<Rightarrow> string option) \<Rightarrow> payments option \<Rightarrow> phase
     \<Rightarrow> message \<Rightarrow> stream_state \<Rightarrow> 'r \<Rightarrow> 'r \<times> stream_state \<times> reply option" where
  "handle C R page pays ph m st s =
     (case m of
        RequestHeaders attrs hs \<Rightarrow>
          if \<not> ph_waited ph then (s, st, None)
          else (case request_headers C R page pays ph attrs (header_map hs) st s of
                  (s', st', r, d) \<Rightarrow> (s', st', Some r))
      | ResponseHeaders hs \<Rightarrow>
          (case response_headers C R ph (header_map hs) st s of
             (s', st', r, d) \<Rightarrow> (s', st', Some r))
      | OtherPhase \<Rightarrow> (s, st, None))"

definition finish ::
  "('pk, 'sk) crypto \<Rightarrow> 'r redis \<Rightarrow> phase \<Rightarrow> stream_state \<Rightarrow> 'r \<Rightarrow> 'r \<times> stream_state" where
  "finish C R ph st s =
     (if q_rsv st \<noteq> None \<and> \<not> q_captured st \<and> \<not> q_released st then release_stream C R ph st s else (s, st))"

text \<open>
  \<open>Process\<close>: the messages Envoy sends, each with its phase; the end of the list is the end
  of the stream, whatever its cause, and the last phase is that of the deferred \<open>finish\<close>.
\<close>

fun serve ::
  "('pk, 'sk) crypto \<Rightarrow> 'r redis \<Rightarrow> (page_data \<Rightarrow> string option) \<Rightarrow> payments option
     \<Rightarrow> (message \<times> phase) list \<Rightarrow> stream_state \<Rightarrow> 'r \<Rightarrow> 'r \<times> stream_state \<times> reply list" where
  "serve C R page pays [] st s = (s, st, [])"
| "serve C R page pays ((m, ph) # ms) st s =
     (case handle C R page pays ph m st s of
        (s', st', None) \<Rightarrow> (s', st', [])
      | (s', st', Some r) \<Rightarrow>
          if \<not> ph_sent ph then (s', st', [])
          else (case serve C R page pays ms st' s' of (s'', st'', rs) \<Rightarrow> (s'', st'', r # rs)))"

definition process ::
  "('pk, 'sk) crypto \<Rightarrow> 'r redis \<Rightarrow> (page_data \<Rightarrow> string option) \<Rightarrow> payments option
     \<Rightarrow> (message \<times> phase) list \<Rightarrow> phase \<Rightarrow> 'r \<Rightarrow> 'r \<times> stream_state \<times> reply list" where
  "process C R page pays ms last_ph s =
     (case serve C R page pays ms new_request s of
        (s', st', rs) \<Rightarrow> (case finish C R last_ph st' s' of (s'', st'') \<Rightarrow> (s'', st'', rs)))"

section \<open>Lemmas: what a handler does\<close>

text \<open>An answer that keeps the request from the backend\<close>

fun is_refusal :: "reply \<Rightarrow> bool" where
  "is_refusal (Immediate status hs b details) = (status \<in> {402, 500, 503})"
| "is_refusal _ = False"

fun passes_request :: "reply \<Rightarrow> bool" where
  "passes_request (ContinueRequest m) = True"
| "passes_request _ = False"

lemma refusal_or_pass: "is_refusal r \<Longrightarrow> \<not> passes_request r"
  by (cases r) auto

lemma plain_refusal: "status \<in> {402, 500, 503} \<Longrightarrow> is_refusal (plain status body d)"
  by (auto simp: plain_def immediate_def)

lemma retry_refusal: "is_refusal (retry_later d)"
  by (simp add: retry_later_def immediate_def)

lemma paywall_refusal: "is_refusal (fst (paywall_reply page e pw d))"
proof (cases "render page e pw")
  case None
  then show ?thesis by (simp add: paywall_reply_def plain_refusal)
next
  case (Some r)
  then show ?thesis using render_Some [OF Some] by (fastforce simp: paywall_reply_def immediate_def)
qed

lemma refuse_refusal: "is_refusal (fst (refuse page e pw reason d))"
  by (simp add: refuse_def paywall_refusal)

text \<open>The state and the answer of an accepted payment\<close>

definition hold :: "stream_state \<Rightarrow> verified \<Rightarrow> reservation \<Rightarrow> string \<Rightarrow> stream_state" where
  "hold st res rsv hdr = st\<lparr>q_res := Some res, q_rsv := Some rsv, q_payment := hdr\<rparr>"

definition admission :: "('pk, 'sk) crypto \<Rightarrow> verified \<Rightarrow> mutation" where
  "admission C res =
     \<lparr>mu_remove = [to_lower HeaderPaymentSignature],
      mu_set = set_headers [(HeaderPayer, address_string C (v_payer res)), (HeaderPaymentID, payment_id res)]\<rparr>"

lemma reserve_ok:
  assumes "reserve C R c f clock t p n a b x s = (s', Inr (OutOK, rsv))"
  obtains q where "rsv = Some q" "rv_payer q = p" "rv_nonce q = n" "rv_amount q = a"
  using assms by (auto simp: reserve_def split: if_splits prod.splits option.splits sum.splits)

text \<open>The paid path: nothing happens before the reserve, and only its acceptance is held.\<close>

lemma accept_cases [consumes 1, case_names Early Reserve]:
  assumes "accept_payment C R page pays ph e pw hdr st s = (s', st', r, d)"
  obtains "s' = s" "st' = st" "is_refusal r"
  | pp res bal rr where
      "decode_payment_payload hdr = Inr pp"
      "verify C (ph_verify_at ph) (pe_requirements e) (sbc_domain (pe_network e)) pp = Inr res"
      "reserve C R (pm_reserve pays) (ph_reserve_fault ph) (ph_reserve_at ph) (ph_ms ph)
         (v_payer res) (a_nonce (v_auth res)) (pe_price e) (bl_value bal) (v_expires res) s = (s', rr)"
      "\<exists>cache. map_of (pm_balances pays) (network (pe_network e)) = Some cache \<and>
         fst (balance_get C R cache (ph_read_fault ph) (ph_read_ms ph) (ph_cache_at ph) (v_payer res)
           (ph_arrival ph) s) = Inr bal"
      "accepted rr \<Longrightarrow> \<exists>rsv. rr = Inr (OutOK, Some rsv) \<and> st' = hold st res rsv hdr \<and>
         r = ContinueRequest (Some (admission C res)) \<and> d = PaymentAccepted"
      "\<not> accepted rr \<Longrightarrow> st' = st \<and> is_refusal r"
proof (cases "decode_payment_payload hdr")
  case (Inl err)
  with assms refuse_refusal show thesis by (intro that(1)) (auto simp: accept_payment_def dest: fstI)
next
  case pp: (Inr pp)
  show thesis
  proof (cases "verify C (ph_verify_at ph) (pe_requirements e) (sbc_domain (pe_network e)) pp")
    case (Inl err)
    with assms pp refuse_refusal show thesis by (intro that(1)) (auto simp: accept_payment_def dest: fstI)
  next
    case res: (Inr res)
    show thesis
    proof (cases "map_of (pm_balances pays) (network (pe_network e))")
      case None
      with assms pp res show thesis by (intro that(1)) (auto simp: accept_payment_def retry_refusal)
    next
      case cache: (Some cache)
      let ?b = "fst (balance_get C R cache (ph_read_fault ph) (ph_read_ms ph) (ph_cache_at ph) (v_payer res)
           (ph_arrival ph) s)"
      show thesis
      proof (cases ?b)
        case (Inl err)
        with assms pp res cache show thesis
          by (intro that(1)) (auto simp: accept_payment_def retry_refusal split: balance_error.splits)
      next
        case bal: (Inr bal)
        obtain s1 rr where rr: "reserve C R (pm_reserve pays) (ph_reserve_fault ph) (ph_reserve_at ph) (ph_ms ph)
           (v_payer res) (a_nonce (v_auth res)) (pe_price e) (bl_value bal) (v_expires res) s = (s1, rr)" by fastforce
        note eq = assms [unfolded accept_payment_def pp res cache bal rr sum.case option.case prod.case]
        show thesis
        proof (rule that(2) [OF pp res])
          show "reserve C R (pm_reserve pays) (ph_reserve_fault ph) (ph_reserve_at ph) (ph_ms ph)
           (v_payer res) (a_nonce (v_auth res)) (pe_price e) (bl_value bal) (v_expires res) s = (s', rr)"
            using rr eq by (auto split: sum.splits prod.splits outcome.splits)
          show "\<exists>cache. map_of (pm_balances pays) (network (pe_network e)) = Some cache \<and>
             fst (balance_get C R cache (ph_read_fault ph) (ph_read_ms ph) (ph_cache_at ph) (v_payer res)
               (ph_arrival ph) s) = Inr bal" using cache bal by simp
          show "\<exists>rsv. rr = Inr (OutOK, Some rsv) \<and> st' = hold st res rsv hdr \<and>
             r = ContinueRequest (Some (admission C res)) \<and> d = PaymentAccepted" if a: "accepted rr"
          proof -
            from a obtain q where q: "rr = Inr (OutOK, q)" by (auto simp: accepted_iff)
            with rr obtain rsv where "q = Some rsv" by (auto elim: reserve_ok)
            with q eq show ?thesis by (simp add: hold_def admission_def)
          qed
          show "st' = st \<and> is_refusal r" if "\<not> accepted rr"
            using that eq refuse_refusal
            by (cases rr rule: accepted.cases) (auto simp: retry_refusal dest: fstI)
        qed
      qed
    qed
  qed
qed

lemma request_cases [consumes 1, case_names Free Refused Accept]:
  assumes "request_headers C R page pays ph attrs h st s = (s', st', r, d)"
  obtains "s' = s" "st' = st" "r = ContinueRequest None" "d = Unpriced"
      "\<exists>key. route_key (route_attribute attrs) = Some key \<and> ph_table ph \<noteq> None \<and> price_lookup (ph_table ph) key = None"
  | e where "s' = s" "st' = st \<or> st' = st\<lparr>q_entry := Some e\<rparr>" "is_refusal r"
  | key e p pw where
      "route_key (route_attribute attrs) = Some key" "price_lookup (ph_table ph) key = Some e" "pays = Some p"
      "hget h (to_lower HeaderPaymentSignature) \<noteq> []" "pq_url pw = public_url h"
      "accept_payment C R page p ph e pw (hget h (to_lower HeaderPaymentSignature)) (st\<lparr>q_entry := Some e\<rparr>) s
         = (s', st', r, d)"
proof (cases "route_key (route_attribute attrs)")
  case None
  with assms show thesis by (intro that(2)) (auto simp: request_headers_def plain_refusal)
next
  case key: (Some key)
  show thesis
  proof (cases "ph_table ph")
    case None
    with assms key show thesis by (intro that(2)) (auto simp: request_headers_def plain_refusal)
  next
    case tab: (Some table)
    show thesis
    proof (cases "price_lookup (Some table) key")
      case None
      with assms key tab show thesis by (intro that(1)) (auto simp: request_headers_def)
    next
      case e: (Some e)
      show thesis
      proof (cases "hget h (to_lower HeaderPaymentSignature) = [] \<or> pays = None")
        case True
        with assms key tab e paywall_refusal show thesis
          by (intro that(2)) (auto simp: request_headers_def Let_def dest: fstI split: if_splits)
      next
        case False
        then obtain p where p: "pays = Some p" by auto
        show thesis
          by (rule that(3) [OF key _ p])
            (use assms key tab e False p in \<open>simp_all add: request_headers_def Let_def\<close>)
      qed
    qed
  qed
qed

definition serves :: "headers \<Rightarrow> bool" where
  "serves h \<longleftrightarrow> 200 \<le> atoi (hget h '':status'') \<and> atoi (hget h '':status'') \<le> 299"

text \<open>The response phase: one of release, failed capture with release, and capture.\<close>

lemma response_cases [consumes 1, case_names Nothing Unserved Lost Captured]:
  assumes "response_headers C R ph h st s = (s', st', r, d)"
  obtains "s' = s" "st' = st" "r = ContinueResponse None" "d = None"
      "q_rsv st = None \<or> q_res st = None \<or> q_entry st = None"
  | "\<not> serves h" "release_stream C R ph st s = (s', st')" "r = ContinueResponse None" "d = Some ReleasedNon2xx"
  | rsv res e s1 where "serves h" "q_rsv st = Some rsv" "q_res st = Some res" "q_entry st = Some e"
      "capture R (ph_capture_fault ph) (ph_ms ph) (settlement_job C ph e res (q_payment st)) s = (s1, None)"
      "release_stream C R ph st s1 = (s', st')" "r = ContinueResponse no_store_only" "d = Some CaptureFailed"
  | rsv res e i where "serves h" "q_rsv st = Some rsv" "q_res st = Some res" "q_entry st = Some e"
      "capture R (ph_capture_fault ph) (ph_ms ph) (settlement_job C ph e res (q_payment st)) s = (s', Some i)"
      "st' = st\<lparr>q_captured := True\<rparr>" "d = Some Paid"
proof (cases "q_rsv st = None \<or> q_res st = None \<or> q_entry st = None")
  case True
  with assms show thesis by (intro that(1)) (auto simp: response_headers_def split: option.splits)
next
  case False
  then obtain rsv res e where q: "q_rsv st = Some rsv" "q_res st = Some res" "q_entry st = Some e" by auto
  show thesis
  proof (cases "serves h")
    case False
    with assms q show thesis
      by (intro that(2)) (auto simp: response_headers_def serves_def Let_def split: prod.splits if_splits)
  next
    case True
    then have n: "\<not> (atoi (hget h '':status'') < 200 \<or> 299 < atoi (hget h '':status''))"
      by (simp add: serves_def)
    obtain s1 i where c: "capture R (ph_capture_fault ph) (ph_ms ph) (settlement_job C ph e res (q_payment st)) s
        = (s1, i)" by fastforce
    show thesis
    proof (cases i)
      case None
      with assms q n c show thesis
        by (intro that(3) [OF True q]) (auto simp: response_headers_def Let_def split: prod.splits)
    next
      case (Some a)
      with assms q n c show thesis
        by (intro that(4) [OF True q]) (auto simp: response_headers_def Let_def)
    qed
  qed
qed

lemma release_stream_step:
  assumes "release_stream C R ph st s = (s', st')" "q_rsv st = Some rsv"
  shows "\<exists>ok. ledger_step C R c (ph_ms ph) s
      (Released (ph_release_fault ph) (rv_payer rsv) (rv_amount rsv) ok) s'" "st' = st\<lparr>q_released := True\<rparr>"
proof -
  obtain s1 ok where r: "release C R (ph_release_fault ph) (ph_ms ph) (rv_payer rsv) (rv_amount rsv) s = (s1, ok)"
    by fastforce
  with assms have "s' = s1" "st' = st\<lparr>q_released := True\<rparr>" by (auto simp: release_stream_def)
  with step_release [OF r] show "\<exists>ok. ledger_step C R c (ph_ms ph) s
      (Released (ph_release_fault ph) (rv_payer rsv) (rv_amount rsv) ok) s'" "st' = st\<lparr>q_released := True\<rparr>"
    by auto
qed

lemma release_stream_none: "q_rsv st = None \<Longrightarrow> release_stream C R ph st s = (s, st)"
  by (simp add: release_stream_def)

section \<open>Lemmas: a stream and the ledger\<close>

text \<open>What a request phase leaves of the stream's state and of the ledger\<close>

lemma request_effect [consumes 1, case_names Quiet Refused Admitted]:
  assumes "request_headers C R page pays ph attrs h st s = (s', st', r, d)"
  obtains "s' = s" "q_rsv st' = q_rsv st" "q_captured st' = q_captured st" "q_released st' = q_released st"
      "r = ContinueRequest None \<or> is_refusal r"
  | p a b rr and res :: verified where "pays = Some p"
      "ledger_step C R (pm_reserve p) (ph_ms ph) s
         (Reserved (ph_reserve_fault ph) (ph_reserve_at ph) (v_payer res) (a_nonce (v_auth res)) a b (v_expires res) rr) s'"
      "\<not> accepted rr" "q_rsv st' = q_rsv st" "q_captured st' = q_captured st" "q_released st' = q_released st"
      "is_refusal r"
  | p e pp res b rsv hdr where "pays = Some p" "decode_payment_payload hdr = Inr pp"
      "verify C (ph_verify_at ph) (pe_requirements e) (sbc_domain (pe_network e)) pp = Inr res"
      "ledger_step C R (pm_reserve p) (ph_ms ph) s
         (Reserved (ph_reserve_fault ph) (ph_reserve_at ph) (v_payer res) (a_nonce (v_auth res)) (pe_price e) b
            (v_expires res) (Inr (OutOK, Some rsv))) s'"
      "rv_payer rsv = v_payer res" "rv_nonce rsv = a_nonce (v_auth res)" "rv_amount rsv = pe_price e"
      "st' = hold (st\<lparr>q_entry := Some e\<rparr>) res rsv hdr" "r = ContinueRequest (Some (admission C res))"
proof (cases rule: request_cases [OF assms, case_names Free Refused Accept])
  case Free
  then show thesis by (intro that(1)) auto
next
  case (Refused e)
  then show thesis by (intro that(1)) auto
next
  case (Accept key e p pw)
  show thesis
  proof (cases rule: accept_cases [OF Accept(6), case_names Early Reserve])
    case Early
    then show thesis by (intro that(1)) auto
  next
    case (Reserve pp res bal rr)
    show thesis
    proof (cases "accepted rr")
      case False
      from Reserve(6) [OF this] have q: "st' = st\<lparr>q_entry := Some e\<rparr>" "is_refusal r" by simp_all
      show thesis
        by (rule that(2)) (rule Accept(3), rule step_reserve [OF Reserve(3)], use False q in simp_all)
    next
      case True
      then obtain rsv where q: "rr = Inr (OutOK, Some rsv)" "st' = hold (st\<lparr>q_entry := Some e\<rparr>) res rsv
          (hget h (to_lower HeaderPaymentSignature))" "r = ContinueRequest (Some (admission C res))"
        using Reserve(5) by auto
      from reserve_ok [OF Reserve(3) [unfolded q(1)]] have "rv_payer rsv = v_payer res"
        "rv_nonce rsv = a_nonce (v_auth res)" "rv_amount rsv = pe_price e" by auto
      with q show thesis using step_reserve [OF Reserve(3)] Reserve(1,2) Accept(3)
        by (intro that(3)) auto
    qed
  qed
qed

text \<open>A response phase, or the end of the stream, with nothing held does nothing.\<close>

lemma response_nothing_held:
  "q_rsv st = None \<Longrightarrow> response_headers C R ph h st s = (s, st, ContinueResponse None, None)"
  by (simp add: response_headers_def)

lemma finish_nothing_held: "q_rsv st = None \<Longrightarrow> finish C R ph st s = (s, st)"
  by (simp add: finish_def)

lemma finish_resolved: "q_captured st \<or> q_released st \<Longrightarrow> finish C R ph st s = (s, st)"
  by (auto simp: finish_def)

lemma finish_resolves:
  "finish C R ph st s = (s', st') \<Longrightarrow> q_rsv st' \<noteq> None \<Longrightarrow> q_captured st' \<or> q_released st'"
  by (auto simp: finish_def release_stream_def split: if_splits option.splits)


text \<open>
  What one stream does to the ledger, as its final state tells: at most one refused reserve
  when it holds nothing; else the one accepted reserve of its reservation, followed by a
  capture, by a release, or by a capture whose answer never came and a release.
\<close>

definition stream_trace :: "stream_state \<Rightarrow> ledger_event list \<Rightarrow> bool" where
  "stream_trace st es \<longleftrightarrow>
     (case q_rsv st of
        None \<Rightarrow> es = [] \<or> (\<exists>f k p n a b x r. es = [Reserved f k p n a b x r] \<and> \<not> accepted r)
      | Some rsv \<Rightarrow>
          \<exists>f k b x rest.
            es = Reserved f k (rv_payer rsv) (rv_nonce rsv) (rv_amount rsv) b x (Inr (OutOK, Some rsv)) # rest \<and>
            (if q_captured st then \<not> q_released st \<and> rest = [Elsewhere]
             else q_released st \<and>
               (\<exists>f ok. rest = [Released f (rv_payer rsv) (rv_amount rsv) ok] \<or>
                        rest = [Elsewhere, Released f (rv_payer rsv) (rv_amount rsv) ok])))"

definition opened :: "stream_state \<Rightarrow> ledger_event list \<Rightarrow> bool" where
  "opened st es \<longleftrightarrow>
     \<not> q_captured st \<and> \<not> q_released st \<and>
     (case q_rsv st of
        None \<Rightarrow> es = [] \<or> (\<exists>f k p n a b x r. es = [Reserved f k p n a b x r] \<and> \<not> accepted r)
      | Some rsv \<Rightarrow> q_res st \<noteq> None \<and> q_entry st \<noteq> None \<and>
          (\<exists>f k b x. es = [Reserved f k (rv_payer rsv) (rv_nonce rsv) (rv_amount rsv) b x (Inr (OutOK, Some rsv))]))"

lemma request_opens:
  assumes "handle C R page pays ph (RequestHeaders attrs hs) new_request s = (s', st', reply)"
    and "\<And>p. pays = Some p \<Longrightarrow> c = pm_reserve p"
  shows "\<exists>es. ledger_run C R c (ph_ms ph) s (map (Pair (ph_ms ph)) es) s' \<and> opened st' es"
proof (cases "ph_waited ph")
  case False
  with assms(1) show ?thesis
    by (intro exI [of _ "[]"]) (auto simp: handle_def opened_def new_request_def intro: run_nil)
next
  case True
  obtain r d where r: "request_headers C R page pays ph attrs (header_map hs) new_request s = (s', st', r, d)"
    using assms(1) True by (auto simp: handle_def split: prod.splits)
  show ?thesis
  proof (cases rule: request_effect [OF r, case_names Quiet Refused Admitted])
    case Quiet
    then show ?thesis
      by (intro exI [of _ "[]"]) (auto simp: opened_def new_request_def intro: run_nil)
  next
    case (Refused p a b rr res)
    with ledger.run_one [OF Refused(2)] assms(2) show ?thesis
      by (intro exI [of _ "[_]"]) (auto simp: opened_def new_request_def)
  next
    case (Admitted p e pp res b rsv hdr)
    have "opened st' [Reserved (ph_reserve_fault ph) (ph_reserve_at ph) (rv_payer rsv) (rv_nonce rsv) (rv_amount rsv) b
        (v_expires res) (Inr (OutOK, Some rsv))]"
      unfolding Admitted(8) opened_def by (simp add: hold_def new_request_def)
    with ledger.run_one [OF Admitted(4)] Admitted(1,5-7) assms(2) show ?thesis
      by (intro exI [of _ "[_]"]) auto
  qed
qed


lemma opened_none: "opened st es \<Longrightarrow> q_rsv st = None \<Longrightarrow> stream_trace st es"
  by (simp add: opened_def stream_trace_def)

text \<open>The end of a stream closes what the request phase opened.\<close>

lemma finish_closes:
  assumes "finish C R ph st s = (s', st')" "opened st es"
  shows "\<exists>fs. ledger_run C R c (ph_ms ph) s (map (Pair (ph_ms ph)) fs) s' \<and> stream_trace st' (es @ fs)"
proof (cases "q_rsv st")
  case None
  then have "s' = s" "st' = st" using assms(1) by (simp_all add: finish_def)
  with opened_none [OF assms(2) None] show ?thesis by (intro exI [of _ "[]"]) (simp add: run_nil)
next
  case (Some rsv)
  have rel: "release_stream C R ph st s = (s', st')"
    using assms Some by (auto simp: finish_def opened_def)
  obtain ok where "ledger_step C R c (ph_ms ph) s
      (Released (ph_release_fault ph) (rv_payer rsv) (rv_amount rsv) ok) s'"
    using release_stream_step(1) [OF rel Some] by blast
  moreover have "stream_trace st' (es @ [Released (ph_release_fault ph) (rv_payer rsv) (rv_amount rsv) ok])"
    using assms(2) Some release_stream_step(2) [OF rel Some]
    by (auto simp: opened_def stream_trace_def)
  ultimately show ?thesis
    by (intro exI [of _ "[_]"]) (auto intro: ledger.run_one)
qed

text \<open>A release in the response phase closes the trace.\<close>

lemma response_releases:
  assumes o: "opened st es" and rsv: "q_rsv st = Some rsv"
    and run: "ledger_run C R c (ph_ms ph) s (map (Pair (ph_ms ph)) fs) u" and fs: "fs = [] \<or> fs = [Elsewhere]"
    and rel: "release_stream C R ph st u = (s', st')"
  shows "(\<exists>fs. ledger_run C R c (ph_ms ph) s (map (Pair (ph_ms ph)) fs) s' \<and> stream_trace st' (es @ fs)) \<and>
      finish C R ph' st' s' = (s', st')"
proof -
  obtain ok where step: "ledger_step C R c (ph_ms ph) u
      (Released (ph_release_fault ph) (rv_payer rsv) (rv_amount rsv) ok) s'"
    using release_stream_step(1) [OF rel rsv] by blast
  let ?fs = "fs @ [Released (ph_release_fault ph) (rv_payer rsv) (rv_amount rsv) ok]"
  have "ledger_run C R c (ph_ms ph) s (map (Pair (ph_ms ph)) ?fs) s'"
    using ledger.run_join [OF run ledger.run_one [OF step]] fs by auto
  moreover have st': "st' = st\<lparr>q_released := True\<rparr>" by (rule release_stream_step(2) [OF rel rsv])
  moreover have "stream_trace (st\<lparr>q_released := True\<rparr>) (es @ ?fs)"
    using o rsv fs by (auto simp: opened_def stream_trace_def)
  ultimately show ?thesis by (intro conjI exI [of _ ?fs]) (auto simp: finish_resolved)
qed

text \<open>The response phase closes it too, and leaves nothing for the end of the stream.\<close>

lemma response_closes:
  assumes S: "stream_laws R" and o: "opened st es"
    and r: "response_headers C R ph h st s = (s', st', r, d)"
  shows "\<exists>fs. ledger_run C R c (ph_ms ph) s (map (Pair (ph_ms ph)) fs) s' \<and> stream_trace st' (es @ fs)"
    and "finish C R ph' st' s' = (s', st')"
proof -
  have "(\<exists>fs. ledger_run C R c (ph_ms ph) s (map (Pair (ph_ms ph)) fs) s' \<and> stream_trace st' (es @ fs)) \<and>
      finish C R ph' st' s' = (s', st')"
  proof (cases "q_rsv st")
    case None
    then have "s' = s" "st' = st" using r response_nothing_held [OF None, of C R ph h s] by simp_all
    with opened_none [OF o None] None show ?thesis
      by (intro conjI exI [of _ "[]"]) (simp_all add: run_nil finish_nothing_held)
  next
    case (Some rsv)
    then have nn: "q_res st \<noteq> None" "q_entry st \<noteq> None" "\<not> q_captured st" "\<not> q_released st"
      using o by (auto simp: opened_def)
    show ?thesis
    proof (cases rule: response_cases [OF r, case_names Nothing Unserved Lost Captured])
      case Nothing
      then show ?thesis using Some nn by simp
    next
      case Unserved
      show ?thesis by (rule response_releases [OF o Some _ _ Unserved(2), where fs = "[]"]) (simp_all add: run_nil)
    next
      case (Lost rsv' res e s1)
      have "ledger_step C R c (ph_ms ph) s Elsewhere s1" by (rule capture_elsewhere [OF S Lost(5)])
      then show ?thesis
        by (intro response_releases [OF o Some _ _ Lost(6), where fs = "[Elsewhere]"])
          (simp_all add: ledger.run_one)
    next
      case (Captured rsv' res e i)
      have "ledger_step C R c (ph_ms ph) s Elsewhere s'" by (rule capture_elsewhere [OF S Captured(5)])
      moreover have "stream_trace (st\<lparr>q_captured := True\<rparr>) (es @ [Elsewhere])"
        using o Some by (auto simp: opened_def stream_trace_def)
      ultimately show ?thesis unfolding Captured(6)
        by (intro conjI exI [of _ "[_]"]) (auto intro: ledger.run_one simp: finish_resolved)
    qed
  qed
  then show "\<exists>fs. ledger_run C R c (ph_ms ph) s (map (Pair (ph_ms ph)) fs) s' \<and> stream_trace st' (es @ fs)"
    "finish C R ph' st' s' = (s', st')" by blast+
qed

text \<open>The streams Envoy makes: nothing, a request, or a request and its response.\<close>

definition envoy_messages :: "(message \<times> phase) list \<Rightarrow> bool" where
  "envoy_messages ms \<longleftrightarrow>
     (case ms of
        [] \<Rightarrow> True
      | [(RequestHeaders _ _, _)] \<Rightarrow> True
      | [(RequestHeaders _ _, _), (ResponseHeaders _, _)] \<Rightarrow> True
      | _ \<Rightarrow> False)"

lemma envoy_messages_cases:
  assumes "envoy_messages ms"
  obtains "ms = []" | attrs hs ph where "ms = [(RequestHeaders attrs hs, ph)]"
  | attrs hs ph hs' ph' where "ms = [(RequestHeaders attrs hs, ph), (ResponseHeaders hs', ph')]"
  using assms by (auto simp: envoy_messages_def split: list.splits message.splits prod.splits)

lemma stream_join:
  assumes "ledger_run C R c t s (map (Pair t) es) s1"
    and "\<exists>fs. ledger_run C R c t' s1 (map (Pair t') fs) s' \<and> stream_trace st (es @ fs)" "t0 \<le> t" "t \<le> t'"
  shows "\<exists>gs. ledger_run C R c t0 s gs s' \<and> stream_trace st (map snd gs)"
proof -
  obtain fs where f: "ledger_run C R c t' s1 (map (Pair t') fs) s'" "stream_trace st (es @ fs)"
    using assms(2) by blast
  have "ledger_run C R c t s (map (Pair t) es @ map (Pair t') fs) s'"
    by (rule ledger.run_join [OF assms(1) f(1) assms(4)]) (use assms(4) in auto)
  with f(2) assms(3) have "ledger_run C R c t0 s ([] @ map (Pair t) es @ map (Pair t') fs) s'"
    by (intro ledger.run_join [OF run_nil]) auto
  moreover have "map snd (map (Pair t) es @ map (Pair t') fs) = es @ fs" by (simp add: comp_def)
  ultimately show ?thesis using f(2) by (metis append_Nil)
qed

lemma process_trace:
  assumes S: "stream_laws R" and c: "\<And>p. pays = Some p \<Longrightarrow> c = pm_reserve p"
    and ms: "envoy_messages ms" "sorted (map (ph_ms \<circ> snd) ms @ [ph_ms last_ph])"
      "\<forall>(m, ph) \<in> set ms. t0 \<le> ph_ms ph" "t0 \<le> ph_ms last_ph"
    and p: "process C R page pays ms last_ph s = (s', st', rs)"
  shows "\<exists>es. ledger_run C R c t0 s es s' \<and> stream_trace st' (map snd es)"
proof (cases rule: envoy_messages_cases [OF ms(1), case_names None Request Both])
  case None
  with p have "s' = s" "st' = new_request" by (auto simp: process_def finish_def new_request_def)
  then show ?thesis by (intro exI [of _ "[]"]) (simp add: run_nil stream_trace_def new_request_def)
next
  case (Request attrs hs ph)
  obtain s1 st1 o1 where h: "handle C R page pays ph (RequestHeaders attrs hs) new_request s = (s1, st1, o1)"
    by (cases "handle C R page pays ph (RequestHeaders attrs hs) new_request s")
  obtain es where es: "ledger_run C R c (ph_ms ph) s (map (Pair (ph_ms ph)) es) s1" "opened st1 es"
    using request_opens [OF h c] by blast
  have fin: "finish C R last_ph st1 s1 = (s', st')"
    using p h by (auto simp: process_def Request split: prod.splits option.splits if_splits)
  have "t0 \<le> ph_ms ph" "ph_ms ph \<le> ph_ms last_ph" using ms(2,3) by (auto simp: Request)
  then show ?thesis by (rule stream_join [OF es(1) finish_closes [OF fin es(2)]])
next
  case (Both attrs hs ph hs' ph')
  obtain s1 st1 o1 where h: "handle C R page pays ph (RequestHeaders attrs hs) new_request s = (s1, st1, o1)"
    by (cases "handle C R page pays ph (RequestHeaders attrs hs) new_request s")
  obtain es where es: "ledger_run C R c (ph_ms ph) s (map (Pair (ph_ms ph)) es) s1" "opened st1 es"
    using request_opens [OF h c] by blast
  have times: "t0 \<le> ph_ms ph" "ph_ms ph \<le> ph_ms ph'" "ph_ms ph \<le> ph_ms last_ph" using ms(2,3) by (auto simp: Both)
  show ?thesis
  proof (cases "o1 = None \<or> \<not> ph_sent ph")
    case True
    then have "finish C R last_ph st1 s1 = (s', st')"
      using p h by (auto simp: process_def Both split: prod.splits option.splits if_splits)
    from finish_closes [OF this es(2)] show ?thesis
      using stream_join [OF es(1)] times by blast
  next
    case False
    obtain s2 st2 r2 d2 where r: "response_headers C R ph' (header_map hs') st1 s1 = (s2, st2, r2, d2)"
      by (cases "response_headers C R ph' (header_map hs') st1 s1")
    have "finish C R last_ph st2 s2 = (s', st')"
      using p h r False
      by (auto simp: process_def Both handle_def [of C R page pays ph' "ResponseHeaders hs'"]
          split: prod.splits option.splits if_splits)
    with response_closes(2) [OF S es(2) r] have "s' = s2" "st' = st2" by simp_all
    with response_closes(1) [OF S es(2) r] show ?thesis
      using stream_join [OF es(1)] times by blast
  qed
qed


section \<open>Lemmas: an admitted request\<close>

text \<open>What an answered acceptance says of the ledger\<close>

lemma reserve_ok_view:
  assumes "key_laws R" "counter_ok (rd_view R s t) (inflight_key C p)"
    and "0 < a" "a \<le> MaxExact" "msec \<le> inflight_ttl c"
    and r: "reserve C R c Answered clock t p n a b x s = (s', Inr (OutOK, q))"
  shows "rd_view R s t (nonce_key C p n) = None \<and>
    inflight_of (rd_view R s t) (inflight_key C p) + a \<le> min b MaxExact \<and>
    rd_view R s' t = (rd_view R s t)
      (nonce_key C p n \<mapsto> (RString ''1'', Some (t + millis (nonce_ttl c clock x))),
       inflight_key C p \<mapsto> (RString (int_str (inflight_of (rd_view R s t) (inflight_key C p) + a)),
         Some (t + millis (inflight_ttl c))))"
proof -
  let ?v = "rd_view R s t"
  obtain s1 where "reserve C R c Answered clock t p n a b x s =
       (s1, Inr (reserve_result p n a (inflight_of ?v (inflight_key C p))
              (reserve_code ?v (nonce_key C p n) (inflight_key C p) a (clamp_balance b))))"
    "rd_view R s1 t = reserve_view ?v t (nonce_key C p n) (inflight_key C p) a
       (clamp_balance b) (millis (nonce_ttl c clock x)) (millis (inflight_ttl c))"
    by (rule reserve_answered [OF assms(1-5)])
  with r have "reserve_code ?v (nonce_key C p n) (inflight_key C p) a (clamp_balance b) = 0"
    "rd_view R s' t = reserve_view ?v t (nonce_key C p n) (inflight_key C p) a
       (clamp_balance b) (millis (nonce_ttl c clock x)) (millis (inflight_ttl c))"
    by (auto simp: reserve_result_def split: if_splits)
  then show ?thesis
    by (cases "?v (nonce_key C p n)")
      (auto simp: reserve_code_def reserve_view_def clamp_balance_def split: if_splits)
qed

lemma request_admits:
  assumes "request_headers C R page pays ph attrs h st s = (s', st', ContinueRequest (Some m), d)"
  obtains key e p pp res cache bal rsv where
    "route_key (route_attribute attrs) = Some key" "price_lookup (ph_table ph) key = Some e" "pays = Some p"
    "verify C (ph_verify_at ph) (pe_requirements e) (sbc_domain (pe_network e)) pp = Inr res"
    "decode_payment_payload (hget h (to_lower HeaderPaymentSignature)) = Inr pp"
    "map_of (pm_balances p) (network (pe_network e)) = Some cache"
    "fst (balance_get C R cache (ph_read_fault ph) (ph_read_ms ph) (ph_cache_at ph) (v_payer res)
       (ph_arrival ph) s) = Inr bal"
    "reserve C R (pm_reserve p) (ph_reserve_fault ph) (ph_reserve_at ph) (ph_ms ph) (v_payer res)
       (a_nonce (v_auth res)) (pe_price e) (bl_value bal) (v_expires res) s = (s', Inr (OutOK, Some rsv))"
proof (cases rule: request_cases [OF assms, case_names Free Refused Accept])
  case (Accept key e p pw)
  show thesis
  proof (cases rule: accept_cases [OF Accept(6), case_names Early Reserve])
    case (Reserve pp res bal rr)
    then have "accepted rr" by auto
    with Reserve Accept(1-3) that show thesis by blast
  qed auto
qed auto


section \<open>Lemmas: the job of a served response\<close>

lemma release_stream_streams:
  "key_laws R \<Longrightarrow> release_stream C R ph st s = (s', st') \<Longrightarrow> rd_stream R s' = rd_stream R s"
  by (auto simp: release_stream_def release_streams split: option.splits)

section \<open>Concrete streams\<close>

definition demo_payments :: payments where
  "demo_payments = \<lparr>pm_balances = [(''eip155:72344'', demo_cache)], pm_reserve = demo_cfg\<rparr>"

definition demo_phase :: phase where
  "demo_phase =
     \<lparr>ph_table = Some [(''httproute/a/b'', demo_entry)], ph_verify_at = 0, ph_cache_at = 0, ph_reserve_at = 0,
      ph_served_at = 0, ph_read_ms = 0, ph_ms = 0, ph_read_fault = Answered, ph_reserve_fault = Answered,
      ph_capture_fault = Answered, ph_release_fault = Answered, ph_arrival = Some (Inr 5000),
      ph_waited = True, ph_sent = True\<rparr>"

definition demo_attrs :: "(string \<times> (string \<times> attr_value) list) list" where
  "demo_attrs = [(attributesKey, [(routeNameAttr, AttrString (''httproute/a/b'' @ ''/''))])]"

lemma demo_entry_ok: "entry_ok demo_crypto [Testnet] demo_entry"
  using validate_Inr [OF demo_validates] by simp

lemma demo_entry_offer:
  "payable_offer demo_wallet (pe_requirements demo_entry)"
  "parse_address (rq_payTo (pe_requirements demo_entry)) = Inr SBCAddress"
  "parse_uint256 (rq_amount (pe_requirements demo_entry)) = Inr 1000"
  "rq_timeout (pe_requirements demo_entry) = 60"
  by (simp_all add: demo_entry_def payable_offer_def exact_requirements_def demo_wallet_def transfer_method_def
      TransferEIP3009_def parse_address_string is_address_SBC demo_amount)

lemma demo_entry_size:
  "ok_requirements (pe_requirements demo_entry)" "json_size (enc_requirements (pe_requirements demo_entry)) \<le> 4000"
  by (simp_all add: demo_entry_def exact_requirements_def ok_requirements_def ok_extra_def ascii_address_string
      network_testnet ascii_code SchemeExact_def SBC_def TransferEIP3009_def SBCName_def SBCVersion_def is_int64_def
      enc_requirements_def enc_extra_def omit_empty_def jint_def int_str_def nat_str.simps
      length_address_string is_address_SBC ascii_address_string [unfolded ascii_code])

text \<open>A request that pays, signed by the wallet of the examples\<close>

lemma demo_header:
  obtains hdr pp res where "hdr \<noteq> []" "decode_payment_payload hdr = Inr pp"
    "verify demo_crypto 0 (pe_requirements demo_entry) (sbc_domain (pe_network demo_entry)) pp = Inr res"
    "v_expires res = 60 * nsec" "v_payer res = wallet_address demo_crypto demo_wallet"
    "a_nonce (v_auth res) = replicate 32 1"
proof -
  let ?r = "pe_requirements demo_entry"
  have dm: "sbc_domain (pe_network demo_entry) = wallet_domain demo_wallet"
    by (simp add: sbc_domain_def wallet_domain_def demo_entry_def demo_wallet_def)
  obtain pp where s: "sign demo_crypto demo_wallet ?r None 0 0 (Some (replicate 32 1)) = Inr pp"
    by (rule sign_total [OF demo_laws demo_entry_offer(1-3), where n = "replicate 32 1" and res = None and now = 0 and validFor = 0])
      (simp_all add: demo_entry_offer demo_window max_uint256_def unix_def)
  have d: "decode_payment_payload (encode_payment_payload pp) = Inr pp"
    by (rule signed_header_decodes [OF demo_laws s _ demo_entry_size])
      (simp_all add: demo_entry_offer demo_window unix_def int_str_def nat_str.simps)
  have u: "unix 0 = 0" by (simp add: unix_def)
  obtain res where v: "verify demo_crypto 0 ?r (wallet_domain demo_wallet) pp = Inr res"
    "v_payer res = wallet_address demo_crypto demo_wallet" "a_nonce (v_auth res) = replicate 32 1"
    "v_expires res = unix (0 + sign_window (rq_timeout ?r) 0) * nsec"
  proof (rule sign_verifies [OF demo_laws s, where t = 0])
    show "hd (sign_compact demo_crypto (wa_key demo_wallet) h) \<in> {27, 28}" for h by (rule demo_sign)
    show "unix 0 < unix (0 + sign_window (rq_timeout ?r) 0)" "0 \<le> unix 0"
      "is_int64 (unix (0 + sign_window (rq_timeout ?r) 0))" "unix (0 + sign_window (rq_timeout ?r) 0) \<le> accept_limit 0 ?r"
      unfolding demo_entry_offer add_0 demo_window accept_limit_def u
      by (simp_all add: skew_allowance_def i64_id is_int64_def)
  qed simp_all
  show thesis
    by (rule that [of "encode_payment_payload pp" pp res])
      (use d v dm in \<open>auto simp: demo_entry_offer demo_window unix_def decode_payment_payload_def decode_header_def
        trim_space_def trim_left_def trim_right_def bind_r_eq_Inr\<close>)
qed


lemma demo_balance:
  "fst (balance_get demo_crypto mem_redis demo_cache Answered 0 0 p (Some (Inr 5000)) empty_mem) =
     Inr \<lparr>bl_value = 5000, bl_age = 0, bl_source = SourceFetched\<rparr>"
  by (simp add: balance_get_def cache_read_def mem_redis_def empty_mem_def ks_hmget_def live_at_def parse_entry_def)

text \<open>The request passes, and its stream holds the reservation.\<close>

lemma demo_admits:
  assumes h: "hdr \<noteq> []" "decode_payment_payload hdr = Inr pp"
    "verify demo_crypto 0 (pe_requirements demo_entry) (sbc_domain (pe_network demo_entry)) pp = Inr res"
  obtains s' rsv m where
    "request_headers demo_crypto mem_redis (\<lambda>_. None) (Some demo_payments) demo_phase demo_attrs
       [(''payment-signature'', hdr)] new_request empty_mem =
     (s', new_request\<lparr>q_entry := Some demo_entry, q_res := Some res, q_rsv := Some rsv, q_payment := hdr\<rparr>,
      ContinueRequest (Some m), PaymentAccepted)"
    "rv_amount rsv = 1000"
proof -
  obtain s' q where r: "reserve demo_crypto mem_redis demo_cfg Answered 0 0 (v_payer res) (a_nonce (v_auth res)) 1000 5000
      (v_expires res) empty_mem = (s', Inr (OutOK, Some q))"
    by (rule reserve_accepts [OF mem_keys, where s = empty_mem and t = 0 and C = demo_crypto and p = "v_payer res"
          and a = 1000 and b = 5000 and c = demo_cfg and n = "a_nonce (v_auth res)" and clock = 0 and x = "v_expires res"])
      (simp_all add: empty_mem_view counter_ok_def inflight_of_def demo_cfg_ttl MaxExact_def)
  have low: "to_lower HeaderPaymentSignature = ''payment-signature''"
    by (simp add: HeaderPaymentSignature_def to_lower_def to_lower_char_def is_upper_def)
  have ra: "route_key (route_attribute demo_attrs) = Some ''httproute/a/b''"
    using demo_route_key by (simp add: demo_attrs_def route_attribute_def)
  have pl: "price_lookup (Some [(''httproute/a/b'', demo_entry)]) ''httproute/a/b'' = Some demo_entry"
    by (simp add: price_lookup_def)
  have net: "network (pe_network demo_entry) = ''eip155:72344''" "pe_price demo_entry = 1000"
    by (simp_all add: demo_entry_def network_testnet)
  have a: "accept_payment demo_crypto mem_redis (\<lambda>_. None) demo_payments demo_phase demo_entry pw hdr st empty_mem =
     (s', st\<lparr>q_res := Some res, q_rsv := Some q, q_payment := hdr\<rparr>, ContinueRequest (Some (admission demo_crypto res)),
      PaymentAccepted)" for pw st
    using h(2,3) r net demo_balance
    by (simp add: accept_payment_def demo_phase_def demo_payments_def admission_def)
  have "request_headers demo_crypto mem_redis (\<lambda>_. None) (Some demo_payments) demo_phase demo_attrs
       [(''payment-signature'', hdr)] new_request empty_mem =
     (s', new_request\<lparr>q_entry := Some demo_entry, q_res := Some res, q_rsv := Some q, q_payment := hdr\<rparr>,
      ContinueRequest (Some (admission demo_crypto res)), PaymentAccepted)"
    using h(1) pl by (simp add: request_headers_def ra low hget_def a demo_phase_def [of] Let_def)
      (simp add: a [unfolded demo_phase_def])
  moreover have "rv_amount q = 1000" using r by (auto elim: reserve_ok)
  ultimately show thesis by (rule that)
qed

lemma demo_admitted:
  obtains hdr s' rsv res m where
    "request_headers demo_crypto mem_redis (\<lambda>_. None) (Some demo_payments) demo_phase demo_attrs
       [(''payment-signature'', hdr)] new_request empty_mem =
     (s', new_request\<lparr>q_entry := Some demo_entry, q_res := Some res, q_rsv := Some rsv, q_payment := hdr\<rparr>,
      ContinueRequest (Some m), PaymentAccepted)"
    "v_expires res = 60 * nsec"
proof (rule demo_header)
  fix hdr pp res
  assume h: "hdr \<noteq> []" "decode_payment_payload hdr = Inr pp"
    "verify demo_crypto 0 (pe_requirements demo_entry) (sbc_domain (pe_network demo_entry)) pp = Inr res"
    "v_expires res = 60 * nsec"
  show thesis by (rule demo_admits [OF h(1-3)]) (rule that [OF _ h(4)])
qed

lemma demo_status: "atoi ''200'' = 200"
  by (simp add: atoi_def signed_dec_def all_digits_def is_digit_def dec_val_def digit_val_def sat64_def)

lemma mem_streams: "stream_laws mem_redis"
  using mem_redis_laws by (rule redis_lawsD)

text \<open>What a payment verified against a checked price commits to, and what its accepted reserve does.\<close>

lemma verified_against_entry:
  assumes "entry_ok C nets e" "verify C now (pe_requirements e) tk pp = Inr res"
  shows "\<exists>payTo dg. payable_route (pe_requirements e) (pe_price e) payTo \<and>
    terms_met now (pe_requirements e) (pe_price e) payTo (v_auth res) \<and>
    digest C tk (v_auth res) = Some dg \<and> recover C dg (v_signature res) = Inr (v_payer res) \<and>
    a_from (v_auth res) = v_payer res"
proof -
  obtain price payTo dg where v: "payable_route (pe_requirements e) price payTo"
    "terms_met now (pe_requirements e) price payTo (v_auth res)" "digest C tk (v_auth res) = Some dg"
    "recover C dg (v_signature res) = Inr (v_payer res)" "a_from (v_auth res) = v_payer res"
    using verify_InrD [OF assms(2)] by metis
  obtain payTo' where "payable_route (pe_requirements e) (pe_price e) payTo'" by (rule entry_ok_payable [OF assms(1)])
  with v(1) have "price = pe_price e" by (simp add: payable_route_def)
  with v show ?thesis by blast
qed

lemma admission_effect:
  assumes "key_laws R" "counter_ok (rd_view R s t) (inflight_key C p)" "entry_ok C nets e" "msec \<le> inflight_ttl c"
    and "reserve C R c Answered clock t p n (pe_price e) b x s = (s', Inr (OutOK, Some q))"
  shows "rd_view R s t (nonce_key C p n) = None" "rd_view R s' t (nonce_key C p n) \<noteq> None"
    "inflight_of (rd_view R s t) (inflight_key C p) + pe_price e \<le> b"
    "inflight_of (rd_view R s' t) (inflight_key C p) = inflight_of (rd_view R s t) (inflight_key C p) + pe_price e"
proof -
  let ?v = "rd_view R s t" and ?k = "inflight_key C p"
  have price: "0 < pe_price e" "pe_price e \<le> MaxExact"
    using assms(3) by (auto simp: entry_ok_def MaxPrice_def MaxExact_def)
  have pos: "0 \<le> inflight_of ?v ?k" using inflight_bounds [OF assms(2)] by simp
  note led = reserve_ok_view [OF assms(1,2) price assms(4,5)]
  show "?v (nonce_key C p n) = None" "rd_view R s' t (nonce_key C p n) \<noteq> None" using led by simp_all
  show "inflight_of ?v ?k + pe_price e \<le> b" using led by simp
  show "inflight_of (rd_view R s' t) ?k = inflight_of ?v ?k + pe_price e"
    using led pos price by (simp add: inflight_of_def parse_int64_int_str exact_int64)
qed

section \<open>Properties\<close>

text \<open>
  C6: the backend sees a request only when the route is free or the payment is good.  A
  request that passes the filter either has no price, and then nothing changes, or carried a
  payment that the verifier accepted for this route's terms and that the ledger accepted at
  the price; the stream then holds the reservation, the signature is removed from the
  request and the payer's headers are overwritten.
\<close>

theorem backend_reached_only_if_paid:
  assumes "request_headers C R page pays ph attrs h st s = (s', st', r, d)" "passes_request r"
  shows "(\<exists>key. route_key (route_attribute attrs) = Some key \<and> ph_table ph \<noteq> None \<and>
       price_lookup (ph_table ph) key = None \<and> s' = s \<and> st' = st \<and> r = ContinueRequest None \<and> d = Unpriced) \<or>
    (\<exists>key e p pp res b rsv.
       route_key (route_attribute attrs) = Some key \<and> price_lookup (ph_table ph) key = Some e \<and> pays = Some p \<and>
       decode_payment_payload (hget h (to_lower HeaderPaymentSignature)) = Inr pp \<and>
       verify C (ph_verify_at ph) (pe_requirements e) (sbc_domain (pe_network e)) pp = Inr res \<and>
       reserve C R (pm_reserve p) (ph_reserve_fault ph) (ph_reserve_at ph) (ph_ms ph) (v_payer res)
         (a_nonce (v_auth res)) (pe_price e) b (v_expires res) s = (s', Inr (OutOK, Some rsv)) \<and>
       st' = st\<lparr>q_entry := Some e, q_res := Some res, q_rsv := Some rsv,
               q_payment := hget h (to_lower HeaderPaymentSignature)\<rparr> \<and>
       r = ContinueRequest (Some
         \<lparr>mu_remove = [''payment-signature''],
          mu_set = [(''x-x402-payer'', address_string C (v_payer res)), (''x-x402-payment-id'', payment_id res)]\<rparr>) \<and>
       d = PaymentAccepted)"
proof (cases rule: request_cases [OF assms(1), case_names Free Refused Accept])
  case Free
  then show ?thesis by blast
next
  case (Refused e)
  then show ?thesis using assms(2) refusal_or_pass by blast
next
  case (Accept key e p pw)
  show ?thesis
  proof (cases rule: accept_cases [OF Accept(6), case_names Early Reserve])
    case Early
    then show ?thesis using assms(2) refusal_or_pass by blast
  next
    case (Reserve pp res bal rr)
    with assms(2) refusal_or_pass have "accepted rr" by blast
    then obtain rsv where q: "rr = Inr (OutOK, Some rsv)" "st' = hold (st\<lparr>q_entry := Some e\<rparr>) res rsv
        (hget h (to_lower HeaderPaymentSignature))" "r = ContinueRequest (Some (admission C res))" "d = PaymentAccepted"
      using Reserve(5) by blast
    have a: "admission C res = \<lparr>mu_remove = [''payment-signature''],
        mu_set = [(''x-x402-payer'', address_string C (v_payer res)), (''x-x402-payment-id'', payment_id res)]\<rparr>"
      by (simp add: admission_def set_headers_def HeaderPayer_def HeaderPaymentID_def HeaderPaymentSignature_def
          to_lower_def to_lower_char_def is_upper_def)
    have "st' = st\<lparr>q_entry := Some e, q_res := Some res, q_rsv := Some rsv,
        q_payment := hget h (to_lower HeaderPaymentSignature)\<rparr>"
      using q(2) by (simp add: hold_def)
    with Accept(1-3) Reserve(1,2) Reserve(3) [unfolded q(1)] q(3,4) show ?thesis unfolding a by blast
  qed
qed


theorem backend_reached_only_if_paid_witness:
  "\<exists>hdr s' st' r d. request_headers demo_crypto mem_redis (\<lambda>_. None) (Some demo_payments) demo_phase demo_attrs
       [(''payment-signature'', hdr)] new_request empty_mem = (s', st', r, d) \<and> passes_request r \<and>
    (\<exists>key e p pp res b rsv.
       route_key (route_attribute demo_attrs) = Some key \<and> price_lookup (ph_table demo_phase) key = Some e \<and>
       Some demo_payments = Some p \<and>
       decode_payment_payload (hget [(''payment-signature'', hdr)] (to_lower HeaderPaymentSignature)) = Inr pp \<and>
       verify demo_crypto (ph_verify_at demo_phase) (pe_requirements e) (sbc_domain (pe_network e)) pp = Inr res \<and>
       reserve demo_crypto mem_redis (pm_reserve p) (ph_reserve_fault demo_phase) (ph_reserve_at demo_phase)
         (ph_ms demo_phase) (v_payer res) (a_nonce (v_auth res)) (pe_price e) b (v_expires res) empty_mem
         = (s', Inr (OutOK, Some rsv)) \<and> d = PaymentAccepted)"
proof -
  obtain hdr s' rsv res m where a: "request_headers demo_crypto mem_redis (\<lambda>_. None) (Some demo_payments) demo_phase
      demo_attrs [(''payment-signature'', hdr)] new_request empty_mem =
     (s', new_request\<lparr>q_entry := Some demo_entry, q_res := Some res, q_rsv := Some rsv, q_payment := hdr\<rparr>,
      ContinueRequest (Some m), PaymentAccepted)" by (rule demo_admitted)
  have p: "passes_request (ContinueRequest (Some m))" by simp
  from backend_reached_only_if_paid [OF a p] show ?thesis
    by (elim disjE) (simp, use a p in blast)
qed

text \<open>
  C5: a paid request is backed by a signature, a balance and a fresh nonce.  When a priced
  request passes the filter and the reserve was answered at once, the payer signed, in the
  token's domain, a transfer of at least the price to the route's recipient that is valid
  now; the nonce was unused and is now claimed; and the balance read covers the price on
  top of everything in flight for that payer, whose sum grows by exactly the price.
\<close>

theorem admitted_payment_is_backed:
  assumes "key_laws R" "\<forall>k e. price_lookup (ph_table ph) k = Some e \<longrightarrow> entry_ok C nets e"
    and "\<forall>a. counter_ok (rd_view R s (ph_ms ph)) (inflight_key C a)"
    and "\<forall>p. pays = Some p \<longrightarrow> msec \<le> inflight_ttl (pm_reserve p)" "ph_reserve_fault ph = Answered"
    and "request_headers C R page pays ph attrs h st s = (s', st', ContinueRequest (Some m), d)"
  shows "\<exists>key e pp res payTo dg bal.
    let v = rd_view R s (ph_ms ph); v' = rd_view R s' (ph_ms ph);
        payer = v_payer res; nonce = a_nonce (v_auth res) in
    route_key (route_attribute attrs) = Some key \<and> price_lookup (ph_table ph) key = Some e \<and>
    decode_payment_payload (hget h (to_lower HeaderPaymentSignature)) = Inr pp \<and>
    verify C (ph_verify_at ph) (pe_requirements e) (sbc_domain (pe_network e)) pp = Inr res \<and>
    payable_route (pe_requirements e) (pe_price e) payTo \<and>
    terms_met (ph_verify_at ph) (pe_requirements e) (pe_price e) payTo (v_auth res) \<and>
    digest C (sbc_domain (pe_network e)) (v_auth res) = Some dg \<and>
    recover C dg (v_signature res) = Inr payer \<and> a_from (v_auth res) = payer \<and>
    v (nonce_key C payer nonce) = None \<and> v' (nonce_key C payer nonce) \<noteq> None \<and>
    (\<exists>p cache. pays = Some p \<and> map_of (pm_balances p) (network (pe_network e)) = Some cache \<and>
       fst (balance_get C R cache (ph_read_fault ph) (ph_read_ms ph) (ph_cache_at ph) payer (ph_arrival ph) s)
         = Inr bal) \<and>
    inflight_of v (inflight_key C payer) + pe_price e \<le> bl_value bal \<and>
    inflight_of v' (inflight_key C payer) = inflight_of v (inflight_key C payer) + pe_price e"
proof (rule request_admits [OF assms(6)])
  fix key e p pp res cache bal rsv
  assume a: "route_key (route_attribute attrs) = Some key" "price_lookup (ph_table ph) key = Some e" "pays = Some p"
    "verify C (ph_verify_at ph) (pe_requirements e) (sbc_domain (pe_network e)) pp = Inr res"
    "decode_payment_payload (hget h (to_lower HeaderPaymentSignature)) = Inr pp"
    "map_of (pm_balances p) (network (pe_network e)) = Some cache"
    "fst (balance_get C R cache (ph_read_fault ph) (ph_read_ms ph) (ph_cache_at ph) (v_payer res)
       (ph_arrival ph) s) = Inr bal"
    "reserve C R (pm_reserve p) (ph_reserve_fault ph) (ph_reserve_at ph) (ph_ms ph) (v_payer res)
       (a_nonce (v_auth res)) (pe_price e) (bl_value bal) (v_expires res) s = (s', Inr (OutOK, Some rsv))"
  note e = assms(2) [rule_format, OF a(2)]
  note effect = admission_effect [OF assms(1) assms(3) [rule_format] e assms(4) [rule_format, OF a(3)]
      a(8) [unfolded assms(5)]]
  from verified_against_entry [OF e a(4)] effect a show ?thesis unfolding Let_def by blast
qed


theorem admitted_payment_is_backed_witness:
  "\<exists>hdr s' st' m d. request_headers demo_crypto mem_redis (\<lambda>_. None) (Some demo_payments) demo_phase demo_attrs
       [(''payment-signature'', hdr)] new_request empty_mem = (s', st', ContinueRequest (Some m), d) \<and>
    (\<exists>key e pp res payTo dg bal.
      let v = rd_view mem_redis empty_mem 0; v' = rd_view mem_redis s' 0;
          payer = v_payer res; nonce = a_nonce (v_auth res) in
      route_key (route_attribute demo_attrs) = Some key \<and> price_lookup (ph_table demo_phase) key = Some e \<and>
      decode_payment_payload (hget [(''payment-signature'', hdr)] (to_lower HeaderPaymentSignature)) = Inr pp \<and>
      verify demo_crypto 0 (pe_requirements e) (sbc_domain (pe_network e)) pp = Inr res \<and>
      payable_route (pe_requirements e) (pe_price e) payTo \<and>
      terms_met 0 (pe_requirements e) (pe_price e) payTo (v_auth res) \<and>
      digest demo_crypto (sbc_domain (pe_network e)) (v_auth res) = Some dg \<and>
      recover demo_crypto dg (v_signature res) = Inr payer \<and> a_from (v_auth res) = payer \<and>
      v (nonce_key demo_crypto payer nonce) = None \<and> v' (nonce_key demo_crypto payer nonce) \<noteq> None \<and>
      (\<exists>p cache. Some demo_payments = Some p \<and> map_of (pm_balances p) (network (pe_network e)) = Some cache \<and>
         fst (balance_get demo_crypto mem_redis cache Answered 0 0 payer (Some (Inr 5000)) empty_mem) = Inr bal) \<and>
      inflight_of v (inflight_key demo_crypto payer) + pe_price e \<le> bl_value bal \<and>
      inflight_of v' (inflight_key demo_crypto payer) = inflight_of v (inflight_key demo_crypto payer) + pe_price e)"
proof -
  obtain hdr s' rsv res m where a: "request_headers demo_crypto mem_redis (\<lambda>_. None) (Some demo_payments) demo_phase
      demo_attrs [(''payment-signature'', hdr)] new_request empty_mem =
     (s', new_request\<lparr>q_entry := Some demo_entry, q_res := Some res, q_rsv := Some rsv, q_payment := hdr\<rparr>,
      ContinueRequest (Some m), PaymentAccepted)" by (rule demo_admitted)
  have f: "ph_ms demo_phase = 0" "ph_verify_at demo_phase = 0" "ph_read_fault demo_phase = Answered"
    "ph_read_ms demo_phase = 0" "ph_cache_at demo_phase = 0" "ph_arrival demo_phase = Some (Inr 5000)"
    by (simp_all add: demo_phase_def)
  have e: "\<forall>k e. price_lookup (ph_table demo_phase) k = Some e \<longrightarrow> entry_ok demo_crypto [Testnet] e"
    using demo_entry_ok by (simp add: demo_phase_def price_lookup_def split: if_splits)
  have c: "\<forall>a. counter_ok (rd_view mem_redis empty_mem (ph_ms demo_phase)) (inflight_key demo_crypto a)"
    by (simp add: empty_mem_view counter_ok_def)
  have t: "\<forall>p. Some demo_payments = Some p \<longrightarrow> msec \<le> inflight_ttl (pm_reserve p)"
    using demo_cfg_ttl by (simp add: demo_payments_def)
  have r: "ph_reserve_fault demo_phase = Answered" by (simp add: demo_phase_def)
  from admitted_payment_is_backed [OF mem_keys e c t r a, unfolded f] a show ?thesis by blast
qed

text \<open>
  C9: a settlement job is written for a served response only, and it is this payment.  When
  the response phase says paid, the status is 2xx, the stream held a reservation, the job in
  the settle stream carries the payer, the route, the price, the payment as received and the
  nonce, no key of the ledger changed, and the answer may not be cached; when the response
  is not 2xx, the settle stream is as it was.
\<close>

theorem paid_means_served_and_queued:
  assumes "key_laws R" "stream_laws R" "response_headers C R ph h st s = (s', st', r, d)"
  shows "(d = Some Paid \<longrightarrow>
       200 \<le> atoi (hget h '':status'') \<and> atoi (hget h '':status'') \<le> 299 \<and> st' = st\<lparr>q_captured := True\<rparr> \<and>
       rd_view R s' = rd_view R s \<and>
       (\<exists>rsv res e m. q_rsv st = Some rsv \<and> q_res st = Some res \<and> q_entry st = Some e \<and>
          queued R s' \<lparr>jb_paymentId = hex_0x (a_nonce (v_auth res)), jb_payer = address_string C (v_payer res),
             jb_route = pe_key e, jb_amount = int_str (pe_price e), jb_network = network (pe_network e),
             jb_validBefore = unix (v_expires res), jb_payment = q_payment st,
             jb_requirements = pe_requirements e, jb_servedAt = ph_served_at ph\<rparr> \<and>
          r = ContinueResponse (Some m) \<and> map_of (mu_set m) ''cache-control'' = Some ''private, no-store'')) \<and>
    (\<not> (200 \<le> atoi (hget h '':status'') \<and> atoi (hget h '':status'') \<le> 299) \<longrightarrow>
       d \<noteq> Some Paid \<and> rd_stream R s' = rd_stream R s)"
proof (cases rule: response_cases [OF assms(3), case_names Nothing Unserved Lost Captured])
  case (Captured rsv res e i)
  have q: "queued R s' (settlement_job C ph e res (q_payment st))" "rd_view R s' = rd_view R s"
    using capture_effect(1,2) [OF assms(2) Captured(5)] by simp_all
  have "\<exists>m. r = ContinueResponse (Some m) \<and> map_of (mu_set m) ''cache-control'' = Some ''private, no-store''"
    using assms(3) Captured
    by (auto simp: response_headers_def serves_def Let_def set_headers_def to_lower_def to_lower_char_def
        is_upper_def HeaderPaymentResponse_def split: if_splits)
  with Captured q show ?thesis by (auto simp: serves_def settlement_job_def payment_id_def)
qed (auto simp: serves_def dest: release_stream_streams [OF assms(1)])

theorem paid_means_served_and_queued_witness:
  "\<exists>rsv res s' st' r d. response_headers demo_crypto mem_redis demo_phase [('':status'', ''200'')]
       (new_request\<lparr>q_entry := Some demo_entry, q_res := Some res, q_rsv := Some rsv\<rparr>) empty_mem = (s', st', r, d) \<and>
     d = Some Paid \<and> st' = new_request\<lparr>q_entry := Some demo_entry, q_res := Some res, q_rsv := Some rsv,
       q_captured := True\<rparr> \<and> rd_view mem_redis s' = rd_view mem_redis empty_mem"
proof -
  obtain hdr s0 rsv res m where "request_headers demo_crypto mem_redis (\<lambda>_. None) (Some demo_payments) demo_phase
      demo_attrs [(''payment-signature'', hdr)] new_request empty_mem =
     (s0, new_request\<lparr>q_entry := Some demo_entry, q_res := Some res, q_rsv := Some rsv, q_payment := hdr\<rparr>,
      ContinueRequest (Some m), PaymentAccepted)" by (rule demo_admitted)
  let ?st = "new_request\<lparr>q_entry := Some demo_entry, q_res := Some res, q_rsv := Some rsv\<rparr>"
  obtain s' st' r d where p: "response_headers demo_crypto mem_redis demo_phase [('':status'', ''200'')] ?st empty_mem
      = (s', st', r, d)" by (cases "response_headers demo_crypto mem_redis demo_phase [('':status'', ''200'')] ?st empty_mem")
  have "d = Some Paid" using p
    by (auto simp: response_headers_def demo_phase_def hget_def demo_status Let_def capture_def
        split: prod.splits option.splits)
  with paid_means_served_and_queued [OF mem_keys mem_streams p]
  have "st' = ?st\<lparr>q_captured := True\<rparr>" "rd_view mem_redis s' = rd_view mem_redis empty_mem" by blast+
  with p \<open>d = Some Paid\<close> show ?thesis by blast
qed

text \<open>
  C7: what the filter does is a run of the ledger.  Any stream Envoy makes, at any point it
  ends and whatever becomes of its Redis calls, changes the ledger exactly as a sequence of
  reserve, release and unrelated steps does: nothing held after at most one refused reserve,
  or one accepted reserve resolved by exactly one of a capture and a release.
\<close>

theorem stream_refines_the_ledger:
  assumes "stream_laws R" "\<And>p. pays = Some p \<Longrightarrow> c = pm_reserve p"
    and "envoy_messages ms" "sorted (map (ph_ms \<circ> snd) ms @ [ph_ms last_ph])"
    and "\<forall>(m, ph) \<in> set ms. t0 \<le> ph_ms ph" "t0 \<le> ph_ms last_ph"
    and "process C R page pays ms last_ph s = (s', st', rs)"
  shows "\<exists>es. ledger_run C R c t0 s es s' \<and> stream_trace st' (map snd es)"
  using assms by (rule process_trace)

theorem stream_refines_the_ledger_witness:
  "\<exists>hs s' st' rs es. process demo_crypto mem_redis (\<lambda>_. None) (Some demo_payments)
       [(RequestHeaders demo_attrs hs, demo_phase), (ResponseHeaders [('':status'', ''200'', [])], demo_phase)]
       demo_phase empty_mem = (s', st', rs) \<and>
     ledger_run demo_crypto mem_redis demo_cfg 0 empty_mem es s' \<and> stream_trace st' (map snd es)"
proof -
  obtain s' st' rs where p: "process demo_crypto mem_redis (\<lambda>_. None) (Some demo_payments)
       [(RequestHeaders demo_attrs [], demo_phase), (ResponseHeaders [('':status'', ''200'', [])], demo_phase)]
       demo_phase empty_mem = (s', st', rs)"
    by (cases "process demo_crypto mem_redis (\<lambda>_. None) (Some demo_payments)
       [(RequestHeaders demo_attrs [], demo_phase), (ResponseHeaders [('':status'', ''200'', [])], demo_phase)]
       demo_phase empty_mem")
  have "\<exists>es. ledger_run demo_crypto mem_redis demo_cfg 0 empty_mem es s' \<and> stream_trace st' (map snd es)"
    by (rule stream_refines_the_ledger [OF mem_streams _ _ _ _ _ p])
      (simp_all add: envoy_messages_def demo_phase_def demo_payments_def)
  with p show ?thesis by blast
qed

text \<open>
  C10: a capture whose answer is lost pays the reservation back and settles it too.  The
  response was served and the job is in the stream, yet the stream's reservation is
  released as if nothing had been captured, so the settler's release of the same job takes
  the amount off a second time.
\<close>

theorem lost_capture_answer_is_queued_and_released:
  assumes "key_laws R" "stream_laws R" "ph_capture_fault ph = AnswerLost"
    and "200 \<le> atoi (hget h '':status'')" "atoi (hget h '':status'') \<le> 299"
    and "q_rsv st = Some rsv" "q_res st = Some res" "q_entry st = Some e"
    and "response_headers C R ph h st s = (s', st', r, d)"
  shows "d = Some CaptureFailed \<and> q_released st' \<and> queued R s' (settlement_job C ph e res (q_payment st)) \<and>
    (\<exists>s1 ok. ledger_step C R c (ph_ms ph) s Elsewhere s1 \<and>
       ledger_step C R c (ph_ms ph) s1 (Released (ph_release_fault ph) (rv_payer rsv) (rv_amount rsv) ok) s')"
proof (cases rule: response_cases [OF assms(9), case_names Nothing Unserved Lost Captured])
  case (Lost rsv' res' e' s1)
  then have q: "queued R s1 (settlement_job C ph e res (q_payment st))"
    using capture_effect(3) [OF assms(2) Lost(5) assms(3)] assms(7,8) by simp
  then have "queued R s' (settlement_job C ph e res (q_payment st))"
    using queued_cong [OF release_stream_streams [OF assms(1) Lost(6)]] by simp
  moreover have "d = Some CaptureFailed" "q_released st'"
    using Lost(8) release_stream_step(2) [OF Lost(6) assms(6)] by simp_all
  ultimately show ?thesis
    using capture_elsewhere [OF assms(2) Lost(5)] release_stream_step(1) [OF Lost(6) assms(6)] by blast
next
  case (Captured rsv' res' e' i)
  then show ?thesis using capture_effect(3) [OF assms(2) Captured(5) assms(3)] by simp
qed (use assms in \<open>auto simp: serves_def\<close>)

theorem lost_capture_answer_is_queued_and_released_witness:
  "\<exists>rsv res s' st' r d. response_headers demo_crypto mem_redis (demo_phase\<lparr>ph_capture_fault := AnswerLost\<rparr>)
       [('':status'', ''200'')] (new_request\<lparr>q_entry := Some demo_entry, q_res := Some res, q_rsv := Some rsv\<rparr>) empty_mem
       = (s', st', r, d) \<and>
     d = Some CaptureFailed \<and> q_released st' \<and>
     queued mem_redis s' (settlement_job demo_crypto (demo_phase\<lparr>ph_capture_fault := AnswerLost\<rparr>) demo_entry res [])"
proof -
  obtain hdr s0 rsv res m where "request_headers demo_crypto mem_redis (\<lambda>_. None) (Some demo_payments) demo_phase
      demo_attrs [(''payment-signature'', hdr)] new_request empty_mem =
     (s0, new_request\<lparr>q_entry := Some demo_entry, q_res := Some res, q_rsv := Some rsv, q_payment := hdr\<rparr>,
      ContinueRequest (Some m), PaymentAccepted)" by (rule demo_admitted)
  let ?st = "new_request\<lparr>q_entry := Some demo_entry, q_res := Some res, q_rsv := Some rsv\<rparr>"
  let ?ph = "demo_phase\<lparr>ph_capture_fault := AnswerLost\<rparr>"
  obtain s' st' r d where p: "response_headers demo_crypto mem_redis ?ph [('':status'', ''200'')] ?st empty_mem
      = (s', st', r, d)" by (cases "response_headers demo_crypto mem_redis ?ph [('':status'', ''200'')] ?st empty_mem")
  have "d = Some CaptureFailed \<and> q_released st' \<and> queued mem_redis s' (settlement_job demo_crypto ?ph demo_entry res
      (q_payment ?st)) \<and>
    (\<exists>s1 ok. ledger_step demo_crypto mem_redis demo_cfg (ph_ms ?ph) empty_mem Elsewhere s1 \<and>
       ledger_step demo_crypto mem_redis demo_cfg (ph_ms ?ph) s1
         (Released (ph_release_fault ?ph) (rv_payer rsv) (rv_amount rsv) ok) s')"
    by (rule lost_capture_answer_is_queued_and_released [OF mem_keys mem_streams _ _ _ _ _ _ p])
      (simp_all add: hget_def demo_status)
  moreover have "q_payment ?st = []" by (simp add: new_request_def)
  ultimately show ?thesis using p by metis
qed

text \<open>A payment signed for nine times the price, and more than the payer owns\<close>

lemma demo_overpaid:
  obtains hdr pp res where "hdr \<noteq> []" "decode_payment_payload hdr = Inr pp"
    "verify demo_crypto 0 (pe_requirements demo_entry) (sbc_domain (pe_network demo_entry)) pp = Inr res"
    "a_value (v_auth res) = 9000"
proof -
  let ?r = "pe_requirements demo_entry"
  let ?r9 = "?r\<lparr>rq_amount := ''9000''\<rparr>"
  have dm: "sbc_domain (pe_network demo_entry) = wallet_domain demo_wallet"
    by (simp add: sbc_domain_def wallet_domain_def demo_entry_def demo_wallet_def)
  have amt: "parse_uint256 ''9000'' = Inr 9000" by code_simp
  have offer: "payable_offer demo_wallet ?r9" "parse_address (rq_payTo ?r9) = Inr SBCAddress"
    "parse_uint256 (rq_amount ?r9) = Inr 9000" "rq_timeout ?r9 = 60"
    using demo_entry_offer amt by (simp_all add: payable_offer_def transfer_method_def)
  obtain pp where s: "sign demo_crypto demo_wallet ?r9 None 0 0 (Some (replicate 32 1)) = Inr pp"
    by (rule sign_total [OF demo_laws offer(1-3), where n = "replicate 32 1" and res = None and now = 0 and validFor = 0])
      (simp_all add: offer demo_window max_uint256_def unix_def)
  have nine: "length (int_str x) \<le> 80" if "Inr 9000 = (Inr x :: (evm_error, int) result)" for x
    using that by (simp add: int_str_def nat_str.simps)
  have window: "length (int_str 60) \<le> 80" by (simp add: int_str_def nat_str.simps)
  have ne: "rq_scheme ?r \<noteq> []" "rq_network ?r \<noteq> []"
    by (simp_all add: demo_entry_def exact_requirements_def SchemeExact_def network_testnet)
  let ?pp = "pp\<lparr>pp_accepted := ?r\<rparr>"
  have d: "decode_payment_payload (encode_payment_payload ?pp) = Inr ?pp"
    by (rule signed_header_decodes_echo [OF demo_laws s _ demo_entry_size])
      (simp_all only: offer demo_window add_0, simp_all add: window nine ne)
  have u: "unix 0 = 0" by (simp add: unix_def)
  obtain res where v: "verify demo_crypto 0 ?r9 (wallet_domain demo_wallet) pp = Inr res"
    "parse_uint256 (rq_amount ?r9) = Inr (a_value (v_auth res))"
    "parse_address (rq_payTo ?r9) = Inr (a_to (v_auth res))"
  proof (rule sign_verifies [OF demo_laws s, where t = 0])
    show "hd (sign_compact demo_crypto (wa_key demo_wallet) h) \<in> {27, 28}" for h by (rule demo_sign)
    show "unix 0 < unix (0 + sign_window (rq_timeout ?r9) 0)" "0 \<le> unix 0"
      "is_int64 (unix (0 + sign_window (rq_timeout ?r9) 0))" "unix (0 + sign_window (rq_timeout ?r9) 0) \<le> accept_limit 0 ?r9"
      unfolding offer add_0 demo_window accept_limit_def u
      by (simp_all add: skew_allowance_def i64_id is_int64_def)
  qed simp_all
  have v9: "a_value (v_auth res) = 9000" "a_to (v_auth res) = SBCAddress" using v(2,3) offer(2,3) by simp_all
  have "verify demo_crypto 0 ?r (wallet_domain demo_wallet) ?pp = Inr res"
    using v(1) v9 demo_entry_offer unfolding verify_Inr_iff
    by (auto simp: payable_route_def echo_matches_def eip3009_of_def terms_met_def accept_limit_def
        payable_offer_def demo_entry_def)
  with d v9(1) dm show thesis
    by (intro that [of "encode_payment_payload ?pp" ?pp res]) (auto simp: decode_payment_payload_def decode_header_def
        trim_space_def trim_left_def trim_right_def bind_r_eq_Inr)
qed

text \<open>
  C20: an authorization above the payer's balance is admitted.  The price is a floor for the
  signed value, but the balance check and the reservation count the price: a payer of 5000
  who signs 9000 for a route of 1000 is served with 1000 in flight, and the transfer of
  9000 that settles it cannot succeed.
\<close>

theorem overpaying_authorization_is_admitted:
  "\<exists>hdr s' st' m res rsv. request_headers demo_crypto mem_redis (\<lambda>_. None) (Some demo_payments) demo_phase demo_attrs
       [(''payment-signature'', hdr)] new_request empty_mem = (s', st', ContinueRequest (Some m), PaymentAccepted) \<and>
     ph_arrival demo_phase = Some (Inr 5000) \<and> q_res st' = Some res \<and> a_value (v_auth res) = 9000 \<and>
     q_rsv st' = Some rsv \<and> rv_amount rsv = 1000"
proof (rule demo_overpaid)
  fix hdr pp res
  assume h: "hdr \<noteq> []" "decode_payment_payload hdr = Inr pp"
    "verify demo_crypto 0 (pe_requirements demo_entry) (sbc_domain (pe_network demo_entry)) pp = Inr res"
    and nine: "a_value (v_auth res) = 9000"
  obtain s' rsv m where "request_headers demo_crypto mem_redis (\<lambda>_. None) (Some demo_payments) demo_phase demo_attrs
       [(''payment-signature'', hdr)] new_request empty_mem =
     (s', new_request\<lparr>q_entry := Some demo_entry, q_res := Some res, q_rsv := Some rsv, q_payment := hdr\<rparr>,
      ContinueRequest (Some m), PaymentAccepted)" "rv_amount rsv = 1000"
    by (rule demo_admits [OF h])
  moreover have "ph_arrival demo_phase = Some (Inr 5000)" by (simp add: demo_phase_def)
  moreover have "q_res (new_request\<lparr>q_entry := Some demo_entry, q_res := Some res, q_rsv := Some rsv, q_payment := hdr\<rparr>)
      = Some res" "q_rsv (new_request\<lparr>q_entry := Some demo_entry, q_res := Some res, q_rsv := Some rsv,
      q_payment := hdr\<rparr>) = Some rsv" for rsv by simp_all
  ultimately show ?thesis using nine by blast
qed

end
