(* ===== verification/Controller.thy ===== *)
theory Controller
  imports Pricing X402_Codec
begin

text \<open>
  The PaymentPolicy controller (\<open>internal/controller/project.go\<close>, \<open>reconciler.go\<close>, with the
  policy type of \<open>api/v1alpha1/paymentpolicy_types.go\<close>): the projection of policies into the
  price table, the objects it writes, and the reconcile of one policy.  The API server and the
  controller-runtime helpers are a \<open>cluster\<close> record: what it answers to each read and to each
  write.  A reconcile returns the writes it made, in order, and its error or result.
\<close>

section \<open>Policies and the price table\<close>

record condition =
  cd_type :: string
  cd_status :: string
  cd_reason :: string
  cd_message :: string
  cd_generation :: int
  cd_transition :: string

record ancestor =
  an_group :: string
  an_kind :: string
  an_namespace :: string
  an_name :: string
  an_controller :: string
  an_conditions :: "condition list"

record policy =
  pl_namespace :: string
  pl_name :: string
  pl_generation :: int
  pl_target :: string
  pl_network :: string
  pl_price :: string
  pl_payTo :: string
  pl_method :: string
  pl_timeout :: int
  pl_failure :: string
  pl_capture :: string
  pl_description :: string
  pl_mimeType :: string
  pl_help :: "help_override option"
  pl_ancestors :: "ancestor list"

definition ControllerName :: string where "ControllerName = ''x402.dev/payment-policy-controller''"
definition fieldManager :: string where "fieldManager = ''x402-controller''"
definition ReasonAccepted :: string where "ReasonAccepted = ''Accepted''"
definition ReasonInvalid :: string where "ReasonInvalid = ''Invalid''"
definition ReasonTargetNotFound :: string where "ReasonTargetNotFound = ''TargetNotFound''"
definition ReasonConflicted :: string where "ReasonConflicted = ''Conflicted''"

definition policy_key :: "policy \<Rightarrow> string" where
  "policy_key pp = ''httproute/'' @ pl_namespace pp @ ''/'' @ pl_target pp"

definition eep_name :: "policy \<Rightarrow> string" where
  "eep_name pp = ''x402-'' @ pl_name pp"

definition route_of :: "policy \<Rightarrow> (radius_error, route) result" where
  "route_of pp =
     bind_r (lookup (pl_network pp)) (\<lambda>p.
       Inr \<lparr>r_network = network p, r_price = pl_price pp, r_asset = SBC, r_payTo = pl_payTo pp,
            r_method = pl_method pp, r_timeout = pl_timeout pp, r_failure = pl_failure pp,
            r_capture = pl_capture pp, r_description = pl_description pp, r_mimeType = pl_mimeType pp,
            r_help =
              (case pl_help pp of
                 None \<Rightarrow> None
               | Some h \<Rightarrow> if h_docsURL h \<noteq> [] \<or> h_message h \<noteq> [] then Some h else None)\<rparr>)"

text \<open>\<open>json.Marshal\<close> of the table: a map's keys in order, the \<open>omitempty\<close> fields left out.\<close>

definition enc_help :: "help_override \<Rightarrow> json" where
  "enc_help h = JObj (omit_empty ''docsURL'' (h_docsURL h) @ omit_empty ''message'' (h_message h))"

definition enc_route :: "route \<Rightarrow> json" where
  "enc_route r =
     JObj ([(''network'', JStr (r_network r)), (''price'', JStr (r_price r)), (''asset'', JStr (r_asset r)),
            (''payTo'', JStr (r_payTo r)), (''assetTransferMethod'', JStr (r_method r)),
            (''maxTimeoutSeconds'', jint (r_timeout r)), (''failureMode'', JStr (r_failure r)),
            (''captureMode'', JStr (r_capture r))]
           @ omit_empty ''description'' (r_description r) @ omit_empty ''mimeType'' (r_mimeType r)
           @ (case r_help r of None \<Rightarrow> [] | Some h \<Rightarrow> [(''help'', enc_help h)]))"

definition enc_table :: "(string \<times> route) list \<Rightarrow> json" where
  "enc_table routes =
     JObj [(''schemaVersion'', jint table_schema_version),
           (''routes'', JObj (map (\<lambda>(k, r). (k, enc_route r)) (sorted_routes routes)))]"

definition table_json ::
  "('pk, 'sk) crypto \<Rightarrow> (string \<Rightarrow> string option) \<Rightarrow> profile list \<Rightarrow> (string \<times> route) list
     \<Rightarrow> (table_error, string) result" where
  "table_json C ip nets routes =
     (let text = print_indent 0 (enc_table routes)
      in bind_r (parse_table C ip nets text) (\<lambda>_. Inr (text @ [CHR 0x0A])))"

datatype policy_error = PolicyNetwork radius_error | PolicyTable table_error

definition validate_policy ::
  "('pk, 'sk) crypto \<Rightarrow> (string \<Rightarrow> string option) \<Rightarrow> profile list \<Rightarrow> policy \<Rightarrow> (policy_error, unit) result" where
  "validate_policy C ip nets pp =
     bind_r (map_err PolicyNetwork (route_of pp)) (\<lambda>r.
     bind_r (map_err PolicyTable (table_json C ip nets [(policy_key pp, r)])) (\<lambda>_. Inr ()))"

section \<open>The objects it writes\<close>

record backend =
  bk_namespace :: string
  bk_name :: string
  bk_port :: int

definition desired_eep :: "policy \<Rightarrow> backend \<Rightarrow> json" where
  "desired_eep pp filter_svc =
     JObj
       [(''apiVersion'', JStr ''gateway.envoyproxy.io/v1alpha1''), (''kind'', JStr ''EnvoyExtensionPolicy''),
        (''metadata'', JObj
          [(''name'', JStr (eep_name pp)), (''namespace'', JStr (pl_namespace pp)),
           (''labels'', JObj [(''app.kubernetes.io/managed-by'', JStr fieldManager),
                              (''x402.dev/policy'', JStr (pl_name pp))])]),
        (''spec'', JObj
          [(''targetRefs'', JArr [JObj [(''group'', JStr ''gateway.networking.k8s.io''),
              (''kind'', JStr ''HTTPRoute''), (''name'', JStr (pl_target pp))]]),
           (''extProc'', JArr [JObj
              [(''backendRefs'', JArr [JObj [(''name'', JStr (bk_name filter_svc)),
                  (''namespace'', JStr (bk_namespace filter_svc)), (''port'', jint (bk_port filter_svc))]]),
               (''processingMode'', JObj
                  [(''request'', JObj [(''attributes'', JArr [JStr ''xds.route_name''])]),
                   (''response'', JObj [])]),
               (''failOpen'', JBool False), (''messageTimeout'', JStr ''300ms''),
               (''statusOnError'', jint 503)]])])]"

definition desired_grant :: "backend \<Rightarrow> string \<Rightarrow> string list \<Rightarrow> json" where
  "desired_grant filter_svc nm namespaces =
     JObj
       [(''apiVersion'', JStr ''gateway.networking.k8s.io/v1beta1''), (''kind'', JStr ''ReferenceGrant''),
        (''metadata'', JObj [(''name'', JStr nm), (''namespace'', JStr (bk_namespace filter_svc))]),
        (''spec'', JObj
          [(''from'', JArr (map (\<lambda>ns. JObj [(''group'', JStr ''gateway.envoyproxy.io''),
              (''kind'', JStr ''EnvoyExtensionPolicy''), (''namespace'', JStr ns)]) (sort namespaces))),
           (''to'', JArr [JObj [(''group'', JStr []), (''kind'', JStr ''Service''),
              (''name'', JStr (bk_name filter_svc))]])])]"

definition desired_configmap :: "string \<Rightarrow> string \<Rightarrow> string \<Rightarrow> json" where
  "desired_configmap namespace nm text =
     JObj
       [(''apiVersion'', JStr ''v1''), (''kind'', JStr ''ConfigMap''),
        (''metadata'', JObj [(''name'', JStr nm), (''namespace'', JStr namespace)]),
        (''data'', JObj [(ConfigMapKey, JStr text)])]"

text \<open>\<open>unstructured.NestedSlice\<close>: empty when a step is not an object or the end is not an array\<close>

fun nested :: "json \<Rightarrow> string list \<Rightarrow> json option" where
  "nested j [] = Some j"
| "nested (JObj ms) (k # ks) = (case map_of ms k of None \<Rightarrow> None | Some v \<Rightarrow> nested v ks)"
| "nested _ (k # ks) = None"

definition nested_slice :: "json \<Rightarrow> string list \<Rightarrow> json list" where
  "nested_slice j ks = (case nested j ks of Some (JArr xs) \<Rightarrow> xs | _ \<Rightarrow> [])"

definition str_field :: "json \<Rightarrow> string \<Rightarrow> string" where
  "str_field j k = (case nested j [k] of Some (JStr s) \<Rightarrow> s | _ \<Rightarrow> [])"

definition eep_accepted :: "json \<Rightarrow> (string \<times> string \<times> string) option" where
  "eep_accepted u =
     map_option (\<lambda>c. (str_field c ''status'', str_field c ''reason'', str_field c ''message''))
       (find (\<lambda>c. nested c [''type''] = Some (JStr ''Accepted''))
          (concat (map (\<lambda>a. nested_slice a [''conditions'']) (nested_slice u [''status'', ''ancestors'']))))"

definition describe :: "policy \<Rightarrow> string" where
  "describe pp =
     policy_key pp @ '' priced at '' @ pl_price pp @ '' atomic units on '' @ pl_network pp @ '', paid to '' @ pl_payTo pp"


section \<open>What the API server admits\<close>

text \<open>
  The schema of \<open>PaymentPolicySpec\<close>, \<open>TargetRef\<close> and \<open>Help\<close>: the patterns, enums and
  bounds of the kubebuilder markers.  A \<open>maxLength\<close> counts characters; the two
  patterns that bound a length bound it in ASCII.
\<close>

definition hex_char :: "char \<Rightarrow> bool" where
  "hex_char c \<longleftrightarrow> c \<in> set ''0123456789abcdefABCDEF''"

text \<open>\<open>maxLength\<close>, which counts characters, not bytes\<close>

definition max_chars :: "nat \<Rightarrow> string \<Rightarrow> bool" where
  "max_chars n s \<longleftrightarrow> (case rune_count s of None \<Rightarrow> False | Some m \<Rightarrow> m \<le> n)"

definition schema_help :: "help_override \<Rightarrow> bool" where
  "schema_help h \<longleftrightarrow>
     (h_docsURL h = [] \<or>
        take 8 (h_docsURL h) = ''https://'' \<and> length (h_docsURL h) > 8 \<and>
        list_all (\<lambda>c. c \<notin> {CHR 0x09, CHR 0x0A, CHR 0x0C, CHR 0x0D, CHR 0x20}) (drop 8 (h_docsURL h)) \<and>
        max_chars 512 (h_docsURL h)) \<and>
     list_all (\<lambda>c. 32 \<le> code c \<and> code c \<le> 126) (h_message h) \<and> max_chars 200 (h_message h)"

definition schema_ok :: "policy \<Rightarrow> bool" where
  "schema_ok pp \<longleftrightarrow>
     1 \<le> length (pl_target pp) \<and> max_chars 253 (pl_target pp) \<and>
     pl_network pp = ''testnet'' \<and>
     pl_price pp \<noteq> [] \<and> list_all is_digit (pl_price pp) \<and> max_chars 15 (pl_price pp) \<and>
     take 2 (pl_payTo pp) = ''0x'' \<and> length (pl_payTo pp) = 42 \<and> list_all hex_char (drop 2 (pl_payTo pp)) \<and>
     pl_method pp = ''eip3009'' \<and> 30 \<le> pl_timeout pp \<and> pl_timeout pp \<le> 600 \<and>
     pl_failure pp = ''Closed'' \<and> pl_capture pp = ''Async'' \<and>
     max_chars 256 (pl_description pp) \<and> max_chars 128 (pl_mimeType pp) \<and>
     (case pl_help pp of None \<Rightarrow> True | Some h \<Rightarrow> schema_help h)"

section \<open>The reconciler\<close>

record controller =
  ct_filter :: backend
  ct_prices_namespace :: string
  ct_prices_name :: string
  ct_grant_name :: string
  ct_networks :: "profile list"

datatype k8s_write =
    Apply json
  | DeleteEEP string string
  | DeleteGrant json
  | UpdateStatus policy

datatype 'a lookup = Found 'a | NotFound | Failed

datatype answer = Done | Gone | Refused

text \<open>
  The cluster the reconciler runs against.  Each read and each write is answered as a
  function of the writes made before it; \<open>cl_own\<close>, \<open>cl_controlled\<close> and \<open>cl_set_condition\<close>
  are \<open>SetControllerReference\<close>, \<open>IsControlledBy\<close> and \<open>SetStatusCondition\<close> of the client
  libraries, \<open>cl_error_text\<close> the text of a validation error.
\<close>

record cluster =
  cl_policy :: "string \<Rightarrow> string \<Rightarrow> policy lookup"
  cl_policies :: "k8s_write list \<Rightarrow> policy list option"
  cl_indexed :: "string \<Rightarrow> string \<Rightarrow> policy list option"
  cl_route :: "k8s_write list \<Rightarrow> string \<Rightarrow> string \<Rightarrow> unit lookup"
  cl_eep :: "k8s_write list \<Rightarrow> string \<Rightarrow> string \<Rightarrow> json lookup"
  cl_write :: "k8s_write list \<Rightarrow> k8s_write \<Rightarrow> answer"
  cl_own :: "policy \<Rightarrow> json \<Rightarrow> json option"
  cl_controlled :: "json \<Rightarrow> policy \<Rightarrow> bool"
  cl_set_condition :: "condition list \<Rightarrow> condition \<Rightarrow> condition list \<times> bool"
  cl_error_text :: "policy_error \<Rightarrow> string"

datatype control_error =
    ReadFailed
  | OwnerRefused
  | WriteFailed k8s_write
  | TableRefused table_error

type_synonym 'a action = "k8s_write list \<Rightarrow> k8s_write list \<times> (control_error, 'a) result"

definition done_with :: "'a \<Rightarrow> 'a action" where
  "done_with x ws = (ws, Inr x)"

definition fail_with :: "control_error \<Rightarrow> 'a action" where
  "fail_with e ws = (ws, Inl e)"

definition and_then :: "'a action \<Rightarrow> ('a \<Rightarrow> 'b action) \<Rightarrow> 'b action" where
  "and_then f g ws = (case f ws of (ws', Inl e) \<Rightarrow> (ws', Inl e) | (ws', Inr x) \<Rightarrow> g x ws')"

text \<open>A write that must succeed, and a delete that may find nothing (\<open>IgnoreNotFound\<close>)\<close>

definition do_write :: "cluster \<Rightarrow> k8s_write \<Rightarrow> unit action" where
  "do_write K w ws = (ws @ [w], if cl_write K ws w = Done then Inr () else Inl (WriteFailed w))"

definition do_delete :: "cluster \<Rightarrow> k8s_write \<Rightarrow> unit action" where
  "do_delete K w ws = (ws @ [w], if cl_write K ws w = Refused then Inl (WriteFailed w) else Inr ())"

definition remove_eep :: "cluster \<Rightarrow> policy \<Rightarrow> unit action" where
  "remove_eep K pp ws =
     (case cl_eep K ws (pl_namespace pp) (eep_name pp) of
        NotFound \<Rightarrow> done_with () ws
      | Failed \<Rightarrow> fail_with ReadFailed ws
      | Found eep \<Rightarrow>
          if \<not> cl_controlled K eep pp then done_with () ws
          else do_delete K (DeleteEEP (pl_namespace pp) (eep_name pp)) ws)"

definition accepted :: "string \<Rightarrow> string \<Rightarrow> string \<Rightarrow> condition" where
  "accepted status reason msg =
     \<lparr>cd_type = ''Accepted'', cd_status = status, cd_reason = reason, cd_message = msg,
      cd_generation = 0, cd_transition = []\<rparr>"

text \<open>What the policy's condition says of the object Envoy Gateway reports on\<close>

definition mirror_eep :: "policy \<Rightarrow> json \<Rightarrow> condition" where
  "mirror_eep pp eep =
     (case eep_accepted eep of
        Some (status, reason, msg) \<Rightarrow>
          if status \<noteq> ''True''
          then accepted ''False'' (if reason = ReasonConflicted then ReasonConflicted else ReasonInvalid)
                 (''EnvoyExtensionPolicy '' @ eep_name pp @ '': '' @ msg)
          else accepted ''True'' ReasonAccepted (describe pp)
      | None \<Rightarrow> accepted ''True'' ReasonAccepted (describe pp))"

definition reconcile_policy ::
  "('pk, 'sk) crypto \<Rightarrow> (string \<Rightarrow> string option) \<Rightarrow> controller \<Rightarrow> cluster \<Rightarrow> policy \<Rightarrow> condition action" where
  "reconcile_policy C ip ct K pp ws =
     (case validate_policy C ip (ct_networks ct) pp of
        Inl e \<Rightarrow>
          and_then (remove_eep K pp)
            (\<lambda>_. done_with (accepted ''False'' ReasonInvalid (cl_error_text K e))) ws
      | Inr _ \<Rightarrow>
          (case cl_route K ws (pl_namespace pp) (pl_target pp) of
             Failed \<Rightarrow> fail_with ReadFailed ws
           | NotFound \<Rightarrow>
               and_then (remove_eep K pp)
                 (\<lambda>_. done_with (accepted ''False'' ReasonTargetNotFound
                   (''HTTPRoute '' @ pl_namespace pp @ ''/'' @ pl_target pp @ '' not found''))) ws
           | Found _ \<Rightarrow>
               (case cl_own K pp (desired_eep pp (ct_filter ct)) of
                  None \<Rightarrow> fail_with OwnerRefused ws
                | Some eep \<Rightarrow>
                    and_then (do_write K (Apply eep))
                      (\<lambda>_ ws. case cl_eep K ws (pl_namespace pp) (eep_name pp) of
                         Found u \<Rightarrow> done_with (mirror_eep pp u) ws
                       | _ \<Rightarrow> fail_with ReadFailed ws) ws)))"

definition set_accepted :: "cluster \<Rightarrow> policy \<Rightarrow> condition \<Rightarrow> unit action" where
  "set_accepted K pp cond ws =
     (let cond = cond\<lparr>cd_generation := pl_generation pp\<rparr>;
          mine = (case pl_ancestors pp of [a] \<Rightarrow> an_controller a = ControllerName | _ \<Rightarrow> False);
          have = (if mine then an_conditions (hd (pl_ancestors pp)) else []);
          (conds, changed) = cl_set_condition K have cond;
          want = \<lparr>an_group = ''gateway.networking.k8s.io'', an_kind = ''HTTPRoute'',
                  an_namespace = pl_namespace pp, an_name = pl_target pp,
                  an_controller = ControllerName, an_conditions = conds\<rparr>
      in if \<not> changed \<and> mine then done_with () ws
         else do_write K (UpdateStatus (pp\<lparr>pl_ancestors := [want]\<rparr>)) ws)"

text \<open>The loop of \<open>project\<close>: the routes, the last of a key stays, and their namespaces\<close>

fun collect_policies ::
  "('pk, 'sk) crypto \<Rightarrow> (string \<Rightarrow> string option) \<Rightarrow> profile list \<Rightarrow> (string \<Rightarrow> string \<Rightarrow> unit lookup)
     \<Rightarrow> policy list \<Rightarrow> (string \<times> route) list \<times> string list
     \<Rightarrow> (control_error, (string \<times> route) list \<times> string list) result" where
  "collect_policies C ip nets find_route [] acc = Inr acc"
| "collect_policies C ip nets find_route (pp # pps) acc =
     (case route_of pp of
        Inl _ \<Rightarrow> collect_policies C ip nets find_route pps acc
      | Inr r \<Rightarrow>
          if \<not> is_ok (validate_policy C ip nets pp) then collect_policies C ip nets find_route pps acc
          else (case find_route (pl_namespace pp) (pl_target pp) of
                  NotFound \<Rightarrow> collect_policies C ip nets find_route pps acc
                | Failed \<Rightarrow> Inl ReadFailed
                | Found _ \<Rightarrow>
                    collect_policies C ip nets find_route pps
                      (AList.update (policy_key pp) r (fst acc), List.insert (pl_namespace pp) (snd acc))))"

definition project ::
  "('pk, 'sk) crypto \<Rightarrow> (string \<Rightarrow> string option) \<Rightarrow> controller \<Rightarrow> cluster \<Rightarrow> unit action" where
  "project C ip ct K ws =
     (case cl_policies K ws of
        None \<Rightarrow> fail_with ReadFailed ws
      | Some pps \<Rightarrow>
          (case collect_policies C ip (ct_networks ct) (cl_route K ws) pps ([], []) of
             Inl e \<Rightarrow> fail_with e ws
           | Inr (routes, namespaces) \<Rightarrow>
               (case table_json C ip (ct_networks ct) routes of
                  Inl e \<Rightarrow> fail_with (TableRefused e) ws
                | Inr text \<Rightarrow>
                    and_then (do_write K (Apply (desired_configmap (ct_prices_namespace ct) (ct_prices_name ct) text)))
                      (\<lambda>_. let grant = desired_grant (ct_filter ct) (ct_grant_name ct) namespaces
                        in if namespaces = [] then do_delete K (DeleteGrant grant)
                           else do_write K (Apply grant)) ws)))"

definition reconcile ::
  "('pk, 'sk) crypto \<Rightarrow> (string \<Rightarrow> string option) \<Rightarrow> controller \<Rightarrow> cluster \<Rightarrow> string \<Rightarrow> string \<Rightarrow> unit action" where
  "reconcile C ip ct K ns nm =
     (case cl_policy K ns nm of
        NotFound \<Rightarrow> project C ip ct K
      | Failed \<Rightarrow> fail_with ReadFailed
      | Found pp \<Rightarrow>
          and_then (reconcile_policy C ip ct K pp) (\<lambda>cond.
          and_then (set_accepted K pp cond) (\<lambda>_.
          project C ip ct K)))"

text \<open>A route event re-queues the policies that target it; a failed list re-queues none.\<close>

definition policies_for_route :: "cluster \<Rightarrow> string \<Rightarrow> string \<Rightarrow> (string \<times> string) list" where
  "policies_for_route K ns nm =
     (case cl_indexed K ns nm of
        None \<Rightarrow> []
      | Some pps \<Rightarrow> map (\<lambda>pp. (pl_namespace pp, pl_name pp)) pps)"

section \<open>Lemmas: the table round trip\<close>

definition utf8_route :: "route \<Rightarrow> bool" where
  "utf8_route r \<longleftrightarrow>
     utf8_text (r_network r) \<and> utf8_text (r_price r) \<and> utf8_text (r_asset r) \<and> utf8_text (r_payTo r) \<and>
     utf8_text (r_method r) \<and> is_int64 (r_timeout r) \<and> utf8_text (r_failure r) \<and> utf8_text (r_capture r) \<and>
     utf8_text (r_description r) \<and> utf8_text (r_mimeType r) \<and>
     (case r_help r of None \<Rightarrow> True | Some h \<Rightarrow> utf8_text (h_docsURL h) \<and> utf8_text (h_message h))"

lemma dec_strict_append [codec_simps]:
  "dec_fields_strict names setf cur (xs @ ys) =
     (case dec_fields_strict names setf cur xs of None \<Rightarrow> None | Some c \<Rightarrow> dec_fields_strict names setf c ys)"
  by (induction names setf cur xs rule: dec_fields_strict.induct) (auto split: option.splits)

lemma dec_strict_omit_empty [codec_simps]:
  "k \<in> set names \<Longrightarrow>
     dec_fields_strict names setf cur (omit_empty k s) = (if s = [] then Some cur else setf k (JStr s) cur)"
  by (simp add: omit_empty_def field_of_def split: option.splits)

lemma dec_enc_help: "dec_strict help_names set_help zero_help (enc_help h) = Some h"
  by (simp add: enc_help_def help_names_def codec_simps set_help_def zero_help_def)

lemma dec_ptr_enc_help: "dec_ptr (dec_strict help_names set_help) zero_help None (enc_help h) = Some (Some h)"
proof -
  obtain ms where "enc_help h = JObj ms" by (simp add: enc_help_def)
  with dec_enc_help [of h] show ?thesis by simp
qed

lemma dec_enc_route:
  "utf8_route r \<Longrightarrow> dec_route zero_route (enc_route r) = Some r"
  by (cases r; cases "r_help r")
    (simp_all add: utf8_route_def dec_route_def enc_route_def route_names_def codec_simps set_route_def
      zero_route_def dec_ptr_enc_help split: option.splits)

lemma wf_enc_route: "utf8_route r \<Longrightarrow> wf_json (enc_route r)"
  by (auto simp: utf8_route_def enc_route_def enc_help_def omit_empty_def ascii_code split: option.splits)

lemma raw_enc_route: "exact_route (enc_route r)"
  by (auto simp: exact_route_def enc_route_def enc_help_def omit_empty_def keys_of_def last_of_def
      route_names_def help_names_def split: option.splits)

lemma update_new: "k \<notin> fst ` set xs \<Longrightarrow> AList.update k v xs = xs @ [(k, v)]"
  by (induction xs) auto

lemma dec_members_enc:
  assumes "\<forall>(k, r) \<in> set rs. utf8_route r" "distinct (map fst cur @ map fst rs)"
  shows "dec_members cur (map (\<lambda>(k, r). (k, enc_route r)) rs) = Some (cur @ rs)"
  using assms
proof (induction rs arbitrary: cur)
  case (Cons a rs)
  obtain k r where a: "a = (k, r)" by fastforce
  with Cons.prems have "AList.update k r cur = cur @ [(k, r)]" by (intro update_new) auto
  moreover have "dec_members (cur @ [(k, r)]) (map (\<lambda>(k, r). (k, enc_route r)) rs) = Some ((cur @ [(k, r)]) @ rs)"
    using Cons.prems a by (intro Cons.IH) auto
  ultimately show ?case using Cons.prems a by (simp add: dec_enc_route)
qed simp


definition utf8_routes :: "(string \<times> route) list \<Rightarrow> bool" where
  "utf8_routes rs \<longleftrightarrow> distinct (map fst rs) \<and> (\<forall>(k, r) \<in> set rs. utf8_text k \<and> utf8_route r)"

lemma sorted_routes_set:
  assumes "distinct (map fst rs)"
  shows "set (sorted_routes rs) = set rs" "distinct (map fst (sorted_routes rs))"
proof -
  have "the (map_of rs k) = r" if "(k, r) \<in> set rs" for k r
    using assms that by simp
  then show "set (sorted_routes rs) = set rs"
    by (force simp: sorted_routes_def)
  show "distinct (map fst (sorted_routes rs))"
    using assms by (simp add: sorted_routes_def comp_def)
qed

lemma sorted_routes_idem: "distinct (map fst rs) \<Longrightarrow> sorted_routes (sorted_routes rs) = sorted_routes rs"
proof -
  have "map fst (sorted_routes rs) = sort (map fst rs)" by (simp add: sorted_routes_def comp_def)
  moreover have "map_of (sorted_routes rs) = map_of rs" by (rule ext) (rule map_of_sorted_routes)
  ultimately show ?thesis by (simp only: sorted_routes_def [of "sorted_routes rs"]) (simp add: sorted_routes_def sorted_sort_id)
qed

lemma utf8_sorted: "utf8_routes rs \<Longrightarrow> utf8_routes (sorted_routes rs)"
  by (simp add: utf8_routes_def sorted_routes_set)

lemma dec_enc_table:
  assumes "utf8_routes rs"
  shows "dec_table (enc_table rs) = Some \<lparr>t_schema = table_schema_version, t_routes = sorted_routes rs\<rparr>"
proof -
  let ?rs = "sorted_routes rs"
  have "dec_members [] (map (\<lambda>(k, r). (k, enc_route r)) ?rs) = Some ([] @ ?rs)"
    using utf8_sorted [OF assms] by (intro dec_members_enc) (auto simp: utf8_routes_def)
  then show ?thesis
    by (simp add: dec_table_def enc_table_def table_names_def codec_simps set_table_def
        table_schema_version_def is_int64_def)
qed

lemma exact_enc_table: "exact_keys (enc_table rs)"
proof -
  let ?ms = "map (\<lambda>(k, r). (k, enc_route r)) (sorted_routes rs)"
  have e: "last_of ?ms k = Some r \<Longrightarrow> exact_route r" for k r
    by (auto simp: last_of_def raw_enc_route dest!: map_of_SomeD)
  then have "list_all (\<lambda>k. case last_of ?ms k of None \<Rightarrow> True | Some r \<Rightarrow> exact_route r) (map fst ?ms)"
    by (auto simp: list_all_iff split: option.splits)
  then show ?thesis
    by (simp add: exact_keys_def enc_table_def keys_of_def table_names_def last_of_def)
qed

lemma wf_enc_table: "utf8_routes rs \<Longrightarrow> wf_json (enc_table rs)"
  using utf8_sorted [of rs]
  by (auto simp: enc_table_def utf8_routes_def wf_enc_route ascii_code)

interpretation table_codec: json_codec enc_table dec_table
  "\<lambda>rs. \<lparr>t_schema = table_schema_version, t_routes = sorted_routes rs\<rparr>" utf8_routes
  by unfold_locales (simp_all add: wf_enc_table dec_enc_table)

lemma parse_enc_table:
  assumes "utf8_routes rs" "stops r" "skip_ws r = []"
  shows "parse_table C ip nets (print_indent 0 (enc_table rs) @ r) =
    check_table C ip nets \<lparr>t_schema = table_schema_version, t_routes = sorted_routes rs\<rparr>"
  using table_codec.parse_indented [OF assms, of 0] table_codec.dec_enc [OF assms(1)]
  by (simp add: parse_table_def exact_enc_table)

text \<open>The table of valid routes is accepted, and read back it prices exactly those routes.\<close>

lemma table_json_valid:
  assumes rs: "utf8_routes rs" and ok: "\<forall>(k, r) \<in> set rs. is_ok (validate C ip k r nets)"
  obtains tx ps where "table_json C ip nets rs = Inr tx" "parse_table C ip nets tx = Inr ps"
    "\<And>k. price_lookup (Some ps) k =
       Option.bind (map_of rs k) (\<lambda>r. case validate C ip k r nets of Inl _ \<Rightarrow> None | Inr e \<Rightarrow> Some e)"
proof -
  let ?t = "\<lparr>t_schema = table_schema_version, t_routes = sorted_routes rs\<rparr>"
  have d: "distinct (map fst rs)" using rs by (simp add: utf8_routes_def)
  then have "fst (validate_all C ip nets (sorted_routes rs)) = []"
    using ok by (simp add: validate_all_split sorted_routes_set)
  then have ps: "check_table C ip nets ?t = Inr (snd (validate_all C ip nets (sorted_routes rs)))"
    by (auto simp: check_table_def sorted_routes_idem [OF d] split: prod.splits)
  define ps where "ps = snd (validate_all C ip nets (sorted_routes rs))"
  note ps = ps [folded ps_def]
  have s: "stops [CHR 0x0A]" "skip_ws [CHR 0x0A] = []" "stops []" "skip_ws [] = []"
    by (simp_all add: stops_def is_ws_def num_char_def is_digit_def)
  have "parse_table C ip nets (print_indent 0 (enc_table rs)) = Inr ps"
    using parse_enc_table [OF rs s(3,4), of C ip nets] ps by simp
  moreover have "parse_table C ip nets (print_indent 0 (enc_table rs) @ [CHR 0x0A]) = Inr ps"
    using parse_enc_table [OF rs s(1,2), of C ip nets] ps by simp
  moreover have "price_lookup (Some ps) k =
       Option.bind (map_of rs k) (\<lambda>r. case validate C ip k r nets of Inl _ \<Rightarrow> None | Inr e \<Rightarrow> Some e)" for k
    using check_table_Inr(2) [OF ps, of k] by (simp add: price_lookup_def map_of_sorted_routes)
  ultimately show thesis
    by (intro that [of "print_indent 0 (enc_table rs) @ [CHR 0x0A]" ps]) (simp_all add: table_json_def)
qed

lemma table_json_Inr:
  assumes "utf8_routes rs" "table_json C ip nets rs = Inr text" "(k, r) \<in> set rs"
  shows "is_ok (validate C ip k r nets)"
proof -
  let ?t = "\<lparr>t_schema = table_schema_version, t_routes = sorted_routes rs\<rparr>"
  have s: "stops []" "skip_ws [] = []" by (simp_all add: stops_def)
  obtain ps where "parse_table C ip nets (print_indent 0 (enc_table rs)) = Inr ps"
    using assms(2) by (auto simp: table_json_def bind_r_eq_Inr Let_def)
  then have "check_table C ip nets ?t = Inr ps"
    using parse_enc_table [OF assms(1) s, of C ip nets] by simp
  moreover have "map_of (t_routes ?t) k = Some r"
    using assms(1,3) by (simp add: map_of_sorted_routes utf8_routes_def)
  ultimately show ?thesis by (rule check_table_Inr(3))
qed

text \<open>One policy: validating it is validating its route as the filter would.\<close>

definition utf8_policy :: "policy \<Rightarrow> bool" where
  "utf8_policy pp \<longleftrightarrow>
     utf8_text (pl_namespace pp) \<and> utf8_text (pl_target pp) \<and> utf8_text (pl_price pp) \<and> utf8_text (pl_payTo pp) \<and>
     utf8_text (pl_method pp) \<and> is_int64 (pl_timeout pp) \<and> utf8_text (pl_failure pp) \<and> utf8_text (pl_capture pp) \<and>
     utf8_text (pl_description pp) \<and> utf8_text (pl_mimeType pp) \<and>
     (case pl_help pp of None \<Rightarrow> True | Some h \<Rightarrow> utf8_text (h_docsURL h) \<and> utf8_text (h_message h))"

lemma ascii_network: "ascii (network p)"
  using nat_str_digits [of "unat (p_chain p)"]
  by (auto simp: network_def ascii_code list_all_iff is_digit_def)

lemma utf8_route_of:
  assumes "utf8_policy pp" "route_of pp = Inr r"
  shows "utf8_route r" "utf8_text (policy_key pp)"
  using assms ascii_network
  by (auto simp: utf8_policy_def route_of_def utf8_route_def bind_r_eq_Inr policy_key_def ascii_code SBC_def
      split: option.splits if_splits)

lemma validate_policy_ok:
  assumes "utf8_policy pp"
  shows "is_ok (validate_policy C ip nets pp) \<longleftrightarrow>
    (\<exists>r. route_of pp = Inr r \<and> is_ok (validate C ip (policy_key pp) r nets))"
proof -
  have "is_ok (table_json C ip nets [(policy_key pp, r)]) \<longleftrightarrow> is_ok (validate C ip (policy_key pp) r nets)"
    if "route_of pp = Inr r" for r
  proof -
    have a: "utf8_routes [(policy_key pp, r)]"
      using utf8_route_of [OF assms that] by (simp add: utf8_routes_def)
    show ?thesis
      using table_json_Inr [OF a] table_json_valid [OF a, of C ip nets] by (fastforce simp: is_ok_iff)
  qed
  then show ?thesis
    by (cases "route_of pp") (auto simp: validate_policy_def is_ok_iff bind_r_eq_Inr map_err_eq_Inr)
qed

section \<open>Lemmas: the projection\<close>

definition the_route :: "policy \<Rightarrow> route" where
  "the_route pp = (case route_of pp of Inr r \<Rightarrow> r | Inl _ \<Rightarrow> zero_route)"

text \<open>The policies the table is made of, and the entry the filter loads for one\<close>

definition priced ::
  "('pk, 'sk) crypto \<Rightarrow> (string \<Rightarrow> string option) \<Rightarrow> profile list \<Rightarrow> (string \<Rightarrow> string \<Rightarrow> unit lookup)
     \<Rightarrow> policy \<Rightarrow> bool" where
  "priced C ip nets find_route pp \<longleftrightarrow>
     is_ok (validate_policy C ip nets pp) \<and> find_route (pl_namespace pp) (pl_target pp) = Found ()"

definition filter_entry ::
  "('pk, 'sk) crypto \<Rightarrow> (string \<Rightarrow> string option) \<Rightarrow> profile list \<Rightarrow> policy \<Rightarrow> entry option" where
  "filter_entry C ip nets pp =
     (case validate C ip (policy_key pp) (the_route pp) nets of Inl _ \<Rightarrow> None | Inr e \<Rightarrow> Some e)"

definition last_priced ::
  "('pk, 'sk) crypto \<Rightarrow> (string \<Rightarrow> string option) \<Rightarrow> profile list \<Rightarrow> (string \<Rightarrow> string \<Rightarrow> unit lookup)
     \<Rightarrow> policy list \<Rightarrow> string \<Rightarrow> policy option" where
  "last_priced C ip nets find_route pps k =
     find (\<lambda>pp. priced C ip nets find_route pp \<and> policy_key pp = k) (rev pps)"

lemma validate_policy_route_of: "is_ok (validate_policy C ip nets pp) \<Longrightarrow> route_of pp = Inr (the_route pp)"
  by (auto simp: validate_policy_def the_route_def is_ok_iff bind_r_eq_Inr map_err_eq_Inr)

lemma find_append: "find P (xs @ ys) = (case find P xs of None \<Rightarrow> find P ys | Some x \<Rightarrow> Some x)"
  by (induction xs) auto

lemma collect_map:
  assumes "collect_policies C ip nets find_route pps (rs, nss) = Inr (rs', nss')"
  shows "map_of rs' k =
      (case last_priced C ip nets find_route pps k of Some pp \<Rightarrow> Some (the_route pp) | None \<Rightarrow> map_of rs k)"
    and "set nss' = set nss \<union> pl_namespace ` {pp \<in> set pps. priced C ip nets find_route pp}"
    and "distinct (map fst rs) \<Longrightarrow> distinct (map fst rs')"
    and "set rs' \<subseteq> set rs \<union> (\<lambda>pp. (policy_key pp, the_route pp)) ` {pp \<in> set pps. priced C ip nets find_route pp}"
  using assms
proof (induction pps arbitrary: rs nss)
  case Nil
  { case 1 then show ?case by (simp add: last_priced_def) }
  { case 2 then show ?case by simp }
  { case 3 then show ?case by simp }
  { case 4 then show ?case by simp }
next
  case (Cons pp pps)
  have step: "\<exists>rs1 nss1. collect_policies C ip nets find_route pps (rs1, nss1) = Inr (rs', nss') \<and>
     (if priced C ip nets find_route pp
      then rs1 = AList.update (policy_key pp) (the_route pp) rs \<and> nss1 = List.insert (pl_namespace pp) nss
      else rs1 = rs \<and> nss1 = nss)"
    if "collect_policies C ip nets find_route (pp # pps) (rs, nss) = Inr (rs', nss')" for rs nss
    using that validate_policy_route_of [of C ip nets pp]
    by (auto simp: priced_def split: sum.splits if_splits lookup.splits)
  { case 1
    from step [OF 1] obtain rs1 nss1 where s: "collect_policies C ip nets find_route pps (rs1, nss1) = Inr (rs', nss')"
      "if priced C ip nets find_route pp
       then rs1 = AList.update (policy_key pp) (the_route pp) rs \<and> nss1 = List.insert (pl_namespace pp) nss
       else rs1 = rs \<and> nss1 = nss" by blast
    have "last_priced C ip nets find_route (pp # pps) k =
      (case last_priced C ip nets find_route pps k of
         None \<Rightarrow> if priced C ip nets find_route pp \<and> policy_key pp = k then Some pp else None
       | Some q \<Rightarrow> Some q)"
      by (simp add: last_priced_def find_append split: option.splits)
    with Cons.IH(1) [OF s(1)] s(2) show ?case
      by (auto simp: update_conv' split: option.splits if_splits) }
  { case 2
    from step [OF 2] Cons.IH(2) show ?case by (fastforce split: if_splits) }
  { case 3
    from step [OF 3(2)] Cons.IH(3) 3(1) show ?case
      by (metis distinct_update) }
  { case 4
    from step [OF 4] obtain rs1 nss1 where s: "collect_policies C ip nets find_route pps (rs1, nss1) = Inr (rs', nss')"
      "if priced C ip nets find_route pp
       then rs1 = AList.update (policy_key pp) (the_route pp) rs \<and> nss1 = List.insert (pl_namespace pp) nss
       else rs1 = rs \<and> nss1 = nss" by blast
    have u: "set (AList.update k v xs) \<subseteq> insert (k, v) (set xs)" for k :: string and v :: route and xs
      by (induction xs) auto
    from Cons.IH(4) [OF s(1)] s(2) u [of "policy_key pp" "the_route pp" rs] show ?case
      by (auto split: if_splits) }
qed

text \<open>The collected routes are always a table the filter loads.\<close>

lemma collected_table:
  assumes "\<forall>pp \<in> set pps. utf8_policy pp"
    and c: "collect_policies C ip nets find_route pps ([], []) = Inr (rs, nss)"
  obtains tx ps where "table_json C ip nets rs = Inr tx" "parse_table C ip nets tx = Inr ps"
    "\<And>k. price_lookup (Some ps) k =
       Option.bind (last_priced C ip nets find_route pps k) (filter_entry C ip nets)"
proof -
  have in_rs: "\<exists>pp \<in> set pps. k = policy_key pp \<and> r = the_route pp \<and> priced C ip nets find_route pp"
    if "(k, r) \<in> set rs" for k r
    using collect_map(4) [OF c] that by auto
  have a: "utf8_routes rs"
    unfolding utf8_routes_def
  proof (intro conjI ballI, goal_cases)
    case 1 then show ?case using collect_map(3) [OF c] by simp
  next
    case (2 kr)
    then obtain pp where "pp \<in> set pps" "fst kr = policy_key pp" "snd kr = the_route pp" "priced C ip nets find_route pp"
      using in_rs [of "fst kr" "snd kr"] by auto
    with assms(1) utf8_route_of [of pp "the_route pp"] validate_policy_route_of [of C ip nets pp]
    show ?case by (auto simp: priced_def split: prod.splits)
  qed
  have ok: "\<forall>(k, r) \<in> set rs. is_ok (validate C ip k r nets)"
  proof (clarify)
    fix k r assume "(k, r) \<in> set rs"
    then obtain pp where "pp \<in> set pps" "k = policy_key pp" "r = the_route pp" "priced C ip nets find_route pp"
      using in_rs by blast
    with assms(1) show "is_ok (validate C ip k r nets)"
      using validate_policy_ok [of pp C ip nets] by (auto simp: priced_def the_route_def)
  qed
  from table_json_valid [OF a ok] obtain tx ps where t: "table_json C ip nets rs = Inr tx"
    "parse_table C ip nets tx = Inr ps"
    "\<And>k. price_lookup (Some ps) k =
       Option.bind (map_of rs k) (\<lambda>r. case validate C ip k r nets of Inl _ \<Rightarrow> None | Inr e \<Rightarrow> Some e)"
    by blast
  have "price_lookup (Some ps) k =
       Option.bind (last_priced C ip nets find_route pps k) (filter_entry C ip nets)" for k
  proof (cases "last_priced C ip nets find_route pps k")
    case None
    then show ?thesis using t(3) [of k] collect_map(1) [OF c, of k] by simp
  next
    case (Some pp)
    then have "policy_key pp = k" by (auto simp: last_priced_def find_Some_iff)
    then show ?thesis using Some t(3) [of k] collect_map(1) [OF c, of k] by (simp add: filter_entry_def)
  qed
  with t(1,2) show thesis by (rule that)
qed

lemma project_ok:
  assumes "cl_policies K ws = Some pps" "\<forall>pp \<in> set pps. utf8_policy pp"
    and p: "project C ip ct K ws = (ws', Inr ())"
  obtains tx ps nss where
    "ws' = ws @ [Apply (desired_configmap (ct_prices_namespace ct) (ct_prices_name ct) tx),
       (if nss = [] then DeleteGrant else Apply) (desired_grant (ct_filter ct) (ct_grant_name ct) nss)]"
    "parse_table C ip (ct_networks ct) tx = Inr ps"
    "\<And>k. price_lookup (Some ps) k =
       Option.bind (last_priced C ip (ct_networks ct) (cl_route K ws) pps k) (filter_entry C ip (ct_networks ct))"
    "set nss = pl_namespace ` {pp \<in> set pps. priced C ip (ct_networks ct) (cl_route K ws) pp}"
proof (cases "collect_policies C ip (ct_networks ct) (cl_route K ws) pps ([], [])")
  case (Inl e)
  then show ?thesis using p assms(1) by (simp add: project_def fail_with_def)
next
  case (Inr rn)
  obtain rs nss where rn: "rn = (rs, nss)" by (cases rn)
  with Inr have c: "collect_policies C ip (ct_networks ct) (cl_route K ws) pps ([], []) = Inr (rs, nss)" by simp
  from collected_table [OF assms(2) c] obtain tx ps where t: "table_json C ip (ct_networks ct) rs = Inr tx"
    "parse_table C ip (ct_networks ct) tx = Inr ps"
    "\<And>k. price_lookup (Some ps) k =
       Option.bind (last_priced C ip (ct_networks ct) (cl_route K ws) pps k) (filter_entry C ip (ct_networks ct))"
    by blast
  have "ws' = ws @ [Apply (desired_configmap (ct_prices_namespace ct) (ct_prices_name ct) tx),
       (if nss = [] then DeleteGrant else Apply) (desired_grant (ct_filter ct) (ct_grant_name ct) nss)]"
    using p assms(1) by (auto simp: project_def c t(1) and_then_def do_write_def do_delete_def Let_def split: if_splits)
  then show thesis using t(2,3) collect_map(2) [OF c] by (intro that [of tx nss ps]) auto
qed

lemma project_table_never_refused:
  assumes "cl_policies K ws = Some pps" "\<forall>pp \<in> set pps. utf8_policy pp"
  shows "snd (project C ip ct K ws) \<noteq> Inl (TableRefused e)"
proof (cases "collect_policies C ip (ct_networks ct) (cl_route K ws) pps ([], [])")
  case (Inl e')
  have "collect_policies C ip nets fr pps acc = Inl x \<Longrightarrow> x = ReadFailed" for nets fr acc x
    by (induction pps arbitrary: acc) (auto split: sum.splits if_splits lookup.splits)
  from this [OF Inl] show ?thesis using assms(1) Inl by (simp add: project_def fail_with_def)
next
  case (Inr rn)
  obtain rs nss where rn: "rn = (rs, nss)" by (cases rn)
  with Inr have c: "collect_policies C ip (ct_networks ct) (cl_route K ws) pps ([], []) = Inr (rs, nss)" by simp
  from collected_table [OF assms(2) c] obtain tx where "table_json C ip (ct_networks ct) rs = Inr tx" by blast
  then show ?thesis using assms(1)
    by (auto simp: project_def c and_then_def do_write_def do_delete_def Let_def split: if_splits)
qed

text \<open>What the filter's watcher makes of the ConfigMap the projection wrote\<close>

lemma projected_prices:
  assumes "parse_table C ip nets tx = Inr ps" "wt_name w = cm" "wt_networks w = nets"
  shows "fst (watch_step C ip w (Applied (Some \<lparr>cm_name = cm, cm_data = [(ConfigMapKey, tx)]\<rparr>)) s) =
    store_set ps s"
  using assms by (simp add: watch_step_def watch_apply_def)

text \<open>The writes a step adds\<close>

lemma remove_eep_writes:
  "\<exists>new. fst (remove_eep K pp ws) = ws @ new \<and> new \<in> {[], [DeleteEEP (pl_namespace pp) (eep_name pp)]} \<and>
     (new \<noteq> [] \<longrightarrow> (\<exists>eep. cl_eep K ws (pl_namespace pp) (eep_name pp) = Found eep \<and> cl_controlled K eep pp))"
  by (auto simp: remove_eep_def done_with_def fail_with_def do_delete_def split: lookup.splits)

lemma reconcile_policy_True:
  assumes "reconcile_policy C ip ct K pp ws = (ws', Inr cond)" "cd_status cond = ''True''"
  obtains eep where "ws' = ws @ [Apply eep]" "cl_own K pp (desired_eep pp (ct_filter ct)) = Some eep"
    "cl_write K ws (Apply eep) = Done"
    "is_ok (validate_policy C ip (ct_networks ct) pp)"
    "cl_route K ws (pl_namespace pp) (pl_target pp) = Found ()"
  using assms
  by (auto simp: reconcile_policy_def and_then_def done_with_def fail_with_def do_write_def accepted_def
      mirror_eep_def split: sum.splits lookup.splits option.splits prod.splits if_splits)

section \<open>Lemmas: admitted policies\<close>

lemma hex_char_val: "hex_char c \<Longrightarrow> hex_val c \<noteq> None"
  by (auto simp: hex_char_def hex_val_def is_digit_def)

lemma hex_decode_Some: "even (length s) \<Longrightarrow> list_all hex_char s \<Longrightarrow> hex_decode s \<noteq> None"
  by (induction s rule: hex_decode.induct) (auto split: option.splits dest: hex_char_val)

lemma max_chars_ascii: "ascii s \<Longrightarrow> max_chars n s \<longleftrightarrow> length s \<le> n"
  by (simp add: max_chars_def rune_count_ascii)

lemma schema_price:
  assumes "schema_ok pp"
  shows "\<exists>v. parse_uint256 (pl_price pp) = Inr v \<and> 0 \<le> v \<and> v \<le> MaxPrice"
proof -
  have s: "list_all is_digit (pl_price pp)" "pl_price pp \<noteq> []" "max_chars 15 (pl_price pp)"
    using assms by (simp_all add: schema_ok_def)
  have "ascii (pl_price pp)" using s(1) by (auto simp: ascii_def list_all_iff is_digit_def)
  with s have s: "list_all is_digit (pl_price pp)" "pl_price pp \<noteq> []" "length (pl_price pp) \<le> 15"
    by (simp_all add: max_chars_ascii)
  have "dec_val (pl_price pp) < 10 ^ length (pl_price pp)" by (rule dec_val_bound [OF s(1)])
  also have "\<dots> \<le> (10::nat) ^ 15" using s(3) by (intro power_increasing) simp_all
  finally have b: "int (dec_val (pl_price pp)) \<le> MaxPrice" by (simp add: MaxPrice_def)
  then have "int (dec_val (pl_price pp)) \<le> max_uint256" by (simp add: MaxPrice_def max_uint256_def)
  with s b show ?thesis by (auto simp: parse_uint256_Inr all_digits_def)
qed

lemma schema_payTo:
  assumes "schema_ok pp"
  shows "\<exists>a. parse_address (pl_payTo pp) = Inr a"
proof -
  have p: "take 2 (pl_payTo pp) = ''0x''" "length (pl_payTo pp) = 42" "list_all hex_char (drop 2 (pl_payTo pp))"
    using assms by (simp_all only: schema_ok_def)
  then have "hex_decode (drop 2 (pl_payTo pp)) \<noteq> None"
    by (intro hex_decode_Some) (simp_all only: length_drop, simp)
  moreover have "has_0x (pl_payTo pp)" by (simp only: has_0x_def p(1) simp_thms)
  ultimately show ?thesis by (cases "hex_decode (drop 2 (pl_payTo pp))") (simp_all add: parse_address_def p(2))
qed

lemma schema_help_ok:
  assumes "schema_help h"
  shows "is_ok (help_ok ip h) \<longleftrightarrow>
    h_docsURL h = [] \<or> (\<exists>host. url_parse ip (h_docsURL h) = Some (''https'', host) \<and> host \<noteq> [])"
proof -
  have m: "list_all (\<lambda>c. 32 \<le> code c \<and> code c \<le> 126) (h_message h)" "max_chars 200 (h_message h)"
    using assms unfolding schema_help_def by blast+
  have "ascii (h_message h)" using m(1) by (auto simp: ascii_def list_all_iff)
  with m have m: "list_all (\<lambda>c. 32 \<le> code c \<and> code c \<le> 126) (h_message h)" "length (h_message h) \<le> 200"
    by (simp_all add: max_chars_ascii)
  have "\<not> list_ex (\<lambda>c. code c < 32 \<or> 126 < code c) (h_message h)"
    using m(1) unfolding list_ex_iff list_all_iff by (meson not_less)
  moreover have "\<not> length (h_message h) > 200" using m(2) by simp
  ultimately show ?thesis by (auto simp: help_ok_def split: option.splits)
qed

lemma key_of_policy:
  "route_key (policy_key pp @ ''/'') = Some (policy_key pp) \<longleftrightarrow>
     dns_name (pl_namespace pp) \<and> dns_name (pl_target pp)"
proof
  assume "route_key (policy_key pp @ ''/'') = Some (policy_key pp)"
  then obtain ns nm where n: "dns_name ns" "dns_name nm" "policy_key pp = ''httproute/'' @ ns @ ''/'' @ nm"
    by (auto simp: route_key_Some)
  then have "ns @ CHR ''/'' # nm = pl_namespace pp @ CHR ''/'' # pl_target pp"
    by (simp add: policy_key_def)
  then have "ns = pl_namespace pp \<and> nm = pl_target pp"
    using n(1,2) by (subst (asm) append_Cons_eq_iff) (simp_all add: dns_name_no_slash)
  with n(1,2) show "dns_name (pl_namespace pp) \<and> dns_name (pl_target pp)" by simp
next
  assume "dns_name (pl_namespace pp) \<and> dns_name (pl_target pp)"
  then show "route_key (policy_key pp @ ''/'') = Some (policy_key pp)"
    by (subst route_key_Some) (auto simp: policy_key_def)
qed


lemma admitted_policy_ok:
  assumes s: "schema_ok pp" and a: "utf8_policy pp"
  shows "is_ok (validate_policy C ip nets pp) \<longleftrightarrow>
    dns_name (pl_namespace pp) \<and> dns_name (pl_target pp) \<and> (\<exists>p \<in> set nets. network p = network Testnet) \<and>
    parse_uint256 (pl_price pp) \<noteq> Inr 0 \<and> parse_address (pl_payTo pp) \<noteq> Inr zero_address \<and>
    length (pl_description pp) \<le> 256 \<and>
    (case pl_help pp of None \<Rightarrow> True
     | Some h \<Rightarrow> h_docsURL h = [] \<or> (\<exists>host. url_parse ip (h_docsURL h) = Some (''https'', host) \<and> host \<noteq> []))"
    (is "_ \<longleftrightarrow> ?R")
proof -
  obtain v where v: "parse_uint256 (pl_price pp) = Inr v" "0 \<le> v" "v \<le> MaxPrice"
    using schema_price [OF s] by blast
  obtain to where to: "parse_address (pl_payTo pp) = Inr to" using schema_payTo [OF s] by blast
  have f: "pl_network pp = p_name Testnet" "pl_method pp = TransferEIP3009" "MinTimeoutSeconds \<le> pl_timeout pp"
    "pl_timeout pp \<le> MaxTimeoutSeconds" "pl_failure pp = FailureClosed" "pl_capture pp = CaptureAsync"
    using s by (simp_all add: schema_ok_def Testnet_def TransferEIP3009_def MinTimeoutSeconds_def
        MaxTimeoutSeconds_def FailureClosed_def CaptureAsync_def)
  then have r: "route_of pp = Inr (the_route pp)"
    by (simp add: the_route_def route_of_def lookup_def)
  have t: "r_network (the_route pp) = network Testnet" "r_price (the_route pp) = pl_price pp"
    "r_asset (the_route pp) = SBC" "r_payTo (the_route pp) = pl_payTo pp" "r_method (the_route pp) = pl_method pp"
    "r_timeout (the_route pp) = pl_timeout pp" "r_failure (the_route pp) = pl_failure pp"
    "r_capture (the_route pp) = pl_capture pp" "r_description (the_route pp) = pl_description pp"
    "r_help (the_route pp) = (case pl_help pp of None \<Rightarrow> None
       | Some h \<Rightarrow> if h_docsURL h \<noteq> [] \<or> h_message h \<noteq> [] then Some h else None)"
    using f(1) by (simp_all add: the_route_def route_of_def lookup_def)
  have fnd: "find (\<lambda>p. network p = network Testnet) nets = None \<longleftrightarrow> \<not> (\<exists>p \<in> set nets. network p = network Testnet)"
    by (auto simp: find_None_iff)
  have hlp: "is_ok (case r_help (the_route pp) of None \<Rightarrow> Inr () | Some h \<Rightarrow> help_ok ip h) \<longleftrightarrow>
    (case pl_help pp of None \<Rightarrow> True
     | Some h \<Rightarrow> h_docsURL h = [] \<or> (\<exists>host. url_parse ip (h_docsURL h) = Some (''https'', host) \<and> host \<noteq> []))"
    using s schema_help_ok [of "the (pl_help pp)" ip] by (auto simp: t schema_ok_def split: option.splits)
  have "is_ok (validate_policy C ip nets pp) \<longleftrightarrow> is_ok (validate C ip (policy_key pp) (the_route pp) nets)"
    using validate_policy_ok [OF a, of C ip nets] r by simp
  also have "\<dots> \<longleftrightarrow> ?R"
    unfolding hlp [symmetric] validate_def
    using f v to fnd key_of_policy [of pp]
    by (auto simp: t is_ok_iff bind_r_eq_Inr map_err_eq_Inr equal_fold_def split: option.splits)
  finally show ?thesis .
qed

section \<open>Lemmas: one policy\<close>

lemma and_then_Inr [result_simps]:
  "and_then f g ws = (ws', Inr y) \<longleftrightarrow> (\<exists>ws1 x. f ws = (ws1, Inr x) \<and> g x ws1 = (ws', Inr y))"
  by (auto simp: and_then_def split: prod.splits sum.splits)

lemma done_with_Inr [result_simps]: "done_with x ws = (ws', Inr y) \<longleftrightarrow> ws' = ws \<and> y = x"
  by (auto simp: done_with_def)

lemma fail_with_Inr [result_simps]: "\<not> fail_with e ws = (ws', Inr y)"
  by (simp add: fail_with_def)

lemma do_write_Inr [result_simps]:
  "do_write K w ws = (ws', Inr y) \<longleftrightarrow> ws' = ws @ [w] \<and> cl_write K ws w = Done"
  by (auto simp: do_write_def)

lemma remove_eep_Inr [result_simps]:
  "remove_eep K pp ws = (ws', Inr y) \<longleftrightarrow>
     (case cl_eep K ws (pl_namespace pp) (eep_name pp) of
        Found u \<Rightarrow>
          if cl_controlled K u pp
          then ws' = ws @ [DeleteEEP (pl_namespace pp) (eep_name pp)] \<and>
            cl_write K ws (DeleteEEP (pl_namespace pp) (eep_name pp)) \<noteq> Refused
          else ws' = ws
      | NotFound \<Rightarrow> ws' = ws
      | Failed \<Rightarrow> False)"
  by (auto simp: remove_eep_def done_with_def fail_with_def do_delete_def split: lookup.splits if_splits)

section \<open>A sample policy\<close>

definition demo_policy :: policy where
  "demo_policy =
     \<lparr>pl_namespace = ''a'', pl_name = ''p'', pl_generation = 1, pl_target = ''b'', pl_network = ''testnet'',
      pl_price = ''1000'', pl_payTo = SBC, pl_method = ''eip3009'', pl_timeout = 60, pl_failure = ''Closed'',
      pl_capture = ''Async'', pl_description = [], pl_mimeType = [], pl_help = None, pl_ancestors = []\<rparr>"

lemma demo_policy_simps:
  "policy_key demo_policy = ''httproute/a/b''" "route_of demo_policy = Inr demo_route"
  "the_route demo_policy = demo_route" "pl_namespace demo_policy = ''a''" "pl_target demo_policy = ''b''"
  by (simp_all add: policy_key_def demo_policy_def route_of_def the_route_def demo_route_def zero_route_def
      lookup_def Testnet_def network_testnet [unfolded Testnet_def] TransferEIP3009_def FailureClosed_def
      CaptureAsync_def)

lemma demo_policy_utf8: "utf8_policy demo_policy"
  by (simp add: utf8_policy_def demo_policy_def ascii_code SBC_def is_int64_def)

lemma demo_policy_schema: "schema_ok demo_policy"
  by (simp add: schema_ok_def max_chars_def demo_policy_def SBC_def hex_char_def is_digit_def)

lemma demo_policy_valid: "is_ok (validate_policy demo_crypto (\<lambda>_. None) [Testnet] demo_policy)"
  by (simp add: validate_policy_ok demo_policy_utf8 demo_policy_simps demo_validates)

definition demo_controller :: controller where
  "demo_controller =
     \<lparr>ct_filter = \<lparr>bk_namespace = ''x402'', bk_name = ''filter'', bk_port = 9002\<rparr>, ct_prices_namespace = ''x402'',
      ct_prices_name = ''prices'', ct_grant_name = ''grant'', ct_networks = [Testnet]\<rparr>"

text \<open>A cluster that serves the given policies and the given report on every object, and takes every write\<close>

definition demo_cluster :: "policy list \<Rightarrow> json \<Rightarrow> cluster" where
  "demo_cluster pps report =
     \<lparr>cl_policy = (\<lambda>_ _. case pps of [] \<Rightarrow> NotFound | pp # _ \<Rightarrow> Found pp), cl_policies = (\<lambda>_. Some pps),
      cl_indexed = (\<lambda>_ _. Some pps), cl_route = (\<lambda>_ _ _. Found ()), cl_eep = (\<lambda>_ _ _. Found report),
      cl_write = (\<lambda>_ _. Done), cl_own = (\<lambda>_ j. Some j), cl_controlled = (\<lambda>_ _. True),
      cl_set_condition = (\<lambda>_ c. ([c], True)), cl_error_text = (\<lambda>_. ''invalid'')\<rparr>"

lemma demo_cluster_simps [simp]:
  "cl_policies (demo_cluster pps report) ws = Some pps" "cl_route (demo_cluster pps report) ws ns nm = Found ()"
  "cl_eep (demo_cluster pps report) ws ns nm = Found report" "cl_write (demo_cluster pps report) ws w = Done"
  "cl_own (demo_cluster pps report) pp j = Some j"
  by (simp_all add: demo_cluster_def)

lemma demo_networks [simp]: "ct_networks demo_controller = [Testnet]" "ct_prices_name demo_controller = ''prices''"
  by (simp_all add: demo_controller_def)

lemma demo_project:
  assumes "\<forall>pp \<in> set pps. utf8_policy pp"
  shows "\<exists>ws. project demo_crypto (\<lambda>_. None) demo_controller (demo_cluster pps report) [] = (ws, Inr ())"
proof -
  have "\<exists>rn. collect_policies demo_crypto (\<lambda>_. None) [Testnet] (cl_route (demo_cluster pps report) []) pps acc = Inr rn" for acc
    by (induction pps arbitrary: acc) (auto simp: demo_cluster_def split: sum.splits)
  then obtain rs nss where c: "collect_policies demo_crypto (\<lambda>_. None) [Testnet]
      (cl_route (demo_cluster pps report) []) pps ([], []) = Inr (rs, nss)" by fast
  from collected_table [OF assms c] obtain tx where "table_json demo_crypto (\<lambda>_. None) [Testnet] rs = Inr tx" by blast
  with c show ?thesis
    by (simp add: project_def and_then_def do_write_def do_delete_def Let_def)
qed

section \<open>Properties\<close>

text \<open>
  The filter charges what the policies say.  When a projection over UTF-8 policies
  succeeds, it has written one ConfigMap and then the grant; the filter's watcher, given
  that ConfigMap, holds for each route the entry of the last valid policy of an existing
  route that targets it, and no price for any other route; and the grant names exactly the
  namespaces of those policies.
\<close>

theorem filter_charges_what_the_policies_say:
  assumes "cl_policies K ws = Some pps" "\<forall>pp \<in> set pps. utf8_policy pp"
    and "project C ip ct K ws = (ws', Inr ())"
    and "wt_name w = ct_prices_name ct" "wt_networks w = ct_networks ct"
  shows "\<exists>tx nss.
    ws' = ws @ [Apply (desired_configmap (ct_prices_namespace ct) (ct_prices_name ct) tx),
      (if nss = [] then DeleteGrant else Apply) (desired_grant (ct_filter ct) (ct_grant_name ct) nss)] \<and>
    (\<forall>k. price_lookup (st_table (fst (watch_step C ip w
         (Applied (Some \<lparr>cm_name = ct_prices_name ct, cm_data = [(ConfigMapKey, tx)]\<rparr>)) s))) k =
       Option.bind (last_priced C ip (ct_networks ct) (cl_route K ws) pps k) (filter_entry C ip (ct_networks ct))) \<and>
    set nss = pl_namespace ` {pp \<in> set pps. priced C ip (ct_networks ct) (cl_route K ws) pp}"
proof -
  obtain tx ps nss where p:
    "ws' = ws @ [Apply (desired_configmap (ct_prices_namespace ct) (ct_prices_name ct) tx),
      (if nss = [] then DeleteGrant else Apply) (desired_grant (ct_filter ct) (ct_grant_name ct) nss)]"
    "parse_table C ip (ct_networks ct) tx = Inr ps"
    "\<And>k. price_lookup (Some ps) k =
       Option.bind (last_priced C ip (ct_networks ct) (cl_route K ws) pps k) (filter_entry C ip (ct_networks ct))"
    "set nss = pl_namespace ` {pp \<in> set pps. priced C ip (ct_networks ct) (cl_route K ws) pp}"
    by (rule project_ok [OF assms(1-3)]) blast
  have st: "st_table (fst (watch_step C ip w
      (Applied (Some \<lparr>cm_name = ct_prices_name ct, cm_data = [(ConfigMapKey, tx)]\<rparr>)) s)) = Some ps"
    unfolding projected_prices [OF p(2) assms(4,5), of s] by (simp add: store_set_def)
  show ?thesis
    by (intro exI [of _ tx] exI [of _ nss] conjI allI p(1,4)) (unfold st, rule p(3))
qed

theorem filter_charges_what_the_policies_say_witness:
  "\<exists>tx nss ws.
    ws = [Apply (desired_configmap ''x402'' ''prices'' tx),
      (if nss = [] then DeleteGrant else Apply) (desired_grant (ct_filter demo_controller) ''grant'' nss)] \<and>
    price_lookup (st_table (fst (watch_step demo_crypto (\<lambda>_. None) demo_watcher
         (Applied (Some \<lparr>cm_name = ''prices'', cm_data = [(ConfigMapKey, tx)]\<rparr>)) new_store))) ''httproute/a/b'' =
       Some demo_entry \<and> set nss = {''a''}"
proof -
  let ?K = "demo_cluster [demo_policy] JNull"
  have a: "\<forall>pp \<in> set [demo_policy]. utf8_policy pp" by (simp add: demo_policy_utf8)
  from demo_project [OF a] obtain ws where
    p: "project demo_crypto (\<lambda>_. None) demo_controller ?K [] = (ws, Inr ())" by blast
  have w: "wt_name demo_watcher = ct_prices_name demo_controller" "wt_networks demo_watcher = ct_networks demo_controller"
    by (simp_all add: demo_watcher_def)
  have l: "last_priced demo_crypto (\<lambda>_. None) [Testnet] (cl_route ?K []) [demo_policy] ''httproute/a/b'' = Some demo_policy"
    by (simp add: last_priced_def priced_def demo_policy_valid demo_policy_simps)
  have e: "filter_entry demo_crypto (\<lambda>_. None) [Testnet] demo_policy = Some demo_entry"
    by (simp add: filter_entry_def demo_policy_simps demo_validates)
  have n: "pl_namespace ` {pp \<in> set [demo_policy]. priced demo_crypto (\<lambda>_. None) [Testnet] (cl_route ?K []) pp} = {''a''}"
    by (auto simp: priced_def demo_policy_valid demo_policy_simps)
  have d: "ct_prices_namespace demo_controller = ''x402''" "ct_grant_name demo_controller = ''grant''"
    by (simp_all add: demo_controller_def)
  from filter_charges_what_the_policies_say [OF demo_cluster_simps(1) a p w, of new_store] obtain tx nss where
    t: "ws = [Apply (desired_configmap ''x402'' ''prices'' tx),
      (if nss = [] then DeleteGrant else Apply) (desired_grant (ct_filter demo_controller) ''grant'' nss)]"
    and k: "\<forall>k. price_lookup (st_table (fst (watch_step demo_crypto (\<lambda>_. None) demo_watcher
         (Applied (Some \<lparr>cm_name = ''prices'', cm_data = [(ConfigMapKey, tx)]\<rparr>)) new_store))) k =
       Option.bind (last_priced demo_crypto (\<lambda>_. None) [Testnet] (cl_route ?K []) [demo_policy] k)
         (filter_entry demo_crypto (\<lambda>_. None) [Testnet])"
    and "set nss = pl_namespace ` {pp \<in> set [demo_policy]. priced demo_crypto (\<lambda>_. None) [Testnet] (cl_route ?K []) pp}"
    unfolding demo_networks d append_Nil by blast
  with n have "set nss = {''a''}" by simp
  moreover from k have "price_lookup (st_table (fst (watch_step demo_crypto (\<lambda>_. None) demo_watcher
         (Applied (Some \<lparr>cm_name = ''prices'', cm_data = [(ConfigMapKey, tx)]\<rparr>)) new_store))) ''httproute/a/b'' =
       Some demo_entry" by (simp only: l e Option.bind.simps)
  ultimately show ?thesis using t by blast
qed

text \<open>
  C37: the branch the controller calls impossible is impossible: over UTF-8 policies the
  recomputed price table is never one the filter refuses, whatever the policies are.
\<close>

theorem projected_table_is_never_refused:
  assumes "cl_policies K ws = Some pps" "\<forall>pp \<in> set pps. utf8_policy pp"
  shows "snd (project C ip ct K ws) \<noteq> Inl (TableRefused e)"
  using assms by (rule project_table_never_refused)

theorem projected_table_is_never_refused_witness:
  "snd (project demo_crypto (\<lambda>_. None) demo_controller (demo_cluster [demo_policy] JNull) []) \<noteq>
     Inl (TableRefused DecodeError)"
  by (rule projected_table_is_never_refused [OF demo_cluster_simps(1)]) (simp add: demo_policy_utf8)

text \<open>
  C38: a policy is accepted exactly when it is valid, its route exists and Envoy Gateway
  does not reject its object; then this reconcile has applied that object, owned by the
  policy, and nothing else.  Otherwise an object is deleted only if the policy controls it.
\<close>

theorem accepted_policy_has_its_object:
  assumes r: "reconcile_policy C ip ct K pp ws = (ws', Inr cond)"
  shows "if cd_status cond = ''True''
    then is_ok (validate_policy C ip (ct_networks ct) pp) \<and>
      cl_route K ws (pl_namespace pp) (pl_target pp) = Found () \<and>
      (\<exists>eep u. cl_own K pp (desired_eep pp (ct_filter ct)) = Some eep \<and> ws' = ws @ [Apply eep] \<and>
        cl_eep K ws' (pl_namespace pp) (eep_name pp) = Found u \<and>
        (case eep_accepted u of None \<Rightarrow> True | Some (st, _) \<Rightarrow> st = ''True''))
    else cd_status cond = ''False'' \<and>
      (if is_ok (validate_policy C ip (ct_networks ct) pp) \<and>
          cl_route K ws (pl_namespace pp) (pl_target pp) = Found ()
       then \<exists>u st why. cl_eep K ws' (pl_namespace pp) (eep_name pp) = Found u \<and>
         eep_accepted u = Some (st, why) \<and> st \<noteq> ''True''
       else case cl_eep K ws (pl_namespace pp) (eep_name pp) of
           Found u \<Rightarrow> ws' = ws @ (if cl_controlled K u pp
             then [DeleteEEP (pl_namespace pp) (eep_name pp)] else [])
         | NotFound \<Rightarrow> ws' = ws
         | Failed \<Rightarrow> False)"
proof (cases "is_ok (validate_policy C ip (ct_networks ct) pp) \<and>
    cl_route K ws (pl_namespace pp) (pl_target pp) = Found ()")
  case True
  then obtain eep u where "cl_own K pp (desired_eep pp (ct_filter ct)) = Some eep" "ws' = ws @ [Apply eep]"
    "cl_eep K ws' (pl_namespace pp) (eep_name pp) = Found u" "cond = mirror_eep pp u"
    using r by (auto simp: reconcile_policy_def is_ok_iff result_simps split: option.splits lookup.splits)
  then show ?thesis using True
    by (auto simp: mirror_eep_def accepted_def split: option.splits prod.splits if_splits)
next
  case False
  then obtain c where c: "cd_status cond = ''False''" "remove_eep K pp ws = (ws', Inr ())"
    using r by (auto simp: reconcile_policy_def is_ok_iff result_simps accepted_def
        split: lookup.splits sum.splits option.splits)
  then have "cd_status cond \<noteq> ''True''" by simp
  with False c show ?thesis
    by (auto simp: result_simps split: lookup.splits if_splits)
qed

definition demo_rejection :: json where
  "demo_rejection =
     JObj [(''status'', JObj [(''ancestors'', JArr [JObj [(''conditions'', JArr [JObj
       [(''type'', JStr ''Accepted''), (''status'', JStr ''False''), (''reason'', JStr ''Conflicted''),
        (''message'', JStr ''another policy targets the route'')]])]])])]"

lemma demo_rejection_read:
  "eep_accepted demo_rejection = Some (''False'', ''Conflicted'', ''another policy targets the route'')"
  by (simp add: eep_accepted_def demo_rejection_def nested_slice_def str_field_def)

theorem accepted_policy_has_its_object_witness:
  "\<exists>ws' cond. reconcile_policy demo_crypto (\<lambda>_. None) demo_controller (demo_cluster [demo_policy] JNull)
      demo_policy [] = (ws', Inr cond) \<and> cd_status cond = ''True'' \<and>
     ws' = [Apply (desired_eep demo_policy (ct_filter demo_controller))]"
proof -
  let ?K = "demo_cluster [demo_policy] JNull"
  have "\<exists>e. validate_policy demo_crypto (\<lambda>_. None) [Testnet] demo_policy = Inr e"
    using demo_policy_valid by (simp add: is_ok_iff)
  then have r: "reconcile_policy demo_crypto (\<lambda>_. None) demo_controller ?K demo_policy [] =
      ([Apply (desired_eep demo_policy (ct_filter demo_controller))], Inr (mirror_eep demo_policy JNull))"
    by (auto simp: reconcile_policy_def and_then_def do_write_def done_with_def)
  have t: "cd_status (mirror_eep demo_policy JNull) = ''True''"
    by (simp add: mirror_eep_def eep_accepted_def nested_slice_def accepted_def)
  from accepted_policy_has_its_object [OF r] t have
    "\<exists>eep. [Apply (desired_eep demo_policy (ct_filter demo_controller))] = [] @ [Apply eep]"
    by (simp only: if_True simp_thms) blast
  with r t show ?thesis by blast
qed

definition rival_policy :: policy where
  "rival_policy = demo_policy\<lparr>pl_name := ''q'', pl_price := ''2000''\<rparr>"

definition rival_entry :: entry where
  "rival_entry =
     \<lparr>pe_key = ''httproute/a/b'', pe_route = demo_route\<lparr>r_price := ''2000''\<rparr>, pe_network = Testnet, pe_price = 2000,
      pe_requirements = exact_requirements Testnet ''2000'' (address_string demo_crypto SBCAddress) 60\<rparr>"

lemma route_of_repriced:
  "route_of (demo_policy\<lparr>pl_price := s\<rparr>) = Inr (demo_route\<lparr>r_price := s\<rparr>)"
  by (simp add: demo_policy_def route_of_def demo_route_def zero_route_def lookup_def Testnet_def
      network_testnet [unfolded Testnet_def] TransferEIP3009_def FailureClosed_def CaptureAsync_def)

lemma rival_price: "parse_uint256 ''2000'' = Inr 2000" "int_str 2000 = ''2000''"
proof -
  show i: "int_str 2000 = ''2000''"
    by (simp add: int_str_def nat_str.simps digit_char_def)
  show "parse_uint256 ''2000'' = Inr 2000"
    using parse_uint256_int_str [of 2000] by (simp add: i max_uint256_def)
qed

lemma rival_policy_simps:
  "policy_key rival_policy = ''httproute/a/b''" "route_of rival_policy = Inr (demo_route\<lparr>r_price := ''2000''\<rparr>)"
  "the_route rival_policy = demo_route\<lparr>r_price := ''2000''\<rparr>" "utf8_policy rival_policy"
  using demo_policy_simps demo_policy_utf8
  by (simp_all add: policy_key_def rival_policy_def route_of_def the_route_def utf8_policy_def
      lookup_def demo_policy_def Testnet_def network_testnet [unfolded Testnet_def] ascii_code demo_route_def zero_route_def)

lemma rival_validates:
  "validate demo_crypto (\<lambda>_. None) ''httproute/a/b'' (demo_route\<lparr>r_price := ''2000''\<rparr>) [Testnet] = Inr rival_entry"
  unfolding validate_def demo_route_key
  by (simp add: demo_route_def network_testnet rival_price parse_SBC SBC_not_zero MaxPrice_def
      MinTimeoutSeconds_def MaxTimeoutSeconds_def zero_route_def rival_entry_def)

lemma rival_valid: "is_ok (validate_policy demo_crypto (\<lambda>_. None) [Testnet] rival_policy)"
  by (simp add: validate_policy_ok rival_policy_simps rival_validates)

lemma conflict_is_reported:
  assumes "K = demo_cluster [demo_policy, rival_policy] demo_rejection"
  shows "\<exists>ws cond. reconcile_policy demo_crypto (\<lambda>_. None) demo_controller K rival_policy [] = (ws, Inr cond) \<and>
    cd_status cond = ''False'' \<and> cd_reason cond = ReasonConflicted"
proof -
  have "\<exists>e. validate_policy demo_crypto (\<lambda>_. None) [Testnet] rival_policy = Inr e"
    using rival_valid by (simp add: is_ok_iff)
  then have "reconcile_policy demo_crypto (\<lambda>_. None) demo_controller K rival_policy [] =
      ([Apply (desired_eep rival_policy (ct_filter demo_controller))], Inr (mirror_eep rival_policy demo_rejection))"
    unfolding assms by (auto simp: reconcile_policy_def and_then_def do_write_def done_with_def)
  moreover have "cd_status (mirror_eep rival_policy demo_rejection) = ''False''"
    "cd_reason (mirror_eep rival_policy demo_rejection) = ReasonConflicted"
    by (simp_all add: mirror_eep_def demo_rejection_read accepted_def ReasonConflicted_def)
  ultimately show ?thesis by blast
qed

text \<open>
  C40: a policy in conflict still sets the price.  Two policies price one route and Envoy
  Gateway reports a conflict: the reconcile of the second marks it \<open>Accepted=False\<close>,
  \<open>Conflicted\<close>, and yet the projection charges its price, not the first policy's.  The
  projection's acceptance leaves out the third of the conditions \<open>reconcilePolicy\<close> decides by.
\<close>

theorem conflicted_policy_sets_the_price:
  "\<exists>ws1 cond ws2 tx.
     reconcile_policy demo_crypto (\<lambda>_. None) demo_controller
       (demo_cluster [demo_policy, rival_policy] demo_rejection) rival_policy [] = (ws1, Inr cond) \<and>
     cd_status cond = ''False'' \<and> cd_reason cond = ReasonConflicted \<and>
     project demo_crypto (\<lambda>_. None) demo_controller
       (demo_cluster [demo_policy, rival_policy] demo_rejection) [] = (ws2, Inr ()) \<and>
     Apply (desired_configmap ''x402'' ''prices'' tx) \<in> set ws2 \<and>
     price_lookup (st_table (fst (watch_step demo_crypto (\<lambda>_. None) demo_watcher
         (Applied (Some \<lparr>cm_name = ''prices'', cm_data = [(ConfigMapKey, tx)]\<rparr>)) new_store))) ''httproute/a/b'' =
       Some rival_entry"
proof -
  let ?pps = "[demo_policy, rival_policy]"
  let ?K = "demo_cluster ?pps demo_rejection"
  have a: "\<forall>pp \<in> set ?pps. utf8_policy pp" by (simp add: demo_policy_utf8 rival_policy_simps)
  from demo_project [OF a] obtain ws2 where
    p: "project demo_crypto (\<lambda>_. None) demo_controller ?K [] = (ws2, Inr ())" by blast
  obtain tx ps nss where t: "ws2 = [] @ [Apply (desired_configmap (ct_prices_namespace demo_controller) (ct_prices_name demo_controller) tx),
       (if nss = [] then DeleteGrant else Apply) (desired_grant (ct_filter demo_controller) (ct_grant_name demo_controller) nss)]"
    "parse_table demo_crypto (\<lambda>_. None) (ct_networks demo_controller) tx = Inr ps"
    "\<And>k. price_lookup (Some ps) k =
       Option.bind (last_priced demo_crypto (\<lambda>_. None) (ct_networks demo_controller) (cl_route ?K []) ?pps k)
         (filter_entry demo_crypto (\<lambda>_. None) (ct_networks demo_controller))"
    by (rule project_ok [OF demo_cluster_simps(1) a p]) blast
  have w: "wt_name demo_watcher = ''prices''" "wt_networks demo_watcher = ct_networks demo_controller"
    by (simp_all add: demo_watcher_def)
  have "last_priced demo_crypto (\<lambda>_. None) [Testnet] (cl_route ?K []) ?pps ''httproute/a/b'' = Some rival_policy"
    by (simp add: last_priced_def priced_def rival_valid rival_policy_simps rival_policy_def [symmetric])
  moreover have "filter_entry demo_crypto (\<lambda>_. None) [Testnet] rival_policy = Some rival_entry"
    by (simp add: filter_entry_def rival_policy_simps rival_validates)
  ultimately have "price_lookup (Some ps) ''httproute/a/b'' = Some rival_entry"
    unfolding t(3) demo_networks by simp
  then have "price_lookup (st_table (fst (watch_step demo_crypto (\<lambda>_. None) demo_watcher
         (Applied (Some \<lparr>cm_name = ''prices'', cm_data = [(ConfigMapKey, tx)]\<rparr>)) new_store))) ''httproute/a/b'' =
       Some rival_entry"
    unfolding projected_prices [OF t(2) w] by (simp add: store_set_def)
  moreover have "Apply (desired_configmap ''x402'' ''prices'' tx) \<in> set ws2"
    by (simp add: t(1) demo_controller_def)
  ultimately show ?thesis using conflict_is_reported [OF refl] p by blast
qed

text \<open>
  C39: what the schema leaves to the controller.  A policy the API server admits is valid
  exactly when the names are DNS names, the filter charges on testnet, the price is not
  zero, the recipient is not the zero address, the description is at most 256 bytes, and a
  docs URL parses with a host: no other check of the filter can refuse it.  The strings of a
  policy are UTF-8, as those of every decoded JSON object are.  The schema's own limit on the
  description is 256 characters, so a policy of a hundred characters of three bytes each is
  admitted, and then refused.
\<close>

theorem admitted_policy_is_valid_iff:
  assumes "schema_ok pp" "utf8_policy pp"
  shows "is_ok (validate_policy C ip nets pp) \<longleftrightarrow>
    dns_name (pl_namespace pp) \<and> dns_name (pl_target pp) \<and> (\<exists>p \<in> set nets. network p = network Testnet) \<and>
    parse_uint256 (pl_price pp) \<noteq> Inr 0 \<and> parse_address (pl_payTo pp) \<noteq> Inr zero_address \<and>
    length (pl_description pp) \<le> 256 \<and>
    (case pl_help pp of None \<Rightarrow> True
     | Some h \<Rightarrow> h_docsURL h = [] \<or> (\<exists>host. url_parse ip (h_docsURL h) = Some (''https'', host) \<and> host \<noteq> []))"
  using assms by (rule admitted_policy_ok)

definition wide_text :: string where
  "wide_text = concat (replicate 100 [CHR 0xE2, CHR 0x82, CHR 0xAC])"

definition wide_policy :: policy where
  "wide_policy = demo_policy\<lparr>pl_description := wide_text\<rparr>"

lemma wide_policy_text:
  "rune_count (concat (replicate n [CHR 0xE2, CHR 0x82, CHR 0xAC])) = Some n"
proof (induction n)
  case (Suc n)
  have "rune_tail (CHR 0xE2) (CHR 0x82 # CHR 0xAC # s) = Some s" for s
    by (cases s) (simp_all add: rune_tail_def rune2_def rune3_def cont_def)
  with Suc show ?case by simp
qed simp

lemma wide_policy_admitted: "schema_ok wide_policy" "utf8_policy wide_policy"
proof -
  have t: "rune_count wide_text = Some 100" by (simp only: wide_text_def wide_policy_text)
  show "schema_ok wide_policy" using demo_policy_schema t
    by (simp add: schema_ok_def max_chars_def wide_policy_def)
  show "utf8_policy wide_policy" using demo_policy_utf8 t
    by (simp add: utf8_policy_def utf8_text_def wide_policy_def)
qed

theorem admitted_policy_is_valid_iff_witness:
  "schema_ok demo_policy \<and> is_ok (validate_policy demo_crypto (\<lambda>_. None) [Testnet] demo_policy) \<and>
   schema_ok wide_policy \<and> \<not> is_ok (validate_policy demo_crypto (\<lambda>_. None) [Testnet] wide_policy)"
proof -
  have "length (pl_description wide_policy) = 300" 
    by (simp add: wide_policy_def wide_text_def length_concat sum_list_replicate)
  then have wide: "\<not> is_ok (validate_policy demo_crypto (\<lambda>_. None) [Testnet] wide_policy)"
    unfolding admitted_policy_is_valid_iff [OF wide_policy_admitted] by simp
  have "dns_name ''a''" "dns_name ''b''" by (simp_all add: dns_name_def dns_alnum_def is_lower_def)
  then have "is_ok (validate_policy demo_crypto (\<lambda>_. None) [Testnet] demo_policy)"
    unfolding admitted_policy_is_valid_iff [OF demo_policy_schema demo_policy_utf8] demo_policy_simps
    by (intro conjI) (simp_all add: demo_policy_def demo_price parse_SBC SBC_not_zero)
  then show ?thesis using wide wide_policy_admitted(1) by (simp add: demo_policy_schema)
qed

text \<open>
  The other direction fails: the filter's validation admits prices the schema refuses, the
  largest being 2^53 - 1 with its 16 digits.
\<close>

lemma validation_admits_more_than_the_schema:
  "\<not> schema_ok (demo_policy\<lparr>pl_price := ''9007199254740991''\<rparr>)"
  "is_ok (validate_policy demo_crypto (\<lambda>_. None) [Testnet] (demo_policy\<lparr>pl_price := ''9007199254740991''\<rparr>))"
proof -
  let ?pp = "demo_policy\<lparr>pl_price := ''9007199254740991''\<rparr>"
  show "\<not> schema_ok ?pp" by (simp add: schema_ok_def max_chars_def)
  have a: "utf8_policy ?pp" using demo_policy_utf8 by (simp add: utf8_policy_def ascii_code)
  have p: "parse_uint256 ''9007199254740991'' = Inr 9007199254740991"
    by (simp add: parse_uint256_Inr all_digits_def is_digit_def dec_val_def digit_val_def max_uint256_def)
  note route_of_repriced [of "''9007199254740991''"]
  moreover have "policy_key ?pp = ''httproute/a/b''" by (simp add: policy_key_def demo_policy_def)
  moreover have "is_ok (validate demo_crypto (\<lambda>_. None) ''httproute/a/b'' (demo_route\<lparr>r_price := ''9007199254740991''\<rparr>) [Testnet])"
    unfolding validate_def demo_route_key
    by (simp add: demo_route_def network_testnet p parse_SBC SBC_not_zero MaxPrice_def
        MinTimeoutSeconds_def MaxTimeoutSeconds_def zero_route_def)
  ultimately show "is_ok (validate_policy demo_crypto (\<lambda>_. None) [Testnet] ?pp)"
    by (simp add: validate_policy_ok [OF a])
qed

end
