(* ===== verification/Wiring.thy ===== *)
theory Wiring
  imports Settle Extproc Controller
begin

text \<open>
  How the three servers are put together: \<open>run\<close> of \<open>cmd/x402-filter\<close>, \<open>cmd/x402-settler\<close> and
  \<open>cmd/x402-controller\<close> up to the point where the parts run, each as a function from the flags to
  the parts it builds or the error it exits with; the filter's readiness loop; and the RPC
  keepalive of \<open>internal/radius/rpc.go\<close>.  Flag parsing, listeners, signals and the Kubernetes
  client configuration are library calls: whether the last two succeed is an argument.
\<close>

section \<open>The flags\<close>

record filter_flags =
  fl_namespace :: string
  fl_configmap :: string
  fl_networks :: string
  fl_redis :: string
  fl_rpc_url :: string
  fl_deadline :: int
  fl_fresh :: int
  fl_last_known :: int

record settler_flags =
  sf_redis :: string
  sf_networks :: string
  sf_consumer :: string
  sf_facilitator_url :: string
  sf_rpc_url :: string
  sf_settle_timeout :: int
  sf_min_idle :: int

record controller_flags =
  cf_prices_namespace :: string
  cf_prices_name :: string
  cf_grant_name :: string
  cf_filter_namespace :: string
  cf_filter_name :: string
  cf_filter_port :: int
  cf_networks :: string

datatype run_error =
    NoRedisFlag
  | NoNamespace
  | NetworkFlag radius_error
  | OneEndpoint nat
  | Environment

text \<open>The loop over the comma-separated networks, the same in all three commands\<close>

fun lookup_all :: "string list \<Rightarrow> (run_error, profile list) result" where
  "lookup_all [] = Inr []"
| "lookup_all (n # ns) =
     bind_r (map_err NetworkFlag (lookup (trim_space n))) (\<lambda>p.
     bind_r (lookup_all ns) (\<lambda>ps. Inr (p # ps)))"

definition networks_of :: "string \<Rightarrow> (run_error, profile list) result" where
  "networks_of s = lookup_all (split_all (CHR '','') s)"

text \<open>A URL flag replaces the profile's own endpoint.\<close>

definition override :: "string \<Rightarrow> string \<Rightarrow> string" where
  "override flag own = (if flag \<noteq> [] then flag else own)"

section \<open>The settler\<close>

record settler_parts =
  sp_settler :: settler
  sp_consumer :: string
  sp_facilitators :: "(string \<times> string) list"
  sp_rpcs :: "(string \<times> string) list"

definition settler_run :: "settler_flags \<Rightarrow> string \<Rightarrow> (run_error, settler_parts) result" where
  "settler_run f hostname =
     (if sf_redis f = [] then Inl NoRedisFlag
      else
     bind_r (networks_of (sf_networks f)) (\<lambda>nets.
        if (sf_facilitator_url f \<noteq> [] \<or> sf_rpc_url f \<noteq> []) \<and> length nets \<noteq> 1
        then Inl (OneEndpoint (length nets))
        else
          let facs = fold (\<lambda>p. AList.update (network p) (override (sf_facilitator_url f) (p_facilitator p))) nets [];
              rpcs = fold (\<lambda>p. AList.update (network p) (override (sf_rpc_url f) (p_rpc p))) nets []
          in Inr \<lparr>sp_settler =
                    \<lparr>sl_facilitators = map fst facs, sl_rpcs = map fst rpcs, sl_group = [], sl_block = 0,
                     sl_count = 0, sl_claimEvery = 0, sl_minIdle = sf_min_idle f, sl_maxDeliveries = 0,
                     sl_settleTimeout = sf_settle_timeout f\<rparr>,
                  sp_consumer = (if sf_consumer f = [] then hostname else sf_consumer f),
                  sp_facilitators = facs, sp_rpcs = rpcs\<rparr>))"

text \<open>\<open>/healthz\<close> and \<open>/readyz\<close>, the latter by one Redis ping\<close>

definition settler_healthz :: int where "settler_healthz = 200"

definition settler_readyz :: "bool \<Rightarrow> int" where
  "settler_readyz ping = (if ping then 200 else 503)"

section \<open>The filter\<close>

record filter_parts =
  fp_watcher :: watcher
  fp_payments :: "payments option"
  fp_deadline :: int
  fp_rpcs :: "(string \<times> string) list"

definition filter_run :: "filter_flags \<Rightarrow> bool \<Rightarrow> (run_error, filter_parts) result" where
  "filter_run f environment =
     bind_r (networks_of (fl_networks f)) (\<lambda>nets.
       if fl_namespace f = [] then Inl NoNamespace
       else if fl_rpc_url f \<noteq> [] \<and> length nets \<noteq> 1 then Inl (OneEndpoint (length nets))
       else if \<not> environment then Inl Environment
       else
         let balances = fold (\<lambda>p. AList.update (network p)
               \<lparr>ca_token = SBCAddress, ca_fresh = fl_fresh f, ca_last_known = fl_last_known f\<rparr>) nets [];
             rpcs = fold (\<lambda>p. AList.update (network p) (override (fl_rpc_url f) (p_rpc p))) nets []
         in Inr \<lparr>fp_watcher = \<lparr>wt_namespace = fl_namespace f, wt_name = fl_configmap f, wt_networks = nets\<rparr>,
                 fp_payments =
                   (if fl_redis f \<noteq> []
                    then Some \<lparr>pm_balances = balances, pm_reserve = \<lparr>rc_inflight_ttl = 0, rc_nonce_margin = 0\<rparr>\<rparr>
                    else None),
                 fp_deadline = fl_deadline f,
                 fp_rpcs = (if fl_redis f \<noteq> [] then rpcs else [])\<rparr>)"

text \<open>The one object \<open>Run\<close> lists and watches: a client for one namespace, and a selector on the name\<close>

definition selects :: "watcher \<Rightarrow> json \<Rightarrow> bool" where
  "selects w obj \<longleftrightarrow>
     nested obj [''metadata'', ''namespace''] = Some (JStr (wt_namespace w)) \<and>
     nested obj [''metadata'', ''name''] = Some (JStr (wt_name w))"

section \<open>The controller\<close>

definition controller_run :: "controller_flags \<Rightarrow> bool \<Rightarrow> (run_error, controller) result" where
  "controller_run f environment =
     (if cf_prices_namespace f = [] then Inl NoNamespace
      else
     bind_r (networks_of (cf_networks f)) (\<lambda>profiles.
        if \<not> environment then Inl Environment
        else Inr \<lparr>ct_filter =
                    \<lparr>bk_namespace =
                       (if cf_filter_namespace f = [] then cf_prices_namespace f else cf_filter_namespace f),
                     bk_name = cf_filter_name f, bk_port = cf_filter_port f\<rparr>,
                  ct_prices_namespace = cf_prices_namespace f, ct_prices_name = cf_prices_name f,
                  ct_grant_name = cf_grant_name f, ct_networks = profiles\<rparr>))"

section \<open>Readiness\<close>

datatype serving = Serving | NotServing

text \<open>
  The state is the loop's \<open>ready\<close> and the statuses it has set, the newest first; the server
  starts with \<open>NotServing\<close>.  A check is one ping, which counts only when Redis is configured.
\<close>

type_synonym readiness = "bool \<times> serving list"

definition ready_check :: "bool \<Rightarrow> bool \<Rightarrow> readiness \<Rightarrow> readiness" where
  "ready_check redis ping st =
     (let ok = (if redis then ping else True)
      in if ok = fst st then st
         else (ok, (if ok then Serving else NotServing) # snd st))"

definition readiness_loop :: "bool \<Rightarrow> bool \<Rightarrow> bool list \<Rightarrow> readiness" where
  "readiness_loop redis loaded pings =
     (if \<not> loaded then (False, [NotServing])
      else fold (ready_check redis) pings (False, [NotServing]))"

section \<open>The RPC keepalive\<close>

text \<open>
  One call at once, then one per tick until the context ends; a ticker of no positive
  interval panics.  The result is the error of each call that failed.
\<close>

datatype 'a may_panic = Panics | Returns 'a

definition keep_warm :: "int \<Rightarrow> http \<Rightarrow> http list \<Rightarrow> rpc_error list may_panic" where
  "keep_warm every first ticks =
     (if every \<le> 0 then Panics
      else Returns (concat (map (\<lambda>h. case chain_id h of Inl e \<Rightarrow> [e] | Inr _ \<Rightarrow> []) (first # ticks))))"

section \<open>Lemmas: networks\<close>

lemma lookup_all_Inr:
  "lookup_all ns = Inr ps \<longleftrightarrow> list_all2 (\<lambda>n p. lookup (trim_space n) = Inr p) ns ps"
proof (induction ns arbitrary: ps)
  case (Cons n ns)
  show ?case
    by (cases ps) (auto simp only: lookup_all.simps bind_r_eq_Inr map_err_eq_Inr Cons.IH list_all2_Cons
        list_all2_Cons1 list.inject list.distinct sum.inject)
qed auto

lemma lookup_profile: "lookup n = Inr p \<longleftrightarrow> n = p_name p \<and> p \<in> {Testnet, Mainnet}"
proof -
  have "p_name Testnet \<noteq> p_name Mainnet" by (simp add: Testnet_def Mainnet_def)
  then show ?thesis unfolding lookup_def by (auto split: if_splits)
qed

lemma networks_of_Inr:
  assumes "networks_of s = Inr ps"
  shows "set ps \<subseteq> {Testnet, Mainnet}" "ps \<noteq> []"
proof -
  have l: "list_all2 (\<lambda>n p. lookup (trim_space n) = Inr p) (split_all (CHR '','') s) ps"
    using assms by (simp add: networks_of_def lookup_all_Inr)
  then show "set ps \<subseteq> {Testnet, Mainnet}"
    by (induction rule: list_all2_induct) (auto simp: lookup_profile)
  have "split_all (CHR '','') s \<noteq> []"
    by (cases s) (auto simp: split_all_def split: prod.splits)
  with l show "ps \<noteq> []" by auto
qed

lemma network_profile_inject:
  assumes "p \<in> {Testnet, Mainnet}" "q \<in> {Testnet, Mainnet}" "network p = network q"
  shows "p = q"
  using assms by (auto simp: network_testnet network_mainnet)

text \<open>The maps the commands build: one entry per network, whatever the order and the repeats.\<close>

lemma map_of_fold_update:
  "map_of (fold (\<lambda>p. AList.update (f p) (g p)) ps xs) k =
     (case find (\<lambda>p. f p = k) (rev ps) of None \<Rightarrow> map_of xs k | Some p \<Rightarrow> Some (g p))"
proof (induction ps arbitrary: xs)
  case (Cons p ps)
  have "find (\<lambda>p. f p = k) (rev ps @ [p]) =
      (case find (\<lambda>p. f p = k) (rev ps) of None \<Rightarrow> if f p = k then Some p else None | Some q \<Rightarrow> Some q)"
    by (simp add: find_append split: option.splits)
  with Cons [of "AList.update (f p) (g p) xs"] show ?case
    by (auto simp: update_conv' split: option.splits)
qed simp

lemma map_of_networks:
  assumes "set nets \<subseteq> {Testnet, Mainnet}" "p \<in> set nets"
  shows "map_of (fold (\<lambda>p. AList.update (network p) (g p)) nets []) (network p) = Some (g p)"
proof (cases "find (\<lambda>q. network q = network p) (rev nets)")
  case None
  with assms show ?thesis by (auto simp: find_None_iff)
next
  case (Some q)
  then have "q \<in> set (rev nets)" "network q = network p" by (auto simp only: find_Some_iff nth_mem)
  then have "q \<in> set nets" "network q = network p" by simp_all
  with assms have "q = p" using network_profile_inject [of q p] by blast
  with Some show ?thesis by (simp add: map_of_fold_update)
qed

lemma keys_of_networks: "fst ` set (fold (\<lambda>p. AList.update (network p) (g p)) nets xs) =
    fst ` set xs \<union> network ` set nets"
  by (induction nets arbitrary: xs) (auto simp: update_keys [unfolded set_map] dom_update)

section \<open>Lemmas: the parts\<close>

lemma filter_run_Inr:
  assumes "filter_run f env = Inr fp"
  obtains nets where "networks_of (fl_networks f) = Inr nets" "wt_networks (fp_watcher fp) = nets"
    "wt_name (fp_watcher fp) = fl_configmap f" "fp_payments fp = None \<longleftrightarrow> fl_redis f = []"
    "\<And>pays p. fp_payments fp = Some pays \<Longrightarrow> p \<in> set nets \<Longrightarrow> map_of (pm_balances pays) (network p) =
       Some \<lparr>ca_token = SBCAddress, ca_fresh = fl_fresh f, ca_last_known = fl_last_known f\<rparr>"
    "wt_namespace (fp_watcher fp) = fl_namespace f"
proof -
  obtain nets where n: "networks_of (fl_networks f) = Inr nets" and fp:
    "fp = \<lparr>fp_watcher = \<lparr>wt_namespace = fl_namespace f, wt_name = fl_configmap f, wt_networks = nets\<rparr>,
       fp_payments = (if fl_redis f \<noteq> []
         then Some \<lparr>pm_balances = fold (\<lambda>p. AList.update (network p)
               \<lparr>ca_token = SBCAddress, ca_fresh = fl_fresh f, ca_last_known = fl_last_known f\<rparr>) nets [],
             pm_reserve = \<lparr>rc_inflight_ttl = 0, rc_nonce_margin = 0\<rparr>\<rparr> else None),
       fp_deadline = fl_deadline f, fp_rpcs = fp_rpcs fp\<rparr>"
    using assms by (auto simp: filter_run_def bind_r_eq_Inr Let_def split: if_splits)
  note m = map_of_networks [OF networks_of_Inr(1) [OF n]]
  show thesis
  proof (rule that [of nets])
    fix pays p assume "fp_payments fp = Some pays" "p \<in> set nets"
    then show "map_of (pm_balances pays) (network p) =
       Some \<lparr>ca_token = SBCAddress, ca_fresh = fl_fresh f, ca_last_known = fl_last_known f\<rparr>"
      by (subst (asm) fp) (auto simp: m split: if_splits)
  qed (rule n, (subst fp, simp)+)
qed

lemma controller_run_Inr:
  "controller_run f env = Inr ct \<longleftrightarrow>
     cf_prices_namespace f \<noteq> [] \<and> env \<and>
     (\<exists>nets. networks_of (cf_networks f) = Inr nets \<and>
       ct = \<lparr>ct_filter =
               \<lparr>bk_namespace =
                  (if cf_filter_namespace f = [] then cf_prices_namespace f else cf_filter_namespace f),
                bk_name = cf_filter_name f, bk_port = cf_filter_port f\<rparr>,
             ct_prices_namespace = cf_prices_namespace f, ct_prices_name = cf_prices_name f,
             ct_grant_name = cf_grant_name f, ct_networks = nets\<rparr>)"
  by (auto simp: controller_run_def bind_r_eq_Inr split: if_splits)

lemma settler_run_Inr:
  assumes "settler_run f host = Inr sp"
  obtains nets where "networks_of (sf_networks f) = Inr nets"
    "\<And>p. p \<in> set nets \<Longrightarrow> map_of (sp_facilitators sp) (network p) =
       Some (override (sf_facilitator_url f) (p_facilitator p))"
    "\<And>p. p \<in> set nets \<Longrightarrow> map_of (sp_rpcs sp) (network p) = Some (override (sf_rpc_url f) (p_rpc p))"
    "set (sl_facilitators (sp_settler sp)) = network ` set nets" "set (sl_rpcs (sp_settler sp)) = network ` set nets"
    "sf_facilitator_url f \<noteq> [] \<or> sf_rpc_url f \<noteq> [] \<Longrightarrow> length nets = 1"
proof -
  obtain nets where n: "networks_of (sf_networks f) = Inr nets"
    and one: "\<not> ((sf_facilitator_url f \<noteq> [] \<or> sf_rpc_url f \<noteq> []) \<and> length nets \<noteq> 1)"
    and f: "sp_facilitators sp =
       fold (\<lambda>p. AList.update (network p) (override (sf_facilitator_url f) (p_facilitator p))) nets []"
      "sp_rpcs sp = fold (\<lambda>p. AList.update (network p) (override (sf_rpc_url f) (p_rpc p))) nets []"
      "sl_facilitators (sp_settler sp) = map fst (sp_facilitators sp)"
      "sl_rpcs (sp_settler sp) = map fst (sp_rpcs sp)"
    using assms by (auto simp: settler_run_def bind_r_eq_Inr Let_def split: if_splits)
  note m = map_of_networks [OF networks_of_Inr(1) [OF n]]
  show thesis
    by (rule that [OF n]) (use one in \<open>simp_all add: f m keys_of_networks\<close>)
qed

text \<open>The loop's last status is the last check's, and it sets a status only on a change.\<close>

lemma readiness_invariant:
  "case fold (ready_check redis) pings (False, [NotServing]) of (r, hist) \<Rightarrow>
     hist \<noteq> [] \<and> hd hist = (if r then Serving else NotServing) \<and> distinct_adj hist \<and>
     r = (pings \<noteq> [] \<and> (redis \<longrightarrow> last pings))"
proof (induction pings rule: rev_induct)
  case (snoc p ps)
  then show ?case
    by (auto simp: ready_check_def Let_def distinct_adj_Cons neq_Nil_conv split: prod.splits if_splits)
qed simp

text \<open>A request to a priced route when payments are off\<close>

lemma no_payments_paywall:
  assumes "route_key (route_attribute attrs) = Some k" "ph_table ph = Some table" "price_lookup (Some table) k = Some e"
  shows "\<exists>st' r d. request_headers C R page None ph attrs h st s = (s, st', r, d) \<and>
    d \<in> {PaymentRequired, PaymentPresentUnverified, PaywallError} \<and> q_rsv st' = q_rsv st \<and>
    (\<forall>m. r \<noteq> ContinueRequest m)"
  using assms
  by (auto simp: request_headers_def Let_def paywall_reply_def plain_def immediate_def split: option.splits)

section \<open>Sample flags\<close>

lemma demo_networks_flag: "networks_of ''testnet'' = Inr [Testnet]"
proof -
  have "trim_space ''testnet'' = ''testnet''" by (rule trim_space_id) auto
  then show ?thesis
    by (simp add: networks_of_def split_all_def cut_at_def lookup_profile [THEN iffD2] Testnet_def lookup_def)
qed

definition demo_filter_flags :: filter_flags where
  "demo_filter_flags =
     \<lparr>fl_namespace = ''x402'', fl_configmap = ''prices'', fl_networks = ''testnet'', fl_redis = ''redis:6379'',
      fl_rpc_url = [], fl_deadline = 250 * msec, fl_fresh = 0, fl_last_known = 0\<rparr>"

definition demo_controller_flags :: controller_flags where
  "demo_controller_flags =
     \<lparr>cf_prices_namespace = ''x402'', cf_prices_name = ''prices'', cf_grant_name = ''grant'',
      cf_filter_namespace = [], cf_filter_name = ''filter'', cf_filter_port = 9002, cf_networks = ''testnet''\<rparr>"

definition demo_settler_flags :: settler_flags where
  "demo_settler_flags =
     \<lparr>sf_redis = ''redis:6379'', sf_networks = ''testnet'', sf_consumer = ''s1'', sf_facilitator_url = [],
      sf_rpc_url = [], sf_settle_timeout = 0, sf_min_idle = 0\<rparr>"

lemma demo_controller_runs: "controller_run demo_controller_flags True = Inr demo_controller"
  by (simp add: controller_run_def demo_controller_flags_def demo_networks_flag demo_controller_def)

lemma demo_filter_runs:
  obtains fp where "filter_run demo_filter_flags True = Inr fp" "fp_watcher fp = demo_watcher"
    "fp_payments fp \<noteq> None"
  by (simp add: filter_run_def demo_filter_flags_def demo_networks_flag demo_watcher_def Let_def)

lemma demo_settler_runs:
  obtains sp where "settler_run demo_settler_flags ''node'' = Inr sp"
  by (simp add: settler_run_def demo_settler_flags_def demo_networks_flag Let_def)

section \<open>Properties\<close>

text \<open>
  C32: from the policies to the filter's prices.  A controller and a filter started with
  the same network flag and ConfigMap name agree: whatever UTF-8 policies are in the
  cluster, after a successful projection the filter's watcher holds for each route the
  entry of the last valid policy of an existing route that targets it, and no other price;
  and the grant the controller wrote names exactly those policies' namespaces.
\<close>

theorem policies_reach_the_filter:
  assumes "controller_run cf env = Inr ct" "filter_run ff env' = Inr fp"
    and "cf_networks cf = fl_networks ff" "cf_prices_name cf = fl_configmap ff"
    and "cl_policies K ws = Some pps" "\<forall>pp \<in> set pps. utf8_policy pp"
    and "project C ip ct K ws = (ws', Inr ())"
  shows "\<exists>tx nss.
    ws' = ws @ [Apply (desired_configmap (cf_prices_namespace cf) (fl_configmap ff) tx),
      (if nss = [] then DeleteGrant else Apply) (desired_grant (ct_filter ct) (cf_grant_name cf) nss)] \<and>
    (\<forall>k. price_lookup (st_table (fst (watch_step C ip (fp_watcher fp)
         (Applied (Some \<lparr>cm_name = fl_configmap ff, cm_data = [(ConfigMapKey, tx)]\<rparr>)) s))) k =
       Option.bind (last_priced C ip (ct_networks ct) (cl_route K ws) pps k) (filter_entry C ip (ct_networks ct))) \<and>
    set nss = pl_namespace ` {pp \<in> set pps. priced C ip (ct_networks ct) (cl_route K ws) pp}"
proof -
  obtain nets where c: "networks_of (cf_networks cf) = Inr nets" "ct_networks ct = nets"
    "ct_prices_namespace ct = cf_prices_namespace cf" "ct_prices_name ct = fl_configmap ff"
    "ct_grant_name ct = cf_grant_name cf"
    using assms(1,4) by (auto simp: controller_run_Inr)
  have w: "wt_name (fp_watcher fp) = fl_configmap ff" "wt_networks (fp_watcher fp) = ct_networks ct"
    using c(1,2) assms(3) by (auto intro: filter_run_Inr [OF assms(2)])
  from filter_charges_what_the_policies_say [OF assms(5-7) w(1) [folded c(4)] w(2), of s]
  show ?thesis unfolding c(3-5) .
qed

theorem policies_reach_the_filter_witness:
  "\<exists>tx nss ws s.
    ws = [Apply (desired_configmap ''x402'' ''prices'' tx),
      (if nss = [] then DeleteGrant else Apply) (desired_grant (ct_filter demo_controller) ''grant'' nss)] \<and>
    price_lookup (st_table (fst (watch_step demo_crypto (\<lambda>_. None) demo_watcher
         (Applied (Some \<lparr>cm_name = ''prices'', cm_data = [(ConfigMapKey, tx)]\<rparr>)) s))) ''httproute/a/b'' =
       Some demo_entry \<and> set nss = {''a''}"
proof -
  let ?K = "demo_cluster [demo_policy] JNull"
  obtain fp where f: "filter_run demo_filter_flags True = Inr fp" "fp_watcher fp = demo_watcher"
    by (rule demo_filter_runs)
  have g: "cf_networks demo_controller_flags = fl_networks demo_filter_flags"
    "cf_prices_name demo_controller_flags = fl_configmap demo_filter_flags"
    by (simp_all add: demo_controller_flags_def demo_filter_flags_def)
  have a: "\<forall>pp \<in> set [demo_policy]. utf8_policy pp" by (simp add: demo_policy_utf8)
  from demo_project [OF a] obtain ws where
    p: "project demo_crypto (\<lambda>_. None) demo_controller ?K [] = (ws, Inr ())" by blast
  have d: "cf_prices_namespace demo_controller_flags = ''x402''" "cf_grant_name demo_controller_flags = ''grant''"
    "fl_configmap demo_filter_flags = ''prices''"
    by (simp_all add: demo_controller_flags_def demo_filter_flags_def)
  from policies_reach_the_filter [OF demo_controller_runs f(1) g demo_cluster_simps(1) a p, of new_store]
  obtain tx nss where
    t: "ws = [Apply (desired_configmap ''x402'' ''prices'' tx),
      (if nss = [] then DeleteGrant else Apply) (desired_grant (ct_filter demo_controller) ''grant'' nss)]"
    and k: "\<forall>k. price_lookup (st_table (fst (watch_step demo_crypto (\<lambda>_. None) demo_watcher
         (Applied (Some \<lparr>cm_name = ''prices'', cm_data = [(ConfigMapKey, tx)]\<rparr>)) new_store))) k =
       Option.bind (last_priced demo_crypto (\<lambda>_. None) [Testnet] (cl_route ?K []) [demo_policy] k)
         (filter_entry demo_crypto (\<lambda>_. None) [Testnet])"
    and "set nss = pl_namespace ` {pp \<in> set [demo_policy]. priced demo_crypto (\<lambda>_. None) [Testnet] (cl_route ?K []) pp}"
    unfolding demo_networks f(2) d append_Nil by blast
  then have "set nss = {''a''}" by (auto simp: priced_def demo_policy_valid demo_policy_simps)
  moreover have "last_priced demo_crypto (\<lambda>_. None) [Testnet] (cl_route ?K []) [demo_policy] ''httproute/a/b'' =
      Some demo_policy"
    by (simp add: last_priced_def priced_def demo_policy_valid demo_policy_simps)
  moreover have "filter_entry demo_crypto (\<lambda>_. None) [Testnet] demo_policy = Some demo_entry"
    by (simp add: filter_entry_def demo_policy_simps demo_validates)
  ultimately show ?thesis using t k by (metis Option.bind.simps(2))
qed

text \<open>
  The filter can check every price it loads.  After any watch events, a price the
  request path finds is on a network for which the started filter has a balance cache of
  the SBC contract, unless payments are off; then the request is answered, without a
  reservation, by the paywall.
\<close>

theorem filter_can_check_every_price:
  assumes "filter_run f env = Inr fp"
    and "price_lookup (st_table (watch_run C ip (fp_watcher fp) evs new_store)) k = Some e"
    and "ph_table ph = st_table (watch_run C ip (fp_watcher fp) evs new_store)"
    and "route_key (route_attribute attrs) = Some k"
  shows "case fp_payments fp of
      Some p \<Rightarrow> \<exists>c. map_of (pm_balances p) (network (pe_network e)) = Some c \<and> ca_token c = SBCAddress
    | None \<Rightarrow> fl_redis f = [] \<and>
        (\<exists>st' r d. request_headers C R page (fp_payments fp) ph attrs h st s = (s, st', r, d) \<and>
          d \<in> {PaymentRequired, PaymentPresentUnverified, PaywallError} \<and> q_rsv st' = q_rsv st \<and>
          (\<forall>m. r \<noteq> ContinueRequest m))"
proof -
  obtain nets where n: "networks_of (fl_networks f) = Inr nets" "wt_networks (fp_watcher fp) = nets"
    "wt_name (fp_watcher fp) = fl_configmap f" "fp_payments fp = None \<longleftrightarrow> fl_redis f = []"
    "\<And>pays p. fp_payments fp = Some pays \<Longrightarrow> p \<in> set nets \<Longrightarrow> map_of (pm_balances pays) (network p) =
       Some \<lparr>ca_token = SBCAddress, ca_fresh = fl_fresh f, ca_last_known = fl_last_known f\<rparr>"
    "wt_namespace (fp_watcher fp) = fl_namespace f"
    by (rule filter_run_Inr [OF assms(1)]) (rule that)
  have e: "pe_network e \<in> set nets"
    using watch_run_entries [OF _ assms(2)] n(2) by (simp add: new_store_def price_lookup_def entry_ok_def)
  show ?thesis
  proof (cases "fp_payments fp")
    case None
    obtain table where "ph_table ph = Some table" "price_lookup (Some table) k = Some e"
      using assms(2) unfolding assms(3) [symmetric]
      by (cases "ph_table ph") (simp_all add: price_lookup_def)
    from no_payments_paywall [OF assms(4) this] None n(4) show ?thesis by simp
  next
    case (Some p)
    with n(5) [OF Some e] show ?thesis by simp
  qed
qed

theorem filter_can_check_every_price_witness:
  "\<exists>fp p c. filter_run demo_filter_flags True = Inr fp \<and> fp_payments fp = Some p \<and>
     map_of (pm_balances p) (network (pe_network demo_entry)) = Some c \<and> ca_token c = SBCAddress"
proof -
  obtain fp where f: "filter_run demo_filter_flags True = Inr fp" "fp_watcher fp = demo_watcher"
    "fp_payments fp \<noteq> None" by (rule demo_filter_runs)
  have st: "st_table (watch_run demo_crypto (\<lambda>_. None) (fp_watcher fp) [demo_event] new_store) =
      Some [(''httproute/a/b'', demo_entry)]"
    by (simp add: f(2) watch_run_def watch_step_store demo_event_table store_set_def)
  have l: "price_lookup (st_table (watch_run demo_crypto (\<lambda>_. None) (fp_watcher fp) [demo_event] new_store))
      ''httproute/a/b'' = Some demo_entry" by (simp add: st price_lookup_def)
  have t: "ph_table demo_phase = st_table (watch_run demo_crypto (\<lambda>_. None) (fp_watcher fp) [demo_event] new_store)"
    by (simp add: st demo_phase_def)
  have k: "route_key (route_attribute demo_attrs) = Some ''httproute/a/b''"
    using demo_route_key by (simp add: demo_attrs_def route_attribute_def)
  from filter_can_check_every_price [OF f(1) l t k, where page = "\<lambda>_. None" and h = "[]" and st = new_request
      and s = empty_mem] f
  show ?thesis by (auto split: option.splits)
qed

text \<open>
  The settler can settle every price the filter charges.  With the same network flag,
  a job of any price the filter has loaded names a network for which the started settler
  has a facilitator and an RPC endpoint, the profile's own or the flag's.
\<close>

theorem settler_can_settle_every_price:
  assumes "filter_run f env = Inr fp" "settler_run sf host = Inr sp" "fl_networks f = sf_networks sf"
    and "price_lookup (st_table (watch_run C ip (fp_watcher fp) evs new_store)) k = Some e"
  shows "network (pe_network e) \<in> set (sl_facilitators (sp_settler sp)) \<and>
    network (pe_network e) \<in> set (sl_rpcs (sp_settler sp)) \<and>
    map_of (sp_facilitators sp) (network (pe_network e)) =
      Some (override (sf_facilitator_url sf) (p_facilitator (pe_network e))) \<and>
    map_of (sp_rpcs sp) (network (pe_network e)) = Some (override (sf_rpc_url sf) (p_rpc (pe_network e)))"
proof -
  obtain nets where n: "networks_of (fl_networks f) = Inr nets" "wt_networks (fp_watcher fp) = nets"
    by (rule filter_run_Inr [OF assms(1)]) (rule that)
  have e: "pe_network e \<in> set nets"
    using watch_run_entries [OF _ assms(4)] n(2) by (simp add: new_store_def price_lookup_def entry_ok_def)
  obtain nets' where s: "networks_of (sf_networks sf) = Inr nets'"
    "\<And>p. p \<in> set nets' \<Longrightarrow> map_of (sp_facilitators sp) (network p) =
       Some (override (sf_facilitator_url sf) (p_facilitator p))"
    "\<And>p. p \<in> set nets' \<Longrightarrow> map_of (sp_rpcs sp) (network p) = Some (override (sf_rpc_url sf) (p_rpc p))"
    "set (sl_facilitators (sp_settler sp)) = network ` set nets'" "set (sl_rpcs (sp_settler sp)) = network ` set nets'"
    by (rule settler_run_Inr [OF assms(2)]) (rule that)
  from n(1) s(1) assms(3) have "nets' = nets" by simp
  with e s(2-5) show ?thesis by simp
qed

theorem settler_can_settle_every_price_witness:
  "\<exists>sp. settler_run demo_settler_flags ''node'' = Inr sp \<and>
     network (pe_network demo_entry) \<in> set (sl_facilitators (sp_settler sp))"
proof -
  obtain fp where f: "filter_run demo_filter_flags True = Inr fp" "fp_watcher fp = demo_watcher"
    by (rule demo_filter_runs)
  obtain sp where s: "settler_run demo_settler_flags ''node'' = Inr sp" by (rule demo_settler_runs)
  have n: "fl_networks demo_filter_flags = sf_networks demo_settler_flags"
    by (simp add: demo_filter_flags_def demo_settler_flags_def)
  have l: "price_lookup (st_table (watch_run demo_crypto (\<lambda>_. None) (fp_watcher fp) [demo_event] new_store))
      ''httproute/a/b'' = Some demo_entry"
    by (simp add: f(2) watch_run_def watch_step_store demo_event_table store_set_def price_lookup_def)
  from settler_can_settle_every_price [OF f(1) s n l] s show ?thesis by blast
qed

text \<open>
  The filter reports itself ready exactly while it can answer.  Before the first price
  table it does not serve; after it the status is the last Redis ping's, or serving when
  there is no Redis; and no status is set twice in a row.
\<close>

theorem readiness_follows_redis:
  "(hd (snd (readiness_loop redis loaded pings)) = Serving \<longleftrightarrow>
     loaded \<and> pings \<noteq> [] \<and> (if redis then last pings else True)) \<and>
   distinct_adj (snd (readiness_loop redis loaded pings))"
  using readiness_invariant [where redis = redis and pings = pings]
  by (auto simp: readiness_loop_def split: prod.splits if_splits)

end
