(* ===== verification/GoFlag.thy ===== *)
theory GoFlag
  imports GoText
begin

text \<open>
  Go's \<open>flag\<close> package as the four commands use it: the loop of \<open>FlagSet.Parse\<close> over the
  arguments, and the values of boolean, integer and duration flags (\<open>strconv.ParseBool\<close>,
  \<open>strconv.ParseInt\<close> with base 0, \<open>time.ParseDuration\<close>).  A flag is a name and a setter on the
  command's configuration.
\<close>

section \<open>Booleans\<close>

definition parse_bool :: "string \<Rightarrow> bool option" where
  "parse_bool s =
     (if s \<in> {''1'', ''t'', ''T'', ''true'', ''TRUE'', ''True''} then Some True
      else if s \<in> {''0'', ''f'', ''F'', ''false'', ''FALSE'', ''False''} then Some False
      else None)"

section \<open>Integers with a base prefix\<close>

definition num_base :: "string \<Rightarrow> nat \<times> string" where
  "num_base s =
     (if s = [] \<or> hd s \<noteq> CHR ''0'' then (10, s)
      else if 3 \<le> length s \<and> to_lower_char (s ! 1) = CHR ''b'' then (2, drop 2 s)
      else if 3 \<le> length s \<and> to_lower_char (s ! 1) = CHR ''o'' then (8, drop 2 s)
      else if 3 \<le> length s \<and> to_lower_char (s ! 1) = CHR ''x'' then (16, drop 2 s)
      else (8, drop 1 s))"

definition alnum_val :: "char \<Rightarrow> nat option" where
  "alnum_val c =
     (if is_digit c then Some (digit_val c)
      else if is_lower (to_lower_char c) then Some (code (to_lower_char c) - 97 + 10)
      else None)"

text \<open>The digits, underscores skipped; \<open>None\<close> is a bad digit or a value above 64 bits.\<close>

fun base_digits :: "nat \<Rightarrow> nat \<Rightarrow> string \<Rightarrow> nat option" where
  "base_digits base n [] = Some n"
| "base_digits base n (c # s) =
     (if c = CHR ''_'' then base_digits base n s
      else (case alnum_val c of
              None \<Rightarrow> None
            | Some d \<Rightarrow>
                if base \<le> d \<or> 2 ^ 64 \<le> n * base + d then None else base_digits base (n * base + d) s))"

text \<open>
  \<open>underscoreOK\<close>: an underscore only between digits, or between the base prefix and a digit.
  The first argument is the kind of the character before: start, digit, underscore, other.
\<close>

datatype seen = SeenStart | SeenDigit | SeenUnderscore | SeenOther

fun underscores_ok :: "bool \<Rightarrow> seen \<Rightarrow> string \<Rightarrow> bool" where
  "underscores_ok hex saw [] \<longleftrightarrow> saw \<noteq> SeenUnderscore"
| "underscores_ok hex saw (c # s) \<longleftrightarrow>
     (if is_digit c \<or> (hex \<and> is_lower (to_lower_char c) \<and> code (to_lower_char c) \<le> 102)
      then underscores_ok hex SeenDigit s
      else if c = CHR ''_'' then saw = SeenDigit \<and> underscores_ok hex SeenUnderscore s
      else saw \<noteq> SeenUnderscore \<and> underscores_ok hex SeenOther s)"

definition underscore_ok :: "string \<Rightarrow> bool" where
  "underscore_ok s \<longleftrightarrow>
     (if 2 \<le> length s \<and> hd s = CHR ''0'' \<and> to_lower_char (s ! 1) \<in> set ''box''
      then underscores_ok (to_lower_char (s ! 1) = CHR ''x'') SeenDigit (drop 2 s)
      else underscores_ok False SeenStart s)"

definition parse_uint0 :: "string \<Rightarrow> nat option" where
  "parse_uint0 s =
     (if s = [] then None
      else case num_base s of (base, ds) \<Rightarrow>
        (case base_digits base 0 ds of
           None \<Rightarrow> None
         | Some n \<Rightarrow> if CHR ''_'' \<in> set ds \<and> \<not> underscore_ok s then None else Some n))"

definition parse_int0 :: "string \<Rightarrow> int option" where
  "parse_int0 s =
     (let neg = (s \<noteq> [] \<and> hd s = CHR ''-'');
          ds = (if s \<noteq> [] \<and> (hd s = CHR ''-'' \<or> hd s = CHR ''+'') then tl s else s)
      in case parse_uint0 ds of
           None \<Rightarrow> None
         | Some n \<Rightarrow>
             if neg then (if n \<le> 2 ^ 63 then Some (- int n) else None)
             else if n < 2 ^ 63 then Some (int n) else None)"

section \<open>Durations\<close>

text \<open>\<open>n / d\<close> as a double (positive, in its normal range), again as a fraction\<close>

definition dbl_ratio :: "nat \<times> nat \<Rightarrow> nat \<times> nat" where
  "dbl_ratio r =
     (case r of (n, d) \<Rightarrow>
        let at = (\<lambda>k. if 0 \<le> k then round_even (n * 2 ^ nat k) d else round_even n (d * 2 ^ nat (- k)));
            k0 = 53 + int (bits d) - int (bits n);
            k = (if (if 0 \<le> k0 then d * 2 ^ 53 \<le> n * 2 ^ nat k0 else d * 2 ^ (53 + nat (- k0)) \<le> n)
                 then k0 - 1 else k0)
        in if 0 \<le> k then (at k, 2 ^ nat k) else (at k * 2 ^ nat (- k), 1))"

text \<open>\<open>uint64(float64(f) * (float64(unit) / scale))\<close>\<close>

definition fraction_ns :: "nat \<Rightarrow> nat \<Rightarrow> nat \<Rightarrow> nat" where
  "fraction_ns f unit scale =
     (case dbl_ratio (f, 1) of (a, b) \<Rightarrow> case dbl_ratio (unit, scale) of (c, d) \<Rightarrow>
        case dbl_ratio (a * c, b * d) of (n, m) \<Rightarrow> n div m)"

fun leading_int :: "nat \<Rightarrow> string \<Rightarrow> nat option" where
  "leading_int x [] = Some x"
| "leading_int x (c # s) =
     (if 2 ^ 63 div 10 < x \<or> 2 ^ 63 < 10 * x + digit_val c then None
      else leading_int (10 * x + digit_val c) s)"

text \<open>The fraction's digits and scale; digits past the range of 63 bits are dropped.\<close>

fun leading_fraction :: "nat \<Rightarrow> nat \<Rightarrow> string \<Rightarrow> nat \<times> nat" where
  "leading_fraction x scale [] = (x, scale)"
| "leading_fraction x scale (c # s) =
     (if (2 ^ 63 - 1) div 10 < x \<or> 2 ^ 63 < 10 * x + digit_val c then (x, scale)
      else leading_fraction (10 * x + digit_val c) (scale * 10) s)"

definition unit_map :: "(string \<times> nat) list" where
  "unit_map =
     [(''ns'', 1), (''us'', 1000), ([CHR 0xC2, CHR 0xB5, CHR ''s''], 1000),
      ([CHR 0xCE, CHR 0xBC, CHR ''s''], 1000), (''ms'', 1000000), (''s'', 1000000000),
      (''m'', 60 * 1000000000), (''h'', 3600 * 1000000000)]"

definition numeric :: "char \<Rightarrow> bool" where
  "numeric c \<longleftrightarrow> c = CHR ''.'' \<or> is_digit c"

text \<open>One number with its unit: whole digits, fraction digits, unit, and what follows\<close>

definition duration_token :: "string \<Rightarrow> string \<times> string \<times> string \<times> string" where
  "duration_token s =
     (let r = dropWhile is_digit s;
          dot = (r \<noteq> [] \<and> hd r = CHR ''.'');
          r' = (if dot then dropWhile is_digit (tl r) else r)
      in (takeWhile is_digit s, if dot then takeWhile is_digit (tl r) else [],
          takeWhile (\<lambda>c. \<not> numeric c) r', dropWhile (\<lambda>c. \<not> numeric c) r'))"

lemma duration_token_shorter:
  assumes "duration_token s = (ds, fs, u, rest)" "u \<noteq> []"
  shows "length rest < length s"
proof -
  define r where "r = dropWhile is_digit s"
  define r' where "r' = (if r \<noteq> [] \<and> hd r = CHR ''.'' then dropWhile is_digit (tl r) else r)"
  have "length r' \<le> length r"
    using length_dropWhile_le [of is_digit "tl r"] by (auto simp: r'_def)
  also have "length r \<le> length s" unfolding r_def by (rule length_dropWhile_le)
  finally have r': "length r' \<le> length s" .
  have "u = takeWhile (\<lambda>c. \<not> numeric c) r'" "rest = dropWhile (\<lambda>c. \<not> numeric c) r'"
    using assms(1) by (simp_all add: duration_token_def Let_def r_def [symmetric] r'_def [symmetric])
  then have "length r' = length u + length rest"
    by (metis length_append takeWhile_dropWhile_id)
  with r' assms(2) show ?thesis by (cases u) simp_all
qed

function parse_units :: "nat \<Rightarrow> string \<Rightarrow> nat option" where
  "parse_units d s =
     (if s = [] then Some d
      else if \<not> numeric (hd s) then None
      else (case duration_token s of (ds, fs, u, rest) \<Rightarrow>
        if (ds = [] \<and> fs = []) \<or> u = [] then None
        else (case (leading_int 0 ds, map_of unit_map u) of
                (Some v, Some unit) \<Rightarrow>
                  if 2 ^ 63 div unit < v then None
                  else
                    let f = leading_fraction 0 1 fs;
                        w = v * unit + (if 0 < fst f then fraction_ns (fst f) unit (snd f) else 0);
                        d' = (d + w) mod 2 ^ 64
                    in if (0 < fst f \<and> 2 ^ 63 < w) \<or> 2 ^ 63 < d' then None else parse_units d' rest
              | _ \<Rightarrow> None)))"
  by pat_completeness auto
termination
  by (relation "measure (\<lambda>(d, s). length s)") (simp, metis duration_token_shorter in_measure old.prod.case)

declare parse_units.simps [simp del]

definition parse_duration :: "string \<Rightarrow> int option" where
  "parse_duration s =
     (let neg = (s \<noteq> [] \<and> hd s = CHR ''-'');
          r = (if s \<noteq> [] \<and> (hd s = CHR ''-'' \<or> hd s = CHR ''+'') then tl s else s)
      in if r = ''0'' then Some 0
         else if r = [] then None
         else (case parse_units 0 r of
                 None \<Rightarrow> None
               | Some d \<Rightarrow>
                   if neg then Some (i64 (- int d))
                   else if 2 ^ 63 - 1 < d then None else Some (int d)))"

section \<open>Flag sets\<close>

record 'c flag =
  fg_name :: string
  fg_bool :: bool
  fg_set :: "string \<Rightarrow> 'c \<Rightarrow> 'c option"

type_synonym 'c flagset = "'c flag list"

definition string_flag :: "string \<Rightarrow> (string \<Rightarrow> 'c \<Rightarrow> 'c) \<Rightarrow> 'c flag" where
  "string_flag n upd = \<lparr>fg_name = n, fg_bool = False, fg_set = (\<lambda>v c. Some (upd v c))\<rparr>"

definition bool_flag :: "string \<Rightarrow> (bool \<Rightarrow> 'c \<Rightarrow> 'c) \<Rightarrow> 'c flag" where
  "bool_flag n upd = \<lparr>fg_name = n, fg_bool = True, fg_set = (\<lambda>v c. map_option (\<lambda>b. upd b c) (parse_bool v))\<rparr>"

definition int_flag :: "string \<Rightarrow> (int \<Rightarrow> 'c \<Rightarrow> 'c) \<Rightarrow> 'c flag" where
  "int_flag n upd = \<lparr>fg_name = n, fg_bool = False, fg_set = (\<lambda>v c. map_option (\<lambda>i. upd i c) (parse_int0 v))\<rparr>"

definition duration_flag :: "string \<Rightarrow> (int \<Rightarrow> 'c \<Rightarrow> 'c) \<Rightarrow> 'c flag" where
  "duration_flag n upd =
     \<lparr>fg_name = n, fg_bool = False, fg_set = (\<lambda>v c. map_option (\<lambda>d. upd d c) (parse_duration v))\<rparr>"

datatype flag_error =
    FlagSyntax string
  | FlagHelp
  | FlagUndefined string
  | FlagNeedsArgument string
  | FlagValue string string

text \<open>An argument that is a flag: its name and the value after an equals sign\<close>

definition flag_token :: "string \<Rightarrow> string \<times> string option" where
  "flag_token s =
     (case cut_at (CHR ''='') (drop (if prefix ''--'' s then 2 else 1) s) of
        (n, v, found) \<Rightarrow> (n, if found then Some v else None))"

definition set_flag :: "'c flag \<Rightarrow> string \<Rightarrow> 'c \<Rightarrow> (flag_error, 'c) result" where
  "set_flag f v c = or_err (FlagValue (fg_name f) v) (fg_set f v c)"

text \<open>
  \<open>FlagSet.Parse\<close>: the configuration with the flags set, and the arguments after them.  A
  boolean flag takes no argument of its own; another takes the next one unless it came
  with an equals sign.
\<close>

fun parse_flags :: "'c flagset \<Rightarrow> string list \<Rightarrow> 'c \<Rightarrow> (flag_error, 'c \<times> string list) result" where
  "parse_flags F [] c = Inr (c, [])"
| "parse_flags F (s # args) c =
     (if length s < 2 \<or> hd s \<noteq> CHR ''-'' then Inr (c, s # args)
      else if s = ''--'' then Inr (c, args)
      else if fst (flag_token s) = [] \<or> hd (fst (flag_token s)) = CHR ''-'' then Inl (FlagSyntax s)
      else (case find (\<lambda>f. fg_name f = fst (flag_token s)) F of
              None \<Rightarrow>
                if fst (flag_token s) \<in> {''help'', ''h''} then Inl FlagHelp
                else Inl (FlagUndefined (fst (flag_token s)))
            | Some f \<Rightarrow>
                (case (fg_bool f, snd (flag_token s), args) of
                   (True, v, _) \<Rightarrow>
                     bind_r (set_flag f (case v of None \<Rightarrow> ''true'' | Some v \<Rightarrow> v) c) (parse_flags F args)
                 | (False, Some v, _) \<Rightarrow> bind_r (set_flag f v c) (parse_flags F args)
                 | (False, None, v # rest) \<Rightarrow> bind_r (set_flag f v c) (parse_flags F rest)
                 | (False, None, []) \<Rightarrow> Inl (FlagNeedsArgument (fst (flag_token s))))))"

section \<open>What the flags cannot change\<close>

text \<open>A parse that succeeds ends, or sets one flag and goes on with fewer arguments.\<close>

lemma parse_flags_step:
  assumes "parse_flags F (s # args) c = Inr (c', rest)"
  obtains "c' = c"
  | f v c1 args' where "prefix ''-'' s" "find (\<lambda>f. fg_name f = fst (flag_token s)) F = Some f"
    "set_flag f v c = Inr c1" "parse_flags F args' c1 = Inr (c', rest)" "set args' \<subseteq> set args"
    "length args' \<le> length args"
proof (cases "length s < 2 \<or> hd s \<noteq> CHR ''-'' \<or> s = ''--''")
  case True
  with assms show thesis by (intro that(1)) (auto split: if_splits)
next
  case False
  then have s: "prefix ''-'' s" by (cases s) auto
  from False assms obtain f where f: "find (\<lambda>f. fg_name f = fst (flag_token s)) F = Some f"
    by (auto split: if_splits option.splits)
  obtain v args' where p: "bind_r (set_flag f v c) (parse_flags F args') = Inr (c', rest)"
    "set args' \<subseteq> set args" "length args' \<le> length args"
  proof (cases "fg_bool f")
    case True
    with assms False f show thesis by (intro that) (auto split: if_splits)
  next
    case nb: False
    show thesis
    proof (cases "snd (flag_token s)")
      case (Some v)
      with assms False f nb show thesis by (intro that) (auto split: if_splits)
    next
      case None
      with assms False f nb obtain v args' where "args = v # args'" by (cases args) (auto split: if_splits)
      with assms False f nb None show thesis by (intro that) (auto split: if_splits)
    qed
  qed
  from p(1) obtain c1 where "set_flag f v c = Inr c1" "parse_flags F args' c1 = Inr (c', rest)"
    by (auto simp: bind_r_eq_Inr)
  from that(2) [OF s f this p(2,3)] show thesis .
qed

text \<open>
  A flag set of which the flags that were given keep an invariant of the configuration: parsing
  keeps it.  \<open>safe\<close> says which names may be given.
\<close>

locale flag_invariant =
  fixes F :: "'c flagset"
    and safe :: "string \<Rightarrow> bool"
    and inv :: "'c \<Rightarrow> bool"
  assumes set_keeps: "f \<in> set F \<Longrightarrow> safe (fg_name f) \<Longrightarrow> inv c \<Longrightarrow> fg_set f v c = Some c' \<Longrightarrow> inv c'"
begin

lemma found_keeps:
  assumes "find (\<lambda>f. fg_name f = n) F = Some f" "safe n" "inv c" "set_flag f v c = Inr c'"
  shows "inv c'"
proof -
  have "f \<in> set F" "fg_name f = n" using assms(1) by (auto simp: find_Some_iff)
  with assms show ?thesis by (auto simp: set_flag_def result_simps intro: set_keeps)
qed

lemma parse_keeps:
  assumes "parse_flags F args c = Inr (c', rest)" "inv c"
    and "\<And>a. a \<in> set args \<Longrightarrow> prefix ''-'' a \<Longrightarrow> safe (fst (flag_token a))"
  shows "inv c'"
  using assms
proof (induction "length args" arbitrary: args c rule: less_induct)
  case less
  show ?case
  proof (cases args)
    case Nil
    with less.prems show ?thesis by simp
  next
    case (Cons s r)
    from less.prems(1) [unfolded Cons] show ?thesis
    proof (cases rule: parse_flags_step)
      case 1
      with less.prems show ?thesis by simp
    next
      case (2 f v c1 args')
      have "inv c1"
        by (rule found_keeps [OF 2(2) less.prems(3) less.prems(2) 2(3)]) (simp_all add: Cons 2(1) del: prefix_code)
      then show ?thesis
        using less.hyps [OF _ 2(4) \<open>inv c1\<close>] less.prems(3) 2(5,6) Cons by auto
    qed
  qed
qed

end

text \<open>The name of a flag that was given starts the argument, after one or two dashes.\<close>

lemma cut_at_prefix: "cut_at c s = (x, v, f) \<Longrightarrow> prefix x s"
  by (auto simp: cut_at_def Let_def takeWhile_is_prefix split: if_splits)

lemma flag_token_prefix:
  assumes "prefix ''-'' a"
  shows "prefix (''-'' @ fst (flag_token a)) a \<or> prefix (''--'' @ fst (flag_token a)) a"
proof -
  obtain x v f where x: "cut_at (CHR ''='') (drop (if prefix ''--'' a then 2 else 1) a) = (x, v, f)"
    by (metis prod_cases3)
  have "prefix x (drop (if prefix ''--'' a then 2 else 1) a)" by (rule cut_at_prefix [OF x])
  moreover have "fst (flag_token a) = x" using x by (simp add: flag_token_def)
  moreover have "prefix (''-'' @ x) a" if "prefix x (drop 1 a)"
    using assms that by (cases a) simp_all
  moreover have "prefix (''--'' @ x) a" if dd: "prefix ''--'' a" "prefix x (drop 2 a)"
  proof -
    obtain z where "a = ''--'' @ z" using dd(1) by (rule prefixE)
    with dd(2) show ?thesis by simp
  qed
  ultimately show ?thesis by (cases "prefix ''--'' a") simp_all
qed

text \<open>No argument looks like the flag \<open>n\<close>.\<close>

definition flag_not_given :: "string \<Rightarrow> string list \<Rightarrow> bool" where
  "flag_not_given n args \<longleftrightarrow> list_all (\<lambda>a. \<not> prefix (''-'' @ n) a \<and> \<not> prefix (''--'' @ n) a) args"

lemma flag_not_given_name:
  "flag_not_given n args \<Longrightarrow> a \<in> set args \<Longrightarrow> prefix ''-'' a \<Longrightarrow> fst (flag_token a) \<noteq> n"
  using flag_token_prefix [of a] by (auto simp: flag_not_given_def list_all_iff simp del: prefix_code)

lemmas flag_kinds = string_flag_def bool_flag_def int_flag_def duration_flag_def

end
