(* ===== verification/Deploy.thy ===== *)
theory Deploy
  imports Wiring GoFlag
begin

text \<open>
  \<open>main\<close> of the three servers (\<open>cmd/x402-filter\<close>, \<open>cmd/x402-settler\<close>, \<open>cmd/x402-controller\<close>): their flag
  sets with the defaults, and what becomes of a command line; the Redis clients they build
  (\<open>internal/rdb/rdb.go\<close>); and how the filter stops.  A usage text is printed by the library
  and is not modelled.
\<close>

section \<open>Redis clients\<close>

text \<open>\<open>redis.Options\<close>; a field the code leaves out is zero, for the library's default.\<close>

record redis_options =
  ro_addr :: string
  ro_dial :: int
  ro_read :: int
  ro_write :: int
  ro_pool :: nat
  ro_min_idle :: nat
  ro_pool_wait :: int
  ro_retries :: nat
  ro_min_backoff :: int
  ro_max_backoff :: int
  ro_context_timeout :: bool

definition request_path_options :: "string \<Rightarrow> redis_options" where
  "request_path_options addr =
     \<lparr>ro_addr = addr, ro_dial = 100 * msec, ro_read = 50 * msec, ro_write = 50 * msec, ro_pool = 32,
      ro_min_idle = 8, ro_pool_wait = 20 * msec, ro_retries = 1, ro_min_backoff = 2 * msec,
      ro_max_backoff = 5 * msec, ro_context_timeout = True\<rparr>"

definition settler_options :: "string \<Rightarrow> int \<Rightarrow> redis_options" where
  "settler_options addr block =
     \<lparr>ro_addr = addr, ro_dial = nsec, ro_read = block + nsec, ro_write = nsec, ro_pool = 4,
      ro_min_idle = 0, ro_pool_wait = 0, ro_retries = 3, ro_min_backoff = 0, ro_max_backoff = 0,
      ro_context_timeout = True\<rparr>"

text \<open>\<open>Ping\<close>: the answer within the timeout; \<open>None\<close> is no answer.\<close>

definition redis_ping :: "int \<Rightarrow> int option \<Rightarrow> bool" where
  "redis_ping timeout answer_after = (case answer_after of None \<Rightarrow> False | Some t \<Rightarrow> t < timeout)"

section \<open>A server's command line\<close>

text \<open>
  The command line's flag set exits by itself: with 0 when help was asked for, with 2 on any
  other error.
\<close>

datatype 'p started = Exited int | Version | Running 'p

definition server_main ::
  "'c flagset \<Rightarrow> ('c \<Rightarrow> bool) \<Rightarrow> ('c \<Rightarrow> (run_error, 'p) result) \<Rightarrow> 'c \<Rightarrow> string list \<Rightarrow> ('c \<times> 'p) started" where
  "server_main F version run c0 args =
     (case parse_flags F args c0 of
        Inl e \<Rightarrow> Exited (if e = FlagHelp then 0 else 2)
      | Inr (c, _) \<Rightarrow>
          if version c then Version
          else (case run c of Inl _ \<Rightarrow> Exited 1 | Inr p \<Rightarrow> Running (c, p)))"

text \<open>The filter\<close>

definition DefaultDeadline :: int where "DefaultDeadline = 250 * msec"

definition request_deadline :: "int \<Rightarrow> int" where
  "request_deadline d = (if 0 < d then d else DefaultDeadline)"

text \<open>The part of it the balance step may use; the reserve script has the rest.\<close>

definition reserveMargin :: int where "reserveMargin = 25 * msec"

definition balance_deadline :: "int \<Rightarrow> int" where
  "balance_deadline d = min (request_deadline d) (max (request_deadline d - reserveMargin) reserveMargin)"

record filter_config =
  fcg_flags :: filter_flags
  fcg_listen :: string
  fcg_drain :: int
  fcg_delay :: int
  fcg_keepalive :: int
  fcg_version :: bool
  fcg_debug :: bool

definition on_flags :: "(filter_flags \<Rightarrow> filter_flags) \<Rightarrow> filter_config \<Rightarrow> filter_config" where
  "on_flags upd c = c\<lparr>fcg_flags := upd (fcg_flags c)\<rparr>"

definition filter_flagset :: "filter_config flagset" where
  "filter_flagset =
     [bool_flag ''version'' (\<lambda>b c. c\<lparr>fcg_version := b\<rparr>),
      string_flag ''listen'' (\<lambda>v c. c\<lparr>fcg_listen := v\<rparr>),
      duration_flag ''drain'' (\<lambda>t c. c\<lparr>fcg_drain := t\<rparr>),
      duration_flag ''delay'' (\<lambda>t c. c\<lparr>fcg_delay := t\<rparr>),
      string_flag ''prices-namespace'' (\<lambda>v. on_flags (\<lambda>f. f\<lparr>fl_namespace := v\<rparr>)),
      string_flag ''prices-configmap'' (\<lambda>v. on_flags (\<lambda>f. f\<lparr>fl_configmap := v\<rparr>)),
      string_flag ''networks'' (\<lambda>v. on_flags (\<lambda>f. f\<lparr>fl_networks := v\<rparr>)),
      string_flag ''redis'' (\<lambda>v. on_flags (\<lambda>f. f\<lparr>fl_redis := v\<rparr>)),
      string_flag ''rpc-url'' (\<lambda>v. on_flags (\<lambda>f. f\<lparr>fl_rpc_url := v\<rparr>)),
      duration_flag ''deadline'' (\<lambda>t. on_flags (\<lambda>f. f\<lparr>fl_deadline := t\<rparr>)),
      duration_flag ''balance-fresh'' (\<lambda>t. on_flags (\<lambda>f. f\<lparr>fl_fresh := t\<rparr>)),
      duration_flag ''balance-last-known'' (\<lambda>t. on_flags (\<lambda>f. f\<lparr>fl_last_known := t\<rparr>)),
      duration_flag ''rpc-keepalive'' (\<lambda>t c. c\<lparr>fcg_keepalive := t\<rparr>),
      bool_flag ''debug'' (\<lambda>b c. c\<lparr>fcg_debug := b\<rparr>)]"

definition filter_defaults :: "string \<Rightarrow> string \<Rightarrow> filter_config" where
  "filter_defaults pod_namespace rpc_env =
     \<lparr>fcg_flags =
        \<lparr>fl_namespace = pod_namespace, fl_configmap = ''x402-prices'', fl_networks = ''testnet'', fl_redis = [],
         fl_rpc_url = rpc_env, fl_deadline = DefaultDeadline, fl_fresh = DefaultFresh,
         fl_last_known = DefaultLastKnown\<rparr>,
      fcg_listen = '':9002'', fcg_drain = 20 * nsec, fcg_delay = 0, fcg_keepalive = 20 * nsec,
      fcg_version = False, fcg_debug = False\<rparr>"

definition filter_main ::
  "string \<Rightarrow> string \<Rightarrow> bool \<Rightarrow> string list \<Rightarrow> (filter_config \<times> filter_parts) started" where
  "filter_main pod_namespace rpc_env environment args =
     server_main filter_flagset fcg_version (\<lambda>c. filter_run (fcg_flags c) environment)
       (filter_defaults pod_namespace rpc_env) args"

text \<open>The settler\<close>

record settler_config =
  scg_flags :: settler_flags
  scg_health :: string
  scg_version :: bool
  scg_debug :: bool

definition on_settler :: "(settler_flags \<Rightarrow> settler_flags) \<Rightarrow> settler_config \<Rightarrow> settler_config" where
  "on_settler upd c = c\<lparr>scg_flags := upd (scg_flags c)\<rparr>"

definition settler_flagset :: "settler_config flagset" where
  "settler_flagset =
     [bool_flag ''version'' (\<lambda>b c. c\<lparr>scg_version := b\<rparr>),
      string_flag ''redis'' (\<lambda>v. on_settler (\<lambda>f. f\<lparr>sf_redis := v\<rparr>)),
      string_flag ''networks'' (\<lambda>v. on_settler (\<lambda>f. f\<lparr>sf_networks := v\<rparr>)),
      string_flag ''consumer'' (\<lambda>v. on_settler (\<lambda>f. f\<lparr>sf_consumer := v\<rparr>)),
      string_flag ''health-addr'' (\<lambda>v c. c\<lparr>scg_health := v\<rparr>),
      string_flag ''facilitator-url'' (\<lambda>v. on_settler (\<lambda>f. f\<lparr>sf_facilitator_url := v\<rparr>)),
      string_flag ''rpc-url'' (\<lambda>v. on_settler (\<lambda>f. f\<lparr>sf_rpc_url := v\<rparr>)),
      duration_flag ''settle-timeout'' (\<lambda>t. on_settler (\<lambda>f. f\<lparr>sf_settle_timeout := t\<rparr>)),
      duration_flag ''min-idle'' (\<lambda>t. on_settler (\<lambda>f. f\<lparr>sf_min_idle := t\<rparr>)),
      bool_flag ''debug'' (\<lambda>b c. c\<lparr>scg_debug := b\<rparr>)]"

definition settler_defaults :: "string \<Rightarrow> string \<Rightarrow> string \<Rightarrow> settler_config" where
  "settler_defaults pod_name facilitator_env rpc_env =
     \<lparr>scg_flags =
        \<lparr>sf_redis = [], sf_networks = ''testnet'', sf_consumer = pod_name, sf_facilitator_url = facilitator_env,
         sf_rpc_url = rpc_env, sf_settle_timeout = DefaultSettleTimeout, sf_min_idle = DefaultMinIdle\<rparr>,
      scg_health = '':8081'', scg_version = False, scg_debug = False\<rparr>"

definition settler_main ::
  "string \<Rightarrow> string \<Rightarrow> string \<Rightarrow> string \<Rightarrow> string list \<Rightarrow> (settler_config \<times> settler_parts) started" where
  "settler_main pod_name facilitator_env rpc_env hostname args =
     server_main settler_flagset scg_version (\<lambda>c. settler_run (scg_flags c) hostname)
       (settler_defaults pod_name facilitator_env rpc_env) args"

text \<open>The client \<open>run\<close> builds, on the default block of the settler\<close>

definition settler_redis :: "settler_flags \<Rightarrow> redis_options" where
  "settler_redis f = settler_options (sf_redis f) DefaultBlock"

text \<open>The controller\<close>

record controller_config =
  ccg_flags :: controller_flags
  ccg_health :: string
  ccg_metrics :: string
  ccg_elect :: bool
  ccg_version :: bool
  ccg_debug :: bool

definition on_controller :: "(controller_flags \<Rightarrow> controller_flags) \<Rightarrow> controller_config \<Rightarrow> controller_config" where
  "on_controller upd c = c\<lparr>ccg_flags := upd (ccg_flags c)\<rparr>"

definition controller_flagset :: "controller_config flagset" where
  "controller_flagset =
     [bool_flag ''version'' (\<lambda>b c. c\<lparr>ccg_version := b\<rparr>),
      string_flag ''health-addr'' (\<lambda>v c. c\<lparr>ccg_health := v\<rparr>),
      string_flag ''metrics-addr'' (\<lambda>v c. c\<lparr>ccg_metrics := v\<rparr>),
      bool_flag ''leader-elect'' (\<lambda>b c. c\<lparr>ccg_elect := b\<rparr>),
      string_flag ''prices-namespace'' (\<lambda>v. on_controller (\<lambda>f. f\<lparr>cf_prices_namespace := v\<rparr>)),
      string_flag ''prices-configmap'' (\<lambda>v. on_controller (\<lambda>f. f\<lparr>cf_prices_name := v\<rparr>)),
      string_flag ''reference-grant'' (\<lambda>v. on_controller (\<lambda>f. f\<lparr>cf_grant_name := v\<rparr>)),
      string_flag ''filter-namespace'' (\<lambda>v. on_controller (\<lambda>f. f\<lparr>cf_filter_namespace := v\<rparr>)),
      string_flag ''filter-service'' (\<lambda>v. on_controller (\<lambda>f. f\<lparr>cf_filter_name := v\<rparr>)),
      int_flag ''filter-port'' (\<lambda>i. on_controller (\<lambda>f. f\<lparr>cf_filter_port := i\<rparr>)),
      string_flag ''networks'' (\<lambda>v. on_controller (\<lambda>f. f\<lparr>cf_networks := v\<rparr>)),
      bool_flag ''debug'' (\<lambda>b c. c\<lparr>ccg_debug := b\<rparr>)]"

definition controller_defaults :: "string \<Rightarrow> controller_config" where
  "controller_defaults pod_namespace =
     \<lparr>ccg_flags =
        \<lparr>cf_prices_namespace = pod_namespace, cf_prices_name = ''x402-prices'',
         cf_grant_name = ''extension-policies-to-filter'', cf_filter_namespace = [],
         cf_filter_name = ''x402-filter'', cf_filter_port = 9002, cf_networks = ''testnet''\<rparr>,
      ccg_health = '':8081'', ccg_metrics = ''0'', ccg_elect = True, ccg_version = False, ccg_debug = False\<rparr>"

definition controller_main ::
  "string \<Rightarrow> bool \<Rightarrow> string list \<Rightarrow> (controller_config \<times> controller) started" where
  "controller_main pod_namespace environment args =
     server_main controller_flagset ccg_version (\<lambda>c. controller_run (ccg_flags c) environment)
       (controller_defaults pod_namespace) args"

section \<open>How the filter stops\<close>

text \<open>
  After \<open>SIGTERM\<close> the health status goes down, and the streams still open may end within the
  drain limit; then the rest is cut.  Times are from the signal; the result is when the
  process ends and which streams it cut.  A stream that ends at the limit itself may go
  either way in the code; here it is not cut.
\<close>

definition filter_drain :: "int \<Rightarrow> int list \<Rightarrow> int \<times> int list" where
  "filter_drain limit ends =
     (if list_all (\<lambda>t. t \<le> limit) ends then (fold max ends 0, [])
      else (max 0 limit, filter (\<lambda>t. limit < t) ends))"

section \<open>Lemmas\<close>

lemma server_main_Running:
  "server_main F version run c0 args = Running (c, p) \<longleftrightarrow>
     \<not> version c \<and> run c = Inr p \<and> (\<exists>rest. parse_flags F args c0 = Inr (c, rest))"
  by (auto simp: server_main_def split: sum.splits prod.splits)

text \<open>
  The margin is kept for the reserve script when the deadline is at least twice as long; with a
  shorter one the balance step may use nearly all of it.
\<close>

lemma reserve_has_room:
  "2 * reserveMargin \<le> request_deadline d \<Longrightarrow> reserveMargin \<le> request_deadline d - balance_deadline d"
  by (simp add: balance_deadline_def)

lemma short_deadline_has_no_room: "request_deadline (30 * msec) - balance_deadline (30 * msec) = 5 * msec"
  by (simp add: balance_deadline_def request_deadline_def reserveMargin_def)

section \<open>Lemmas: flags that are not given\<close>

interpretation filter_nets: flag_invariant filter_flagset "\<lambda>n. n \<noteq> ''networks''"
  "\<lambda>c. fl_networks (fcg_flags c) = ''testnet''"
  by unfold_locales (auto simp: filter_flagset_def flag_kinds on_flags_def)

interpretation filter_prices: flag_invariant filter_flagset
  "\<lambda>n. n \<noteq> ''prices-namespace'' \<and> n \<noteq> ''prices-configmap''"
  "\<lambda>c. fl_namespace (fcg_flags c) = ns \<and> fl_configmap (fcg_flags c) = ''x402-prices''"
  by unfold_locales (auto simp: filter_flagset_def flag_kinds on_flags_def)

interpretation controller_nets: flag_invariant controller_flagset "\<lambda>n. n \<noteq> ''networks''"
  "\<lambda>c. cf_networks (ccg_flags c) = ''testnet''"
  by unfold_locales (auto simp: controller_flagset_def flag_kinds on_controller_def)

interpretation controller_prices: flag_invariant controller_flagset
  "\<lambda>n. n \<noteq> ''prices-namespace'' \<and> n \<noteq> ''prices-configmap''"
  "\<lambda>c. cf_prices_namespace (ccg_flags c) = ns \<and> cf_prices_name (ccg_flags c) = ''x402-prices''"
  by unfold_locales (auto simp: controller_flagset_def flag_kinds on_controller_def)

interpretation settler_names: flag_invariant settler_flagset "\<lambda>n. n \<noteq> ''networks''"
  "\<lambda>c. sf_networks (scg_flags c) = ''testnet''"
  by unfold_locales (auto simp: settler_flagset_def flag_kinds on_settler_def)

lemma filter_main_networks:
  assumes "filter_main ns rpc env args = Running (c, fp)" "flag_not_given ''networks'' args"
  shows "wt_networks (fp_watcher fp) = [Testnet]"
proof -
  obtain rest where p: "parse_flags filter_flagset args (filter_defaults ns rpc) = Inr (c, rest)"
    and r: "filter_run (fcg_flags c) env = Inr fp"
    using assms(1) by (auto simp: filter_main_def server_main_Running)
  have f: "fl_networks (fcg_flags c) = ''testnet''"
    by (rule filter_nets.parse_keeps [OF p]) (simp_all add: filter_defaults_def flag_not_given_name [OF assms(2)])
  from filter_run_Inr [OF r] f demo_networks_flag show ?thesis by (metis sum.inject(2))
qed

lemma filter_main_prices:
  assumes "filter_main ns rpc env args = Running (c, fp)"
    and "flag_not_given ''prices-namespace'' args" "flag_not_given ''prices-configmap'' args"
  shows "wt_namespace (fp_watcher fp) = ns" "wt_name (fp_watcher fp) = ''x402-prices''"
proof -
  obtain rest where p: "parse_flags filter_flagset args (filter_defaults ns rpc) = Inr (c, rest)"
    and r: "filter_run (fcg_flags c) env = Inr fp"
    using assms(1) by (auto simp: filter_main_def server_main_Running)
  have "fl_namespace (fcg_flags c) = ns \<and> fl_configmap (fcg_flags c) = ''x402-prices''"
    by (rule filter_prices.parse_keeps [OF p])
      (simp_all add: filter_defaults_def flag_not_given_name [OF assms(2)] flag_not_given_name [OF assms(3)])
  with filter_run_Inr [OF r] show "wt_namespace (fp_watcher fp) = ns" "wt_name (fp_watcher fp) = ''x402-prices''"
    by metis+
qed

lemma controller_main_networks:
  assumes "controller_main ns env args = Running (c, ct)" "flag_not_given ''networks'' args"
  shows "ct_networks ct = [Testnet]"
proof -
  obtain rest where p: "parse_flags controller_flagset args (controller_defaults ns) = Inr (c, rest)"
    and r: "controller_run (ccg_flags c) env = Inr ct"
    using assms(1) by (auto simp: controller_main_def server_main_Running)
  have "cf_networks (ccg_flags c) = ''testnet''"
    by (rule controller_nets.parse_keeps [OF p])
      (simp_all add: controller_defaults_def flag_not_given_name [OF assms(2)])
  with r show ?thesis by (auto simp: controller_run_Inr demo_networks_flag)
qed

lemma controller_main_prices:
  assumes "controller_main ns env args = Running (c, ct)"
    and "flag_not_given ''prices-namespace'' args" "flag_not_given ''prices-configmap'' args"
  shows "ct_prices_namespace ct = ns" "ct_prices_name ct = ''x402-prices''"
proof -
  obtain rest where p: "parse_flags controller_flagset args (controller_defaults ns) = Inr (c, rest)"
    and r: "controller_run (ccg_flags c) env = Inr ct"
    using assms(1) by (auto simp: controller_main_def server_main_Running)
  have "cf_prices_namespace (ccg_flags c) = ns \<and> cf_prices_name (ccg_flags c) = ''x402-prices''"
    by (rule controller_prices.parse_keeps [OF p])
      (simp_all add: controller_defaults_def flag_not_given_name [OF assms(2)] flag_not_given_name [OF assms(3)])
  with r show "ct_prices_namespace ct = ns" "ct_prices_name ct = ''x402-prices''" by (auto simp: controller_run_Inr)
qed

lemma settler_main_default:
  assumes "settler_main pod fac rpc host args = Running (c, sp)" "flag_not_given ''networks'' args"
  shows "set (sl_facilitators (sp_settler sp)) = {network Testnet}" "set (sl_rpcs (sp_settler sp)) = {network Testnet}"
proof -
  obtain rest where p: "parse_flags settler_flagset args (settler_defaults pod fac rpc) = Inr (c, rest)"
    and r: "settler_run (scg_flags c) host = Inr sp"
    using assms(1) by (auto simp: settler_main_def server_main_Running)
  have f: "sf_networks (scg_flags c) = ''testnet''"
    by (rule settler_names.parse_keeps [OF p]) (simp_all add: settler_defaults_def flag_not_given_name [OF assms(2)])
  show "set (sl_facilitators (sp_settler sp)) = {network Testnet}" "set (sl_rpcs (sp_settler sp)) = {network Testnet}"
    by (rule settler_run_Inr [OF r]; use f demo_networks_flag in simp)+
qed

text \<open>The settler's read timeout is longer than the time its stream read blocks.\<close>

lemma settler_read_outlasts_block:
  assumes "settler_run f host = Inr sp"
  shows "block_of (sp_settler sp) < ro_read (settler_redis f)"
  using assms by (auto simp: settler_run_def bind_r_eq_Inr Let_def block_of_def settler_redis_def settler_options_def
      split: if_splits)

lemma fold_max_le: "(\<forall>t \<in> set ts. t \<le> m) \<Longrightarrow> a \<le> m \<Longrightarrow> fold max ts (a::int) \<le> m"
  by (induction ts arbitrary: a) auto

text \<open>The filter is gone at the drain limit, and cuts only the streams that would outlast it.\<close>

lemma filter_drain_bounded:
  "fst (filter_drain limit ends) \<le> max 0 limit \<and>
   snd (filter_drain limit ends) = filter (\<lambda>t. limit < t) ends"
  by (auto simp: filter_drain_def list_all_iff filter_empty_conv not_less le_max_iff_disj intro!: fold_max_le)

section \<open>Properties\<close>

text \<open>
  C33: no server leaves the test network unless it is told to.  A filter, a controller and a
  settler that were started, whatever their other flags, without \<open>-networks\<close> charge, project and
  settle on the Radius test network alone.  And without \<open>-prices-namespace\<close> and
  \<open>-prices-configmap\<close> the ConfigMap that the controller writes is the one the filter lists and
  watches exactly when both have the same \<open>POD_NAMESPACE\<close>.
\<close>

theorem servers_stay_on_the_test_network:
  assumes "filter_main ns rpc env a1 = Running (c1, fp)" "controller_main ns' env' a2 = Running (c2, ct)"
    and "settler_main pod fac rpc' host a3 = Running (c3, sp)"
    and "flag_not_given ''networks'' (a1 @ a2 @ a3)"
  shows "wt_networks (fp_watcher fp) = [Testnet] \<and> ct_networks ct = [Testnet] \<and>
    set (sl_facilitators (sp_settler sp)) = {network Testnet} \<and> set (sl_rpcs (sp_settler sp)) = {network Testnet} \<and>
    (flag_not_given ''prices-namespace'' (a1 @ a2) \<and> flag_not_given ''prices-configmap'' (a1 @ a2) \<longrightarrow>
      (selects (fp_watcher fp) (desired_configmap (ct_prices_namespace ct) (ct_prices_name ct) tx) \<longleftrightarrow> ns = ns'))"
proof -
  have n: "flag_not_given ''networks'' a1" "flag_not_given ''networks'' a2" "flag_not_given ''networks'' a3"
    using assms(4) by (simp_all add: flag_not_given_def)
  have "selects (fp_watcher fp) (desired_configmap (ct_prices_namespace ct) (ct_prices_name ct) tx) \<longleftrightarrow> ns = ns'"
    if "flag_not_given ''prices-namespace'' (a1 @ a2)" "flag_not_given ''prices-configmap'' (a1 @ a2)"
  proof -
    from that have m: "flag_not_given ''prices-namespace'' a1" "flag_not_given ''prices-namespace'' a2"
      "flag_not_given ''prices-configmap'' a1" "flag_not_given ''prices-configmap'' a2"
      by (simp_all add: flag_not_given_def)
    show ?thesis
      by (auto simp: selects_def desired_configmap_def filter_main_prices [OF assms(1) m(1,3)]
          controller_main_prices [OF assms(2) m(2,4)])
  qed
  then show ?thesis
    by (simp add: filter_main_networks [OF assms(1) n(1)] controller_main_networks [OF assms(2) n(2)]
        settler_main_default [OF assms(3) n(3)])
qed

definition demo_filter_args :: "string list" where
  "demo_filter_args = [''-redis=redis:6379'', ''--deadline'', ''200ms'', ''-debug'']"

lemma demo_values:
  "parse_duration ''200ms'' = Some (200 * msec)" "parse_duration ''1m30s'' = Some (90 * nsec)"
  "parse_int0 ''0x232A'' = Some 9002"
  by (simp_all add: parse_duration_def parse_units.simps duration_token_def numeric_def is_digit_def digit_val_def
      unit_map_def parse_int0_def parse_uint0_def num_base_def alnum_val_def Let_def is_lower_def to_lower_char_def
      is_upper_def)

lemmas flag_eval = flag_token_def cut_at_def set_flag_def flag_kinds parse_bool_def demo_values

lemma demo_starts:
  "\<exists>c fp. filter_main ''x402'' [] True demo_filter_args = Running (c, fp) \<and> fl_deadline (fcg_flags c) = 200 * msec"
  "\<exists>c ct. controller_main ''x402'' True [''-filter-port'', ''0x232A''] = Running (c, ct) \<and>
     cf_filter_port (ccg_flags c) = 9002"
  "\<exists>c sp. settler_main ''pod'' [] [] ''node'' [''-redis'', ''redis:6379'', ''-min-idle'', ''1m30s''] = Running (c, sp) \<and>
     sf_min_idle (scg_flags c) = 90 * nsec"
proof -
  show "\<exists>c fp. filter_main ''x402'' [] True demo_filter_args = Running (c, fp) \<and> fl_deadline (fcg_flags c) = 200 * msec"
    by (simp add: filter_main_def server_main_def demo_filter_args_def filter_flagset_def filter_defaults_def
        on_flags_def flag_eval filter_run_def demo_networks_flag Let_def)
  show "\<exists>c ct. controller_main ''x402'' True [''-filter-port'', ''0x232A''] = Running (c, ct) \<and>
     cf_filter_port (ccg_flags c) = 9002"
    by (simp add: controller_main_def server_main_def controller_flagset_def controller_defaults_def
        on_controller_def flag_eval controller_run_def demo_networks_flag Let_def)
  show "\<exists>c sp. settler_main ''pod'' [] [] ''node'' [''-redis'', ''redis:6379'', ''-min-idle'', ''1m30s''] = Running (c, sp) \<and>
     sf_min_idle (scg_flags c) = 90 * nsec"
    by (simp add: settler_main_def server_main_def settler_flagset_def settler_defaults_def
        on_settler_def flag_eval settler_run_def demo_networks_flag Let_def)
qed

theorem servers_stay_on_the_test_network_witness:
  "\<exists>c1 fp c2 ct c3 sp.
     filter_main ''x402'' [] True demo_filter_args = Running (c1, fp) \<and>
     controller_main ''x402'' True [''-filter-port'', ''0x232A''] = Running (c2, ct) \<and>
     settler_main ''pod'' [] [] ''node'' [''-redis'', ''redis:6379'', ''-min-idle'', ''1m30s''] = Running (c3, sp) \<and>
     fl_deadline (fcg_flags c1) = 200 * msec \<and> cf_filter_port (ccg_flags c2) = 9002 \<and>
     sf_min_idle (scg_flags c3) = 90 * nsec \<and>
     wt_networks (fp_watcher fp) = [Testnet] \<and> ct_networks ct = [Testnet] \<and>
     set (sl_facilitators (sp_settler sp)) = {network Testnet} \<and> 
     selects (fp_watcher fp) (desired_configmap (ct_prices_namespace ct) (ct_prices_name ct) ''{}'')"
proof -
  have n: "flag_not_given ''networks'' (demo_filter_args @ [''-filter-port'', ''0x232A''] @
      [''-redis'', ''redis:6379'', ''-min-idle'', ''1m30s''])"
    "flag_not_given ''prices-namespace'' (demo_filter_args @ [''-filter-port'', ''0x232A''])"
    "flag_not_given ''prices-configmap'' (demo_filter_args @ [''-filter-port'', ''0x232A''])"
    by (simp_all add: flag_not_given_def demo_filter_args_def)
  obtain c1 fp c2 ct c3 sp where
    m: "filter_main ''x402'' [] True demo_filter_args = Running (c1, fp)"
    "controller_main ''x402'' True [''-filter-port'', ''0x232A''] = Running (c2, ct)"
    "settler_main ''pod'' [] [] ''node'' [''-redis'', ''redis:6379'', ''-min-idle'', ''1m30s''] = Running (c3, sp)"
    "fl_deadline (fcg_flags c1) = 200 * msec" "cf_filter_port (ccg_flags c2) = 9002"
    "sf_min_idle (scg_flags c3) = 90 * nsec"
    using demo_starts by blast
  note r = servers_stay_on_the_test_network [OF m(1-3) n(1), where tx = "''{}''"]
  show ?thesis
    by (rule exI [of _ c1], rule exI [of _ fp], rule exI [of _ c2], rule exI [of _ ct], rule exI [of _ c3],
        rule exI [of _ sp]) (simp only: m n r simp_thms)
qed

end
