(* ===== verification/Timing.thy ===== *)
theory Timing
  imports Deploy
begin

text \<open>
  The clocks of a stream.  The theory \<open>Extproc\<close> takes as given what arrives in time; here that
  is derived from how long each step takes and from the contexts the code makes: the drill's
  \<open>wait\<close>, the deadline of \<open>accept\<close>, the balance step's own, and the two short contexts of the
  response phase (\<open>internal/extproc/server.go\<close>).  Times are durations since Envoy's message
  arrived.  A context is the time it is done.
\<close>

section \<open>Contexts\<close>

text \<open>\<open>context.WithTimeout\<close>: a child ends with its parent, or when its own time is over.\<close>

definition with_timeout :: "int option \<Rightarrow> int \<Rightarrow> int \<Rightarrow> int" where
  "with_timeout parent now d = (case parent of None \<Rightarrow> now + d | Some x \<Rightarrow> min x (now + d))"

text \<open>
  A call under a context: when it returns, and whether with its own answer.  A duration of
  \<open>None\<close> is a call that would never return.
\<close>

definition within :: "int \<Rightarrow> int \<Rightarrow> int option \<Rightarrow> int \<times> bool" where
  "within ctx now dur =
     (case dur of
        None \<Rightarrow> (max now ctx, False)
      | Some d \<Rightarrow> if now + d < ctx then (now + d, True) else (max now ctx, False))"

definition wait_for :: "int option \<Rightarrow> int \<Rightarrow> int \<times> bool" where
  "wait_for cancel d =
     (if d \<le> 0 then (0, True)
      else (case cancel of
              None \<Rightarrow> (d, True)
            | Some x \<Rightarrow> if d \<le> x then (d, True) else (max 0 x, False)))"

section \<open>The request phase\<close>

text \<open>How long the steps of one request take\<close>

record moments =
  mo_cancel :: "int option"
  mo_verify :: int
  mo_hmget :: "int option"
  mo_cached :: bool
  mo_chain :: "(int \<times> (rpc_error, int) result) option"
  mo_reserve :: "int option"

text \<open>A call cut short may still run at the server.\<close>

definition cut_short :: "fault \<Rightarrow> fault" where
  "cut_short f = (if f = NotRun then NotRun else AnswerLost)"

text \<open>The times at which the wait, the verification, the cache read, the balance step and the reserve are over\<close>

definition accept_context :: "int \<Rightarrow> int \<Rightarrow> moments \<Rightarrow> int" where
  "accept_context delay deadline M =
     with_timeout (mo_cancel M) (fst (wait_for (mo_cancel M) delay)) (request_deadline deadline)"

definition request_clock :: "int \<Rightarrow> int \<Rightarrow> moments \<Rightarrow> int list" where
  "request_clock delay deadline M =
     (let t0 = fst (wait_for (mo_cancel M) delay);
          ctx = accept_context delay deadline M;
          tv = t0 + mo_verify M;
          bctx = with_timeout (Some ctx) tv (max (request_deadline deadline - reserveMargin) reserveMargin);
          t1 = fst (within bctx tv (mo_hmget M));
          t2 = (if mo_cached M then t1 else fst (within bctx t1 (map_option fst (mo_chain M))));
          t3 = fst (within ctx t2 (mo_reserve M))
      in [t0, tv, t1, t2, t3])"

text \<open>What the request phase then meets of the world\<close>

definition timely_phase :: "int \<Rightarrow> int \<Rightarrow> moments \<Rightarrow> phase \<Rightarrow> phase" where
  "timely_phase delay deadline M ph =
     (case request_clock delay deadline M of
        [t0, tv, t1, t2, t3] \<Rightarrow>
          let ctx = accept_context delay deadline M;
              bctx = with_timeout (Some ctx) tv (max (request_deadline deadline - reserveMargin) reserveMargin)
          in ph\<lparr>ph_waited := snd (wait_for (mo_cancel M) delay),
                ph_read_fault := (if snd (within bctx tv (mo_hmget M)) then ph_read_fault ph
                                  else cut_short (ph_read_fault ph)),
                ph_arrival := (if snd (within bctx t1 (map_option fst (mo_chain M)))
                               then map_option snd (mo_chain M) else None),
                ph_reserve_fault := (if snd (within ctx t2 (mo_reserve M)) then ph_reserve_fault ph
                                     else cut_short (ph_reserve_fault ph))\<rparr>
      | _ \<Rightarrow> ph)"

text \<open>A read of the chain is detached: its own timeout, not the request's, ends it.\<close>

definition DefaultFetchTimeout :: int where "DefaultFetchTimeout = 2 * nsec"

definition fetch_timeout :: "int \<Rightarrow> int" where
  "fetch_timeout t = (if 0 < t then t else DefaultFetchTimeout)"

definition detached_read :: "int \<Rightarrow> moments \<Rightarrow> int \<times> bool" where
  "detached_read timeout M = within (with_timeout None 0 (fetch_timeout timeout)) 0 (map_option fst (mo_chain M))"

section \<open>The response phase\<close>

definition responsePhaseDeadline :: int where "responsePhaseDeadline = 50 * msec"

text \<open>The capture under its own deadline, then a release when the capture got no answer\<close>

definition response_clock :: "int option \<Rightarrow> int option \<Rightarrow> int option \<Rightarrow> int list" where
  "response_clock cancel capture_takes release_takes =
     (case within (with_timeout cancel 0 responsePhaseDeadline) 0 capture_takes of
        (t, True) \<Rightarrow> [t]
      | (t, False) \<Rightarrow> [t, fst (within (with_timeout None t responsePhaseDeadline) t release_takes)])"

section \<open>Envoy's side\<close>

text \<open>The timeout per message that an extension policy asks Envoy for\<close>

definition message_timeout :: "json \<Rightarrow> int option" where
  "message_timeout eep =
     (case eep of
        JObj ms \<Rightarrow>
          (case map_of ms ''spec'' of
             Some (JObj sp) \<Rightarrow>
               (case map_of sp ''extProc'' of
                  Some (JArr [JObj ep]) \<Rightarrow>
                    (case map_of ep ''messageTimeout'' of Some (JStr s) \<Rightarrow> parse_duration s | _ \<Rightarrow> None)
                | _ \<Rightarrow> None)
           | _ \<Rightarrow> None)
      | _ \<Rightarrow> None)"

section \<open>Lemmas\<close>

lemma within_le: "fst (within ctx now dur) \<le> max now ctx"
  by (auto simp: within_def split: option.splits)

lemma within_ge: "(\<And>d. dur = Some d \<Longrightarrow> 0 \<le> d) \<Longrightarrow> now \<le> fst (within ctx now dur)"
  by (auto simp: within_def split: option.splits)

lemma with_timeout_le: "with_timeout p now d \<le> now + d" "with_timeout (Some x) now d \<le> x"
  by (auto simp: with_timeout_def split: option.splits)

lemma wait_le: "fst (wait_for cancel d) \<le> max 0 d" "0 \<le> fst (wait_for cancel d)"
  by (auto simp: wait_for_def split: option.splits)

lemma deadline_pos: "0 < request_deadline d"
  by (simp add: request_deadline_def DefaultDeadline_def)

lemma controller_timeout: "message_timeout (desired_eep pp svc) = Some (300 * msec)"
proof -
  have "parse_duration ''300ms'' = Some (300 * msec)"
    by (simp add: parse_duration_def parse_units.simps duration_token_def numeric_def is_digit_def digit_val_def
        unit_map_def)
  then show ?thesis by (simp add: message_timeout_def desired_eep_def)
qed

definition durations_ok :: "moments \<Rightarrow> bool" where
  "durations_ok M \<longleftrightarrow>
     0 \<le> mo_verify M \<and> list_all (\<lambda>d. case d of None \<Rightarrow> True | Some d \<Rightarrow> 0 \<le> d)
       [mo_hmget M, map_option fst (mo_chain M), mo_reserve M]"

lemma accept_context_le:
  "accept_context delay deadline M \<le> fst (wait_for (mo_cancel M) delay) + request_deadline deadline"
  by (simp add: accept_context_def with_timeout_le)

lemma request_clock_sorted:
  assumes "durations_ok M" shows "sorted (request_clock delay deadline M)"
  using assms by (auto simp: request_clock_def durations_ok_def Let_def intro!: within_ge order_trans [OF _ within_ge]
      split: option.splits)

lemma request_clock_last:
  assumes "durations_ok M"
  shows "last (request_clock delay deadline M) \<le>
    fst (wait_for (mo_cancel M) delay) + max (mo_verify M) (request_deadline deadline)"
proof -
  let ?t0 = "fst (wait_for (mo_cancel M) delay)" and ?ctx = "accept_context delay deadline M"
  let ?tv = "?t0 + mo_verify M"
  let ?b = "with_timeout (Some ?ctx) ?tv (max (request_deadline deadline - reserveMargin) reserveMargin)"
  have b: "?b \<le> ?ctx" by (rule with_timeout_le)
  have "fst (within ?b ?tv x) \<le> max ?tv ?ctx" for x using within_le [of ?b ?tv x] b by linarith
  moreover have "fst (within ?b t x) \<le> max ?tv ?ctx" if "t \<le> max ?tv ?ctx" for t x
    using within_le [of ?b t x] b that by linarith
  moreover have "fst (within ?ctx t x) \<le> max ?tv ?ctx" if "t \<le> max ?tv ?ctx" for t x
    using within_le [of ?ctx t x] that by linarith
  ultimately have "last (request_clock delay deadline M) \<le> max ?tv ?ctx"
    by (simp add: request_clock_def Let_def)
  with accept_context_le [of delay deadline M] show ?thesis by linarith
qed

lemma response_clock_last: "last (response_clock cancel cap rel) \<le> 2 * responsePhaseDeadline"
proof -
  let ?w = "within (with_timeout cancel 0 responsePhaseDeadline) 0 cap"
  have "fst ?w \<le> responsePhaseDeadline"
    using within_le [of "with_timeout cancel 0 responsePhaseDeadline" 0 cap] with_timeout_le(1) [of cancel 0 responsePhaseDeadline]
    by (simp add: responsePhaseDeadline_def)
  moreover have "fst (within (with_timeout None t responsePhaseDeadline) t rel) \<le> t + responsePhaseDeadline" for t
    using within_le [of "with_timeout None t responsePhaseDeadline" t rel] by (simp add: with_timeout_def responsePhaseDeadline_def)
  ultimately show ?thesis
    by (auto simp: response_clock_def responsePhaseDeadline_def split: prod.splits bool.splits)
      (smt (verit) fst_conv)+
qed

text \<open>The balance step leaves the reserve its margin, less what the verification took of it.\<close>

lemma reserve_keeps_its_room:
  assumes "durations_ok M" "mo_cancel M = None" "2 * reserveMargin \<le> request_deadline deadline"
    and "mo_reserve M = Some r" "mo_verify M + r < reserveMargin"
  shows "ph_reserve_fault (timely_phase delay deadline M ph) = ph_reserve_fault ph"
proof -
  let ?t0 = "fst (wait_for (mo_cancel M) delay)" and ?ctx = "accept_context delay deadline M"
  let ?tv = "?t0 + mo_verify M"
  let ?b = "with_timeout (Some ?ctx) ?tv (max (request_deadline deadline - reserveMargin) reserveMargin)"
  let ?t1 = "fst (within ?b ?tv (mo_hmget M))"
  let ?t2 = "if mo_cached M then ?t1 else fst (within ?b ?t1 (map_option fst (mo_chain M)))"
  have v: "0 \<le> mo_verify M" "0 \<le> r" using assms(1,4) by (simp_all add: durations_ok_def)
  have ctx: "?ctx = ?t0 + request_deadline deadline" by (simp add: accept_context_def assms(2) with_timeout_def)
  have b: "?b = min ?ctx (?tv + (request_deadline deadline - reserveMargin))" "?tv \<le> ?b"
    using assms(3,5) v ctx by (simp_all add: with_timeout_def reserveMargin_def)
  have "?t2 \<le> ?b"
    using within_le [of ?b ?tv "mo_hmget M"] within_le [of ?b ?t1 "map_option fst (mo_chain M)"] b(2) by auto
  with b(1) ctx assms(5) have "?t2 + r < ?ctx" by linarith
  then have "snd (within ?ctx ?t2 (mo_reserve M))" by (simp add: within_def assms(4))
  then show ?thesis by (simp add: timely_phase_def request_clock_def Let_def)
qed

text \<open>A read too slow for the request that started it still ends with its answer, for the next one.\<close>

lemma slow_read_survives:
  assumes "mo_chain M = Some (d, v)" "balance_deadline 0 \<le> d" "d < DefaultFetchTimeout"
  shows "detached_read 0 M = (d, True)" "snd (within (balance_deadline 0) 0 (map_option fst (mo_chain M))) = False"
  using assms by (simp_all add: detached_read_def fetch_timeout_def within_def with_timeout_def)

text \<open>Twenty-five milliseconds of verification leave nothing of the margin.\<close>

lemma verification_takes_the_margin:
  "snd (within (accept_context 0 0 M) (last (butlast (request_clock 0 0 M))) (Some 0)) = False"
  if "M = \<lparr>mo_cancel = None, mo_verify = reserveMargin, mo_hmget = Some 0, mo_cached = False, mo_chain = None,
    mo_reserve = Some 0\<rparr>"
  unfolding that
  by (simp add: request_clock_def accept_context_def wait_for_def with_timeout_def within_def Let_def reserveMargin_def
      request_deadline_def DefaultDeadline_def)

section \<open>Properties\<close>

text \<open>
  C18: the filter answers before Envoy gives up.  However slow Redis and the chain are, the
  request phase is over when the drill's delay and then the longer of the verification and
  the deadline (250 ms when none is set) have passed, and the response phase within a hundred
  milliseconds.  So with any delay, deadline and verification that fit in it, and by itself in
  the response phase, the answer comes within the message timeout of 300 ms that the
  controller's policy asks Envoy for.  And with a deadline of at least 50 ms a balance step
  that uses all of its time leaves the reserve script 25 ms, less what the verification took.
\<close>

theorem phases_end_before_envoys_timeout:
  assumes "durations_ok M"
  shows "sorted (request_clock delay deadline M) \<and>
    last (request_clock delay deadline M) \<le>
      max 0 delay + max (mo_verify M) (if 0 < deadline then deadline else 250 * msec) \<and>
    last (response_clock cancel cap rel) \<le> 100 * msec \<and>
    (\<exists>T. message_timeout (desired_eep pp svc) = Some T \<and>
       (max 0 delay + max (mo_verify M) (if 0 < deadline then deadline else 250 * msec) < T \<longrightarrow>
          last (request_clock delay deadline M) < T) \<and>
       (delay = 0 \<and> deadline \<le> 250 * msec \<and> mo_verify M < T \<longrightarrow> last (request_clock delay deadline M) < T) \<and>
       last (response_clock cancel cap rel) < T) \<and>
    (mo_cancel M = None \<and> (deadline \<le> 0 \<or> 50 * msec \<le> deadline) \<and> mo_reserve M = Some r \<and>
       mo_verify M + r < 25 * msec \<longrightarrow>
     ph_reserve_fault (timely_phase delay deadline M ph) = ph_reserve_fault ph)"
proof (intro conjI)
  let ?d = "if 0 < deadline then deadline else 250 * msec"
  have d: "request_deadline deadline = ?d" by (simp add: request_deadline_def DefaultDeadline_def)
  show "sorted (request_clock delay deadline M)" by (rule request_clock_sorted [OF assms])
  show last: "last (request_clock delay deadline M) \<le> max 0 delay + max (mo_verify M) ?d"
    using request_clock_last [OF assms, of delay deadline] wait_le(1) [of "mo_cancel M" delay] d by linarith
  show resp: "last (response_clock cancel cap rel) \<le> 100 * msec"
    using response_clock_last [of cancel cap rel] by (simp add: responsePhaseDeadline_def)
  show "\<exists>T. message_timeout (desired_eep pp svc) = Some T \<and>
       (max 0 delay + max (mo_verify M) ?d < T \<longrightarrow> last (request_clock delay deadline M) < T) \<and>
       (delay = 0 \<and> deadline \<le> 250 * msec \<and> mo_verify M < T \<longrightarrow> last (request_clock delay deadline M) < T) \<and>
       last (response_clock cancel cap rel) < T"
    using last resp by (intro exI [of _ "300 * msec"]) (auto simp: controller_timeout split: if_splits)
  show "mo_cancel M = None \<and> (deadline \<le> 0 \<or> 50 * msec \<le> deadline) \<and> mo_reserve M = Some r \<and>
       mo_verify M + r < 25 * msec \<longrightarrow>
     ph_reserve_fault (timely_phase delay deadline M ph) = ph_reserve_fault ph"
    using reserve_keeps_its_room [OF assms, of deadline r delay ph] d by (auto simp: reserveMargin_def)
qed

definition slow_read :: moments where
  "slow_read = \<lparr>mo_cancel = None, mo_verify = msec, mo_hmget = Some msec, mo_cached = False, mo_chain = None,
     mo_reserve = Some msec\<rparr>"

theorem phases_end_before_envoys_timeout_witness:
  "request_clock 0 0 slow_read = map (\<lambda>n. n * msec) [0, 1, 2, 226, 227] \<and>
   ph_arrival (timely_phase 0 0 slow_read demo_phase) = None \<and>
   ph_reserve_fault (timely_phase 0 0 slow_read demo_phase) = Answered"
proof -
  have M: "durations_ok slow_read" by (simp add: durations_ok_def slow_read_def)
  have "ph_reserve_fault (timely_phase 0 0 slow_read demo_phase) = ph_reserve_fault demo_phase"
    using phases_end_before_envoys_timeout [OF M, where delay = 0 and deadline = 0 and r = msec and ph = demo_phase]
    by (simp add: slow_read_def)
  then show ?thesis
    by (simp add: slow_read_def request_clock_def timely_phase_def accept_context_def wait_for_def with_timeout_def within_def
        Let_def reserveMargin_def request_deadline_def DefaultDeadline_def demo_phase_def)
qed

end
