(* ===== verification/Watches.thy ===== *)
theory Watches
  imports Controller
begin

text \<open>
  Which policies are reconciled when the cluster changes: the index and the watches that
  \<open>SetupWithManager\<close> of \<open>internal/controller/reconciler.go\<close> registers.  The manager delivers the
  events; that it keeps the index is a hypothesis of the property.
\<close>

section \<open>Events\<close>

text \<open>
  A policy, an EnvoyExtensionPolicy with the policy that controls it if any, or an HTTPRoute
  was created, changed or deleted.
\<close>

datatype cluster_event =
    PolicyEvent policy
  | ObjectEvent "(string \<times> string) option"
  | RouteEvent string string

definition target_index :: "policy \<Rightarrow> string list" where
  "target_index pp = [pl_target pp]"

text \<open>The requests an event queues: namespace and name of each policy to reconcile\<close>

fun enqueued :: "cluster \<Rightarrow> cluster_event \<Rightarrow> (string \<times> string) list" where
  "enqueued K (PolicyEvent pp) = [(pl_namespace pp, pl_name pp)]"
| "enqueued K (ObjectEvent owner) = (case owner of None \<Rightarrow> [] | Some key \<Rightarrow> [key])"
| "enqueued K (RouteEvent ns nm) = policies_for_route K ns nm"

section \<open>Lemmas: what a reconcile reads of the routes\<close>

lemma remove_eep_route [simp]: "remove_eep (K\<lparr>cl_route := r\<rparr>) pp = remove_eep K pp"
  by (rule ext) (simp add: remove_eep_def do_delete_def split: lookup.split)

lemma do_write_route [simp]: "do_write (K\<lparr>cl_route := r\<rparr>) w = do_write K w"
  by (rule ext) (simp add: do_write_def)

lemma do_delete_route [simp]: "do_delete (K\<lparr>cl_route := r\<rparr>) w = do_delete K w"
  by (rule ext) (simp add: do_delete_def)

lemma reconcile_policy_route:
  assumes "r ws (pl_namespace pp) (pl_target pp) = cl_route K ws (pl_namespace pp) (pl_target pp)"
  shows "reconcile_policy C ip ct (K\<lparr>cl_route := r\<rparr>) pp ws = reconcile_policy C ip ct K pp ws"
  using assms by (simp add: reconcile_policy_def cong: sum.case_cong lookup.case_cong option.case_cong)

lemma collect_policies_route:
  assumes "\<forall>pp \<in> set pps. find_route (pl_namespace pp) (pl_target pp) = find_route' (pl_namespace pp) (pl_target pp)"
  shows "collect_policies C ip nets find_route pps acc = collect_policies C ip nets find_route' pps acc"
  using assms by (induction pps arbitrary: acc) (simp_all split: sum.split lookup.split)

lemma project_route:
  assumes "cl_policies K ws = Some pps"
    and "\<forall>pp \<in> set pps. r ws (pl_namespace pp) (pl_target pp) = cl_route K ws (pl_namespace pp) (pl_target pp)"
  shows "project C ip ct (K\<lparr>cl_route := r\<rparr>) ws = project C ip ct K ws"
proof -
  have e: "collect_policies C ip (ct_networks ct) (r ws) pps ([], []) =
      collect_policies C ip (ct_networks ct) (cl_route K ws) pps ([], [])"
    by (rule collect_policies_route [OF assms(2)])
  show ?thesis
    by (cases "collect_policies C ip (ct_networks ct) (cl_route K ws) pps ([], [])")
      (auto simp: project_def assms(1) e Let_def split: sum.split)
qed

section \<open>Properties\<close>

text \<open>
  C36: no change of a route is missed.  Let an HTTPRoute appear, disappear or become
  unreadable, and nothing else change.  Every policy whose own reconcile now comes out
  differently is queued by the event, and when the price table, the ConfigMap or the grant
  comes out differently some policy is queued, whose reconcile recomputes them.
\<close>

theorem route_events_are_not_missed:
  assumes "cl_policies K ws = Some pps"
    and "cl_indexed K ns nm = Some (filter (\<lambda>pp. pl_namespace pp = ns \<and> nm \<in> set (target_index pp)) pps)"
    and "\<And>a b. (a, b) \<noteq> (ns, nm) \<Longrightarrow> r ws a b = cl_route K ws a b"
  shows "(\<forall>pp. pp \<in> set pps \<and>
       reconcile_policy C ip ct (K\<lparr>cl_route := r\<rparr>) pp ws \<noteq> reconcile_policy C ip ct K pp ws \<longrightarrow>
       (pl_namespace pp, pl_name pp) \<in> set (enqueued K (RouteEvent ns nm))) \<and>
    (project C ip ct (K\<lparr>cl_route := r\<rparr>) ws \<noteq> project C ip ct K ws \<longrightarrow> enqueued K (RouteEvent ns nm) \<noteq> [])"
proof -
  have q: "(pl_namespace pp, pl_name pp) \<in> set (enqueued K (RouteEvent ns nm))"
    if "pp \<in> set pps" "r ws (pl_namespace pp) (pl_target pp) \<noteq> cl_route K ws (pl_namespace pp) (pl_target pp)" for pp
    using that assms(2) assms(3) [of "pl_namespace pp" "pl_target pp"]
    by (force simp: policies_for_route_def target_index_def)
  show ?thesis
  proof (intro conjI allI impI)
    fix pp
    assume "pp \<in> set pps \<and> reconcile_policy C ip ct (K\<lparr>cl_route := r\<rparr>) pp ws \<noteq> reconcile_policy C ip ct K pp ws"
    then show "(pl_namespace pp, pl_name pp) \<in> set (enqueued K (RouteEvent ns nm))"
      using q reconcile_policy_route [of r ws pp K C ip ct] by blast
  next
    assume "project C ip ct (K\<lparr>cl_route := r\<rparr>) ws \<noteq> project C ip ct K ws"
    then obtain pp where "pp \<in> set pps"
      "r ws (pl_namespace pp) (pl_target pp) \<noteq> cl_route K ws (pl_namespace pp) (pl_target pp)"
      using project_route [OF assms(1)] by blast
    from q [OF this] show "enqueued K (RouteEvent ns nm) \<noteq> []" by (cases "enqueued K (RouteEvent ns nm)") simp_all
  qed
qed

theorem route_events_are_not_missed_witness:
  "snd (reconcile_policy demo_crypto (\<lambda>_. None) demo_controller
      ((demo_cluster [demo_policy] JNull)\<lparr>cl_route := \<lambda>_ _ _. Failed\<rparr>) demo_policy []) = Inl ReadFailed \<and>
   (''a'', ''p'') \<in> set (enqueued (demo_cluster [demo_policy] JNull) (RouteEvent ''a'' ''b''))"
proof -
  let ?K = "demo_cluster [demo_policy] JNull" and ?r = "\<lambda>ws a b. if (a, b) = (''a'', ''b'') then Failed else Found ()"
  have p: "pl_namespace demo_policy = ''a''" "pl_target demo_policy = ''b''" "pl_name demo_policy = ''p''"
    by (simp_all add: demo_policy_def)
  obtain e where e: "validate_policy demo_crypto (\<lambda>_. None) [Testnet] demo_policy = Inr e"
    using demo_policy_valid by (auto simp: is_ok_iff)
  have f: "reconcile_policy demo_crypto (\<lambda>_. None) demo_controller (?K\<lparr>cl_route := r\<rparr>) demo_policy [] = ([], Inl ReadFailed)"
    if "r [] ''a'' ''b'' = Failed" for r
    using that by (simp add: reconcile_policy_def e p fail_with_def)
  have g: "reconcile_policy demo_crypto (\<lambda>_. None) demo_controller ?K demo_policy [] \<noteq> ([], Inl ReadFailed)"
    by (simp add: reconcile_policy_def e p and_then_def do_write_def done_with_def)
  have i: "cl_indexed ?K ''a'' ''b'' =
      Some (filter (\<lambda>pp. pl_namespace pp = ''a'' \<and> ''b'' \<in> set (target_index pp)) [demo_policy])"
    by (simp add: demo_cluster_def target_index_def p)
  have o: "?r [] a b = cl_route ?K [] a b" if "(a, b) \<noteq> (''a'', ''b'')" for a b
    using that by auto
  have "reconcile_policy demo_crypto (\<lambda>_. None) demo_controller (?K\<lparr>cl_route := ?r\<rparr>) demo_policy [] \<noteq>
      reconcile_policy demo_crypto (\<lambda>_. None) demo_controller ?K demo_policy []"
    using f [of ?r] g by simp
  then have "(''a'', ''p'') \<in> set (enqueued ?K (RouteEvent ''a'' ''b''))"
    using route_events_are_not_missed [OF demo_cluster_simps(1) i o, THEN conjunct1, rule_format, of demo_policy] p
    by simp
  then show ?thesis using f by simp
qed

end
