(* ===== verification/BuyerCmd.thy ===== *)
theory BuyerCmd
  imports Buyer Facilitator Samples GoFlag
begin

text \<open>
  The buyer's command line, \<open>cmd/x402-buyer/main.go\<close>: each command as a function from its parsed
  flags and the answers of the world (files, exchanges, clock, randomness) to the lines it
  prints and the error it exits with.  \<open>BuyerMain\<close> reads the flags; elapsed times are texts the
  world supplies.
\<close>

section \<open>Flags, files and lines\<close>

record common =
  co_network :: string
  co_key_file :: string
  co_allow_mainnet :: bool
  co_timeout :: int

datatype cmd_error =
    FlagsRefused flag_error
  | NetworkName radius_error
  | NoHome
  | MainnetNotAllowed
  | NoKeyFile string
  | KeyUnreadable string
  | BadKeyFile string evm_error
  | KeyFileExists string
  | RandomFailed
  | DiskFailed
  | BadAddressArg evm_error
  | BadPayTo evm_error
  | BadAmount radius_error
  | DripRefused faucet_error int
  | DripFailed faucet_error
  | RpcFailed rpc_error
  | SignFailed buyer_error
  | LocalVerifyRefused verify_error
  | FacVerifyFailed fac_error
  | FacVerifyInvalid string
  | FacSettleFailed fac_error
  | FacSettleRefused string string
  | NotMovedYet
  | WantOneUrl
  | PayFailed buyer_error
  | GetFailed http_error
  | HttpStatus int
  | Want402 int
  | BadRequiredHeader codec_error
  | BadHeaderFlag string

datatype line = OutLine string | ErrLine string

type_synonym 'a cmd = "line list \<times> (cmd_error, 'a) result"

definition quiet :: "(cmd_error, 'a) result \<Rightarrow> 'a cmd" where
  "quiet r = ([], r)"

definition print_lines :: "line list \<Rightarrow> 'a cmd \<Rightarrow> 'a cmd" where
  "print_lines ls m = (ls @ fst m, snd m)"

definition bind_c :: "'a cmd \<Rightarrow> ('a \<Rightarrow> 'b cmd) \<Rightarrow> 'b cmd" where
  "bind_c m f = (case m of (ls, Inl e) \<Rightarrow> (ls, Inl e) | (ls, Inr a) \<Rightarrow> print_lines ls (f a))"

text \<open>\<open>newCommon\<close>'s defaults and \<open>parse\<close> after the flags are read\<close>

definition default_common :: "string \<Rightarrow> common" where
  "default_common key_env =
     \<lparr>co_network = ''testnet'', co_key_file = key_env, co_allow_mainnet = False, co_timeout = 30 * nsec\<rparr>"

definition common_parse :: "common \<Rightarrow> string option \<Rightarrow> (cmd_error, profile \<times> common) result" where
  "common_parse c home =
     bind_r (map_err NetworkName (lookup (co_network c))) (\<lambda>p.
       if co_key_file c \<noteq> [] then Inr (p, c)
       else (case home of
               None \<Rightarrow> Inl NoHome
             | Some h \<Rightarrow> Inr (p, c\<lparr>co_key_file := h @ ''/.x402/buyer-'' @ p_name p @ ''.key''\<rparr>)))"

definition spends :: "common \<Rightarrow> profile \<Rightarrow> (cmd_error, unit) result" where
  "spends c p = (if p_name p = p_name Mainnet \<and> \<not> co_allow_mainnet c then Inl MainnetNotAllowed else Inr ())"

text \<open>The disk: a file's text and permission bits, and the operations that fail on it\<close>

record key_file =
  fi_text :: string
  fi_mode :: nat

record disk =
  dk_file :: "string \<Rightarrow> key_file option"
  dk_readable :: "string \<Rightarrow> bool"
  dk_mkdir_ok :: bool
  dk_create_ok :: bool
  dk_write_ok :: bool

definition open_wallet :: "('pk, 'sk) crypto \<Rightarrow> disk \<Rightarrow> common \<Rightarrow> profile \<Rightarrow> 'sk wallet cmd" where
  "open_wallet C d c p =
     (case dk_file d (co_key_file c) of
        None \<Rightarrow> quiet (Inl (NoKeyFile (co_key_file c)))
      | Some f \<Rightarrow>
          if \<not> dk_readable d (co_key_file c) then quiet (Inl (KeyUnreadable (co_key_file c)))
          else print_lines
            (if fi_mode f mod 64 \<noteq> 0
             then [ErrLine (''warning: '' @ co_key_file c @ '' is readable by others; chmod 600 it'')] else [])
            (quiet (bind_r (map_err (BadKeyFile (co_key_file c)) (parse_private_key C (trim_space (fi_text f))))
              (\<lambda>k. Inr \<lparr>wa_key = k, wa_network = p\<rparr>))))"

section \<open>keygen, address, drip and balance\<close>

text \<open>\<open>keygen\<close> returns the disk too: a file created but not written is left empty.\<close>

definition keygen :: "('pk, 'sk) crypto \<Rightarrow> disk \<Rightarrow> common \<Rightarrow> profile \<Rightarrow> 'sk option \<Rightarrow> disk \<times> unit cmd" where
  "keygen C d c p key =
     (let put = (\<lambda>t. d\<lparr>dk_file := (dk_file d)(co_key_file c \<mapsto> \<lparr>fi_text = t, fi_mode = 384\<rparr>)\<rparr>) in
      if dk_file d (co_key_file c) \<noteq> None then (d, quiet (Inl (KeyFileExists (co_key_file c))))
      else (case key of
              None \<Rightarrow> (d, quiet (Inl RandomFailed))
            | Some k \<Rightarrow>
                if \<not> dk_mkdir_ok d \<or> \<not> dk_create_ok d then (d, quiet (Inl DiskFailed))
                else if \<not> dk_write_ok d then (put [], quiet (Inl DiskFailed))
                else (put (key_hex C k @ [CHR 0x0A]),
                      ([OutLine (p_name p @ '' key written to '' @ co_key_file c),
                        OutLine (''address '' @ address_string C (key_address C k))], Inr ()))))"

definition address_cmd :: "('pk, 'sk) crypto \<Rightarrow> disk \<Rightarrow> common \<Rightarrow> profile \<Rightarrow> unit cmd" where
  "address_cmd C d c p =
     bind_c (open_wallet C d c p) (\<lambda>w.
       ([OutLine (address_string C (wallet_address C w))], Inr ()))"

definition drip_cmd :: "('pk, 'sk) crypto \<Rightarrow> disk \<Rightarrow> common \<Rightarrow> profile \<Rightarrow> http \<Rightarrow> unit cmd" where
  "drip_cmd C d c p faucet =
     bind_c (open_wallet C d c p) (\<lambda>w.
       case drip C w faucet of
         Inl e \<Rightarrow>
           let ms = (case e of FaucetRefused r \<Rightarrow> dr_retryAfterMs r | WrongChallenge r \<Rightarrow> dr_retryAfterMs r | _ \<Rightarrow> 0)
           in quiet (Inl (if ms > 0 then DripRefused e ms else DripFailed e))
       | Inr r \<Rightarrow>
           ([OutLine (''dripped SBC to '' @ address_string C (wallet_address C w)),
             OutLine (''tx '' @ tx_url p (dr_txHash r))], Inr ()))"

definition balance_cmd ::
  "('pk, 'sk) crypto \<Rightarrow> disk \<Rightarrow> common \<Rightarrow> profile \<Rightarrow> string option \<Rightarrow> http \<Rightarrow> unit cmd" where
  "balance_cmd C d c p arg rpc =
     bind_c (case arg of
               Some s \<Rightarrow> quiet (map_err BadAddressArg (parse_address s))
             | None \<Rightarrow> bind_c (open_wallet C d c p) (\<lambda>w. quiet (Inr (wallet_address C w)))) (\<lambda>who.
     bind_c (quiet (map_err RpcFailed (balance_of C rpc SBCAddress who))) (\<lambda>bal.
       ([OutLine (format_sbc bal @ '' SBC  '' @ address_string C who @ '' on '' @ p_name p)], Inr ())))"

section \<open>settle\<close>

record settle_flags =
  se_pay_to :: string
  se_amount :: string
  se_max_timeout :: int
  se_valid_for :: int
  se_verify_only :: bool

text \<open>
  The answers the command meets.  The read of the payer's balance that starts at a time
  takes \<open>sw_read_ms\<close>; \<open>sw_deadline\<close> is when the command's context ends.
\<close>

record settle_world =
  sw_now :: int
  sw_nonce :: "bytes option"
  sw_payer_before :: http
  sw_to_before :: http
  sw_facilitator :: fac_http
  sw_settled_ms :: int
  sw_deadline :: int
  sw_payer_read :: "int \<Rightarrow> http"
  sw_read_ms :: "int \<Rightarrow> nat"
  sw_to_read :: "int \<Rightarrow> http"
  sw_elapsed :: "nat \<Rightarrow> string"

text \<open>
  The loop that waits for the transfer: the payer's balance is read, and again 250 ms
  later, until it has dropped far enough, a read fails or the context ends.  It returns
  the number of reads and the last balance with the time of the answer.
\<close>

definition poll_ms :: int where "poll_ms = 250"

function settle_wait ::
  "('pk, 'sk) crypto \<Rightarrow> settle_world \<Rightarrow> address \<Rightarrow> int \<Rightarrow> int \<Rightarrow> nat \<times> (cmd_error, int \<times> int) result" where
  "settle_wait C W payer want t =
     (case balance_of C (sw_payer_read W t) SBCAddress payer of
        Inl e \<Rightarrow> (1, Inl (RpcFailed e))
      | Inr after \<Rightarrow>
          let t' = t + int (sw_read_ms W t) in
          if after \<le> want then (1, Inr (after, t'))
          else if sw_deadline W \<le> t' + poll_ms then (1, Inl NotMovedYet)
          else (case settle_wait C W payer want (t' + poll_ms) of (n, r) \<Rightarrow> (Suc n, r)))"
  by pat_completeness auto
termination
  by (relation "measure (\<lambda>(C, W, payer, want, t). nat (sw_deadline W - t))") (auto simp: poll_ms_def)

text \<open>From the facilitator's answer to the transfer seen on chain\<close>

definition settle_remote ::
  "('pk, 'sk) crypto \<Rightarrow> profile \<Rightarrow> settle_flags \<Rightarrow> settle_world \<Rightarrow> address \<Rightarrow> address \<Rightarrow> int \<Rightarrow> int \<Rightarrow> int
     \<Rightarrow> requirements \<Rightarrow> payment_payload \<Rightarrow> unit cmd" where
  "settle_remote C p f W payer to atomic before to_before req pp =
     (case fac_verify (sw_facilitator W) pp req of
     (vr, Some e) \<Rightarrow> quiet (Inl (FacVerifyFailed e))
   | (vr, None) \<Rightarrow>
       if \<not> vr_isValid vr then quiet (Inl (FacVerifyInvalid (vr_invalidReason vr)))
       else print_lines
         [OutLine (''facilitator /verify  valid, payer '' @ vr_payer vr @ '', '' @ sw_elapsed W 1)] (
       if se_verify_only f then quiet (Inr ())
       else (case fac_settle (sw_facilitator W) pp req of
           (sr, Some e) \<Rightarrow> quiet (Inl (FacSettleFailed e))
         | (sr, None) \<Rightarrow>
             if \<not> sr_success sr then quiet (Inl (FacSettleRefused (sr_errorReason sr) (sr_transaction sr)))
             else print_lines
               [OutLine (''facilitator /settle  success, '' @ sw_elapsed W 2),
                OutLine (''tx '' @ tx_url p (sr_transaction sr))] (
             bind_c (quiet (snd (settle_wait C W payer (before - atomic) (sw_settled_ms W)))) (\<lambda>(after, t).
             bind_c (quiet (map_err RpcFailed (balance_of C (sw_to_read W t) SBCAddress to))) (\<lambda>to_after.
               ([OutLine (''on chain             payer -'' @ format_sbc (before - after)
                   @ '' SBC, payTo +'' @ format_sbc (to_after - to_before) @ '' SBC'')], Inr ())))))))"

definition settle_cmd ::
  "('pk, 'sk) crypto \<Rightarrow> disk \<Rightarrow> common \<Rightarrow> profile \<Rightarrow> settle_flags \<Rightarrow> settle_world \<Rightarrow> unit cmd" where
  "settle_cmd C d c p f W =
     bind_c (quiet (if se_verify_only f then Inr () else spends c p)) (\<lambda>_.
     bind_c (quiet (map_err BadPayTo (parse_address (se_pay_to f)))) (\<lambda>to.
     bind_c (quiet (map_err BadAmount (parse_sbc (se_amount f)))) (\<lambda>atomic.
     bind_c (open_wallet C d c p) (\<lambda>w.
     let req = exact_requirements p (int_str atomic) (address_string C to) (se_max_timeout f);
         res = \<lparr>rs_url = ''urn:x402-buyer:settle'', rs_description = ''x402-buyer settle check'',
                rs_mimeType = [], rs_serviceName = [], rs_tags = [], rs_iconUrl = []\<rparr>;
         me = address_string C (wallet_address C w)
     in
     bind_c (quiet (map_err SignFailed (sign C w req (Some res) (sw_now W) (se_valid_for f) (sw_nonce W)))) (\<lambda>pp.
     print_lines
       [OutLine (''payer   '' @ me), OutLine (''payTo   '' @ address_string C to),
        OutLine (''amount  '' @ format_sbc atomic @ '' SBC ('' @ int_str atomic @ '' atomic) on '' @ network p)] (
     bind_c (quiet (map_err LocalVerifyRefused (verify C (sw_now W) req (wallet_domain w) pp))) (\<lambda>v.
     print_lines
       [OutLine (''local verify         ok, payer '' @ address_string C (v_payer v) @ '', '' @ sw_elapsed W 0)] (
     bind_c (quiet (map_err RpcFailed (balance_of C (sw_payer_before W) SBCAddress (wallet_address C w)))) (\<lambda>before.
     bind_c (quiet (map_err RpcFailed (balance_of C (sw_to_before W) SBCAddress to))) (\<lambda>to_before.
     print_lines
       (if before < atomic
        then [OutLine (''warning: payer holds '' @ format_sbc before
                @ '' SBC, less than the amount; expect insufficient_funds (run drip)'')] else []) (
     settle_remote C p f W (wallet_address C w) to atomic before to_before req pp)))))))))))"

section \<open>pay and sign\<close>

text \<open>A repeated \<open>-H\<close> flag\<close>

definition header_flag ::
  "string \<Rightarrow> (string \<times> string) list \<Rightarrow> (cmd_error, (string \<times> string) list) result" where
  "header_flag s hs =
     (case cut_at (CHR '':'') s of (name, val, found) \<Rightarrow>
        if \<not> found then Inl (BadHeaderFlag s) else Inr (hs @ [(trim_space name, trim_space val)]))"

record pay_flags =
  py_method :: string
  py_data :: string
  py_max :: string
  py_valid_for :: int
  py_headers :: "(string \<times> string) list"
  py_args :: "string list"

text \<open>
  One exchange of the command's HTTP client: method, URL, body, the \<open>-H\<close> headers, and the
  headers \<open>Pay\<close> adds.
\<close>

type_synonym exchange =
  "string \<Rightarrow> string \<Rightarrow> string option \<Rightarrow> (string \<times> string) list \<Rightarrow> (string \<times> string) list
     \<Rightarrow> (http_error, http_response) result"

definition bool_str :: "bool \<Rightarrow> string" where
  "bool_str b = (if b then ''true'' else ''false'')"

text \<open>The report of a settlement header; \<open>show\<close> is how Go prints the extension's value.\<close>

definition settlement_lines :: "(json option \<Rightarrow> string) \<Rightarrow> profile \<Rightarrow> settle_response option \<Rightarrow> line list" where
  "settlement_lines show_json p s =
     (case s of
        None \<Rightarrow> []
      | Some r \<Rightarrow>
          [ErrLine (''settlement '' @ bool_str (sr_success r) @
             (if sr_transaction r \<noteq> [] then '', tx '' @ tx_url p (sr_transaction r)
              else if sr_errorReason r \<noteq> [] then '', '' @ sr_errorReason r
              else '', pending '' @ show_json (map_of (rev (sr_extensions r)) SettlementExtension)))])"

text \<open>The amount of an offer that was paid parses: choosing it did.\<close>

definition paid_line :: "pay_outcome \<Rightarrow> line" where
  "paid_line out =
     (case po_paid out of
        Some r \<Rightarrow>
          if rq_amount r \<noteq> []
          then ErrLine (''paid '' @ format_sbc (case parse_uint256 (rq_amount r) of Inr v \<Rightarrow> v | Inl _ \<Rightarrow> 0)
                 @ '' SBC to '' @ rq_payTo r @ '' on '' @ rq_network r)
          else ErrLine ''no 402; nothing paid''
      | None \<Rightarrow> ErrLine ''no 402; nothing paid'')"

definition pay_cmd ::
  "('pk, 'sk) crypto \<Rightarrow> (json option \<Rightarrow> string) \<Rightarrow> disk \<Rightarrow> common \<Rightarrow> profile \<Rightarrow> pay_flags \<Rightarrow> exchange \<Rightarrow> int
     \<Rightarrow> bytes option \<Rightarrow> bool \<Rightarrow> unit cmd \<times> string option" where
  "pay_cmd C show_json d c p f ex now nonce stdout_ok =
     (case py_args f of
        [url] \<Rightarrow>
          (case bind_c (quiet (spends c p)) (\<lambda>_.
                bind_c (quiet (map_err BadAmount (parse_sbc (py_max f)))) (\<lambda>limit.
                bind_c (open_wallet C d c p) (\<lambda>w. quiet (Inr (limit, w))))) of
             (ls, Inl e) \<Rightarrow> ((ls, Inl e), None)
           | (ls, Inr (limit, w)) \<Rightarrow>
               (case pay C w (ex (py_method f) url (if py_data f = [] then None else Some (py_data f)) (py_headers f))
                       (Some limit) now (py_valid_for f) nonce of
                  (out, Some e, sent) \<Rightarrow> ((ls, Inl (PayFailed e)), sent)
                | (out, None, sent) \<Rightarrow>
                    ((ls @ [paid_line out, ErrLine (''HTTP '' @ int_str (po_status out))]
                         @ settlement_lines show_json p (po_settlement out) @ [OutLine (po_body out)],
                      if \<not> stdout_ok then Inl DiskFailed
                      else if po_status out \<ge> 400 then Inl (HttpStatus (po_status out))
                      else Inr ()), sent)))
      | _ \<Rightarrow> (quiet (Inl WantOneUrl), None))"

definition sign_cmd ::
  "('pk, 'sk) crypto \<Rightarrow> disk \<Rightarrow> common \<Rightarrow> profile \<Rightarrow> pay_flags \<Rightarrow> exchange \<Rightarrow> int \<Rightarrow> bytes option \<Rightarrow> unit cmd" where
  "sign_cmd C d c p f ex now nonce =
     (case py_args f of
        [url] \<Rightarrow>
          bind_c (quiet (spends c p)) (\<lambda>_.
          bind_c (quiet (map_err BadAmount (parse_sbc (py_max f)))) (\<lambda>limit.
          bind_c (open_wallet C d c p) (\<lambda>w.
          bind_c (quiet (map_err GetFailed (ex (py_method f) url None [] []))) (\<lambda>resp.
            if hr_status resp \<noteq> 402 then quiet (Inl (Want402 (hr_status resp)))
            else
          bind_c (quiet (map_err BadRequiredHeader
                    (decode_payment_required (header_get (hr_headers resp) HeaderPaymentRequired)))) (\<lambda>pr.
          bind_c (quiet (map_err PayFailed (choose_offer w pr (Some limit)))) (\<lambda>offer.
          bind_c (quiet (map_err SignFailed
                    (sign C w offer (Some (pr_resource pr)) now (py_valid_for f) nonce))) (\<lambda>pp.
            ([OutLine (encode_payment_payload pp)], Inr ()))))))))
      | _ \<Rightarrow> quiet (Inl WantOneUrl))"

section \<open>Lemmas\<close>

lemma quiet_simps [simp]: "fst (quiet r) = []" "snd (quiet r) = r"
  by (simp_all add: quiet_def)

lemma bind_c_quiet_Inl [simp]: "bind_c (quiet (Inl e)) f = quiet (Inl e)"
  by (simp add: bind_c_def quiet_def)

lemma bind_c_quiet_Inr [simp]: "bind_c (quiet (Inr a)) f = f a"
  by (simp add: bind_c_def quiet_def print_lines_def)

lemma print_lines_Nil [simp]: "print_lines [] m = m"
  by (simp add: print_lines_def)

lemma snd_print_lines [simp]: "snd (print_lines ls m) = snd m"
  by (simp add: print_lines_def)

lemma snd_bind_c: "snd (bind_c m f) = (case snd m of Inl e \<Rightarrow> Inl e | Inr a \<Rightarrow> snd (f a))"
  by (auto simp: bind_c_def split: prod.splits sum.splits)

lemma mainnet_refused:
  "p_name p = p_name Mainnet \<Longrightarrow> \<not> co_allow_mainnet c \<Longrightarrow> spends c p = Inl MainnetNotAllowed"
  by (simp add: spends_def)

text \<open>A key file holds the key's text and a newline, which the wallet trims.\<close>

lemma trim_space_newline:
  assumes "\<And>c. c \<in> set s \<Longrightarrow> 32 < code c \<and> code c < 127" "s \<noteq> []"
  shows "trim_space (s @ [CHR 0x0A]) = s"
proof -
  obtain c r where c: "s = c # r" using assms(2) by (cases s) auto
  obtain d t where d: "rev s = d # t" using assms(2) by (cases "rev s") auto
  have notin: "x \<notin> set (map hd space_seqs)" "x \<notin> set (map last space_seqs)" if "x \<in> set s" for x
    using assms(1) [OF that] by (auto simp: space_seqs_def)
  have "strip_one space_seqs (s @ [CHR 0x0A]) = None"
    using c notin(1) [of c] by (simp add: strip_one_ascii)
  then have l: "strip_all n space_seqs (s @ [CHR 0x0A]) = s @ [CHR 0x0A]" for n by (rule strip_all_none)
  have "d \<in> set s" using d by (metis list.set_intros(1) set_rev)
  then have n: "strip_one (map rev space_seqs) (rev s) = None" using d notin(2) by (simp add: strip_one_rev)
  have "strip_one (map rev space_seqs) (CHR 0x0A # rev s) = Some (rev s)"
    by (simp add: strip_one_def space_seqs_def)
  then show ?thesis by (simp add: trim_space_def l strip_all_none [OF n])
qed

lemma hex_encode_printable: "c \<in> set (hex_encode b) \<Longrightarrow> 32 < code c \<and> code c < 127"
proof (induction b)
  case (Cons x xs)
  have h: "32 < code (hex_char n) \<and> code (hex_char n) < 127" if "n < 16" for n
    using hex_char_code [OF that] that by auto
  have "unat x div 16 < 16" using unsigned_less [of x, where 'a = nat] by simp
  with Cons h [of "unat x div 16"] h [of "unat x mod 16"] show ?case by auto
qed simp

lemma key_hex_printable: "c \<in> set (key_hex C k) \<Longrightarrow> 32 < code c \<and> code c < 127"
  by (auto simp: key_hex_def hex_0x_def dest: hex_encode_printable)

lemma open_wallet_keygen:
  assumes "crypto_laws C" "keygen C d c p (Some k) = (d', ls, Inr ())" "dk_readable d' (co_key_file c)"
  shows "open_wallet C d' c p = ([], Inr \<lparr>wa_key = k, wa_network = p\<rparr>)"
proof -
  have f: "dk_file d' (co_key_file c) = Some \<lparr>fi_text = key_hex C k @ [CHR 0x0A], fi_mode = 384\<rparr>"
    using assms(2) by (auto simp: keygen_def Let_def quiet_def split: if_splits)
  have "trim_space (key_hex C k @ [CHR 0x0A]) = key_hex C k"
    by (rule trim_space_newline) (simp_all add: key_hex_printable, simp add: key_hex_def hex_0x_def)
  with f assms(3) show ?thesis
    by (simp add: open_wallet_def parse_private_key_hex [OF assms(1)] quiet_def)
qed

text \<open>The wait\<close>

lemma settle_wait_reads:
  "int (fst (settle_wait C W payer want t)) \<le> max 0 ((sw_deadline W - t) div poll_ms) + 1"
proof (induction C W payer want t rule: settle_wait.induct)
  case (1 C W payer want t)
  show ?case
  proof (cases "balance_of C (sw_payer_read W t) SBCAddress payer")
    case (Inl e)
    then show ?thesis by (subst settle_wait.simps) simp
  next
    case (Inr after)
    define t1 where "t1 = t + int (sw_read_ms W t) + poll_ms"
    show ?thesis
    proof (cases "after \<le> want \<or> sw_deadline W \<le> t1")
      case True
      then show ?thesis using Inr by (subst settle_wait.simps) (auto simp: Let_def t1_def)
    next
      case False
      obtain n r where n: "settle_wait C W payer want t1 = (n, r)" by fastforce
      have IH: "int n \<le> max 0 ((sw_deadline W - t1) div poll_ms) + 1"
        using "1.IH" [OF Inr refl] False n by (simp add: t1_def)
      have "sw_deadline W - t1 + poll_ms \<le> sw_deadline W - t" by (simp add: t1_def)
      then have "(sw_deadline W - t1 + poll_ms) div poll_ms \<le> (sw_deadline W - t) div poll_ms"
        by (rule zdiv_mono1) (simp add: poll_ms_def)
      moreover have "(sw_deadline W - t1 + poll_ms) div poll_ms = (sw_deadline W - t1) div poll_ms + 1"
        by (simp add: poll_ms_def)
      moreover have "0 \<le> (sw_deadline W - t1) div poll_ms"
        using False by (intro pos_imp_zdiv_nonneg_iff [THEN iffD2]) (simp_all add: poll_ms_def)
      moreover have "fst (settle_wait C W payer want t) = Suc n"
        using Inr False n by (subst settle_wait.simps) (simp add: Let_def t1_def)
      ultimately show ?thesis using IH by linarith
    qed
  qed
qed

lemma settle_wait_Inr:
  assumes "settle_wait C W payer want t = (n, Inr (after, t'))"
  shows "after \<le> want \<and> (\<exists>t0 \<ge> t. balance_of C (sw_payer_read W t0) SBCAddress payer = Inr after \<and>
    t' = t0 + int (sw_read_ms W t0))"
  using assms
proof (induction C W payer want t arbitrary: n rule: settle_wait.induct)
  case (1 C W payer want t)
  show ?case
  proof (cases "balance_of C (sw_payer_read W t) SBCAddress payer")
    case (Inl e)
    with "1.prems" show ?thesis by (subst (asm) settle_wait.simps) simp
  next
    case (Inr now)
    define t1 where "t1 = t + int (sw_read_ms W t) + poll_ms"
    show ?thesis
    proof (cases "now \<le> want \<or> sw_deadline W \<le> t1")
      case True
      with "1.prems" Inr show ?thesis
        by (subst (asm) settle_wait.simps) (auto simp: Let_def t1_def split: if_splits)
    next
      case False
      then obtain m where "settle_wait C W payer want t1 = (m, Inr (after, t'))"
        using "1.prems" Inr by (subst (asm) settle_wait.simps) (auto simp: Let_def t1_def split: prod.splits)
      moreover have "t \<le> t1" by (simp add: t1_def poll_ms_def)
      ultimately show ?thesis using "1.IH" [OF Inr refl, folded t1_def] False by (meson order_trans)
    qed
  qed
qed

lemma snd_bind_c_Inr:
  "snd (bind_c m f) = Inr x \<longleftrightarrow> (\<exists>a. snd m = Inr a \<and> snd (f a) = Inr x)"
  by (auto simp: snd_bind_c split: sum.splits)

lemmas cmd_Inr = snd_bind_c_Inr snd_print_lines quiet_simps map_err_eq_Inr

text \<open>What a settle that was carried through has seen\<close>

lemma settle_cmd_Inr:
  assumes "snd (settle_cmd C d c p f W) = Inr ()" "\<not> se_verify_only f"
  obtains to atomic w before after t where
    "spends c p = Inr ()" "parse_address (se_pay_to f) = Inr to" "parse_sbc (se_amount f) = Inr atomic"
    "snd (open_wallet C d c p) = Inr w"
    "balance_of C (sw_payer_before W) SBCAddress (wallet_address C w) = Inr before"
    "snd (settle_wait C W (wallet_address C w) (before - atomic) (sw_settled_ms W)) = Inr (after, t)"
proof -
  from assms obtain u to atomic w before req pp to_before where a:
    "spends c p = Inr u" "parse_address (se_pay_to f) = Inr to" "parse_sbc (se_amount f) = Inr atomic"
    "snd (open_wallet C d c p) = Inr w"
    "balance_of C (sw_payer_before W) SBCAddress (wallet_address C w) = Inr before"
    and r: "snd (settle_remote C p f W (wallet_address C w) to atomic before to_before req pp) = Inr ()"
    unfolding settle_cmd_def Let_def cmd_Inr by (simp only: if_False) blast
  obtain after t where "snd (settle_wait C W (wallet_address C w) (before - atomic) (sw_settled_ms W)) = Inr (after, t)"
    using r assms(2) by (auto simp: settle_remote_def cmd_Inr split: prod.splits option.splits if_splits)
  with a show thesis by (intro that) simp_all
qed

text \<open>
  On mainnet without \<open>-allow-mainnet\<close> the three commands that spend end before the wallet is
  opened: \<open>pay\<close> sends nothing and \<open>pay\<close>, \<open>sign\<close> and \<open>settle\<close> print nothing, whatever the files
  and the network answer.
\<close>

lemma mainnet_ends_early:
  assumes "p_name p = p_name Mainnet" "\<not> co_allow_mainnet c"
  shows "(\<exists>e. e \<in> {MainnetNotAllowed, WantOneUrl} \<and>
      pay_cmd C show_json d c p f ex now nonce stdout_ok = (([], Inl e), None) \<and>
      sign_cmd C d c p f ex now nonce = ([], Inl e)) \<and>
    (if se_verify_only g then True else settle_cmd C d c p g W = ([], Inl MainnetNotAllowed))"
proof -
  have s: "spends c p = Inl MainnetNotAllowed" by (rule mainnet_refused [OF assms])
  have "settle_cmd C d c p g W = ([], Inl MainnetNotAllowed)" if "\<not> se_verify_only g"
    using that by (simp add: settle_cmd_def s) (simp add: quiet_def)
  moreover have "\<exists>e. e \<in> {MainnetNotAllowed, WantOneUrl} \<and>
      pay_cmd C show_json d c p f ex now nonce stdout_ok = (([], Inl e), None) \<and>
      sign_cmd C d c p f ex now nonce = ([], Inl e)"
  proof (cases "\<exists>url. py_args f = [url]")
    case True
    then show ?thesis
      by (intro exI [of _ MainnetNotAllowed], elim exE)
        (simp add: pay_cmd_def sign_cmd_def s, simp add: quiet_def)
  next
    case False
    then show ?thesis
      by (intro exI [of _ WantOneUrl]) (auto simp: pay_cmd_def sign_cmd_def quiet_def split: list.splits)
  qed
  ultimately show ?thesis by simp
qed

section \<open>Properties\<close>

text \<open>
  C35: a settle that succeeds has seen the money move, and the wait for it ends.  When the
  command exits with success after a settlement, the payer's balance read from the chain is
  at least the amount below the one read before; and the wait makes no more reads than one
  and one per 250 ms of the time the command has left.
\<close>

theorem settle_rests_on_the_chain:
  assumes "snd (settle_cmd C d c p f W) = Inr ()" "\<not> se_verify_only f"
  shows "\<exists>w atomic before after t0. snd (open_wallet C d c p) = Inr w \<and> parse_sbc (se_amount f) = Inr atomic \<and>
    spends c p = Inr () \<and>
    balance_of C (sw_payer_before W) SBCAddress (wallet_address C w) = Inr before \<and>
    balance_of C (sw_payer_read W t0) SBCAddress (wallet_address C w) = Inr after \<and> sw_settled_ms W \<le> t0 \<and>
    after \<le> before - atomic \<and>
    int (fst (settle_wait C W (wallet_address C w) (before - atomic) (sw_settled_ms W)))
      \<le> max 0 ((sw_deadline W - sw_settled_ms W) div poll_ms) + 1"
proof -
  from settle_cmd_Inr [OF assms] obtain to atomic w before after t where a:
    "spends c p = Inr ()" "parse_sbc (se_amount f) = Inr atomic" "snd (open_wallet C d c p) = Inr w"
    "balance_of C (sw_payer_before W) SBCAddress (wallet_address C w) = Inr before"
    "snd (settle_wait C W (wallet_address C w) (before - atomic) (sw_settled_ms W)) = Inr (after, t)" .
  from a(5) obtain n where "settle_wait C W (wallet_address C w) (before - atomic) (sw_settled_ms W) = (n, Inr (after, t))"
    by (metis prod.collapse)
  from settle_wait_Inr [OF this] settle_wait_reads [of C W "wallet_address C w" "before - atomic" "sw_settled_ms W"] a
  show ?thesis by blast
qed

text \<open>
  \<open>keygen\<close> never overwrites a file, and the key it writes is the key every later
  command reads, without a warning about the file's permissions.
\<close>

theorem keygen_roundtrip:
  assumes "crypto_laws C" "keygen C d c p (Some k) = (d', ls, r)" "dk_readable d' (co_key_file c)"
  shows "(\<forall>path. dk_file d path \<noteq> None \<longrightarrow> dk_file d' path = dk_file d path) \<and>
    (r = Inr () \<longrightarrow> dk_file d (co_key_file c) = None \<and>
       open_wallet C d' c p = ([], Inr \<lparr>wa_key = k, wa_network = p\<rparr>))"
proof -
  have "\<forall>path. dk_file d path \<noteq> None \<longrightarrow> dk_file d' path = dk_file d path"
    using assms(2) by (auto simp: keygen_def Let_def split: if_splits)
  moreover have "dk_file d (co_key_file c) = None" if "r = Inr ()"
    using assms(2) that by (auto simp: keygen_def Let_def quiet_def split: if_splits)
  ultimately show ?thesis using open_wallet_keygen [OF assms(1)] assms(2,3) by blast
qed

section \<open>Concrete commands\<close>

definition demo_common :: common where
  "demo_common = (default_common ''k'')"

definition demo_empty_disk :: disk where
  "demo_empty_disk =
     \<lparr>dk_file = (\<lambda>_. None), dk_readable = (\<lambda>_. True), dk_mkdir_ok = True, dk_create_ok = True, dk_write_ok = True\<rparr>"

definition demo_disk :: disk where
  "demo_disk = fst (keygen demo_crypto demo_empty_disk demo_common Testnet (Some 5))"

lemma demo_keygen:
  obtains ls where "keygen demo_crypto demo_empty_disk demo_common Testnet (Some 5) = (demo_disk, ls, Inr ())"
  by (simp add: demo_disk_def keygen_def demo_empty_disk_def Let_def)

lemma demo_disk_readable: "dk_readable demo_disk path"
  by (simp add: demo_disk_def keygen_def demo_empty_disk_def Let_def)

lemma demo_open: "open_wallet demo_crypto demo_disk demo_common Testnet = ([], Inr demo_wallet)"
proof -
  obtain ls where "keygen demo_crypto demo_empty_disk demo_common Testnet (Some 5) = (demo_disk, ls, Inr ())"
    by (rule demo_keygen)
  from open_wallet_keygen [OF demo_laws this demo_disk_readable]
  show ?thesis by (simp add: demo_wallet_def)
qed

theorem keygen_roundtrip_witness:
  "\<exists>ls. keygen demo_crypto demo_empty_disk demo_common Testnet (Some 5) = (demo_disk, ls, Inr ()) \<and>
    open_wallet demo_crypto demo_disk demo_common Testnet = ([], Inr \<lparr>wa_key = 5, wa_network = Testnet\<rparr>)"
proof -
  obtain ls where k: "keygen demo_crypto demo_empty_disk demo_common Testnet (Some 5) = (demo_disk, ls, Inr ())"
    by (rule demo_keygen)
  from keygen_roundtrip [OF demo_laws k demo_disk_readable] k show ?thesis by blast
qed

definition demo_pay_flags :: pay_flags where
  "demo_pay_flags = \<lparr>py_method = ''GET'', py_data = [], py_max = ''0.01'', py_valid_for = 0, py_headers = [],
     py_args = [''http://api/'']\<rparr>"

text \<open>A chain that answers every balance read with one small amount\<close>

definition demo_chain :: "byte \<Rightarrow> http" where
  "demo_chain v = (\<lambda>_. Inr (200, print_json (JObj [(''result'', JStr (hex_0x (replicate 31 0 @ [v])))])))"

lemma decode_stream_print:
  assumes "wf_json j" shows "decode_stream (print_json j) = Some j"
proof -
  have "json_value (Suc (Suc (length (print_json j)))) (print_json j @ []) = Some (j, [])"
    using fuel_of_print [OF assms] by (intro json_value_print assms) (simp_all add: stops_def)
  then show ?thesis by (simp add: decode_stream_def)
qed

lemma demo_chain_balance: "balance_of demo_crypto (demo_chain v) token holder = Inr (int (unat v))"
proof -
  let ?h = "hex_0x (replicate 31 0 @ [v])"
  have "ascii ?h"
    using hex_encode_printable by (fastforce simp: hex_0x_def ascii_code list_all_iff)
  then have "wf_json (JObj [(''result'', JStr ?h)])" by (simp add: ascii_code)
  then have "decode_stream (print_json (JObj [(''result'', JStr ?h)])) = Some (JObj [(''result'', JStr ?h)])"
    by (rule decode_stream_print)
  then have "rpc_call (demo_chain v) m ps = Inr ?h" for m ps
    by (simp add: rpc_call_def demo_chain_def set_envelope_def field_of_def)
  moreover have "trim_prefix ?h ''0x'' = hex_encode (replicate 31 0 @ [v])"
    by (simp add: hex_0x_def trim_prefix_def)
  ultimately show ?thesis using be_val_zeros [of 31 "[]"] by (simp add: balance_of_def call32_def)
qed

definition demo_settle_flags :: settle_flags where
  "demo_settle_flags =
     \<lparr>se_pay_to = address_string demo_crypto demo_payTo, se_amount = format_sbc 5, se_max_timeout = 60,
      se_valid_for = 0, se_verify_only = False\<rparr>"

definition demo_settle_world :: settle_world where
  "demo_settle_world =
     \<lparr>sw_now = 0, sw_nonce = Some (replicate 32 1), sw_payer_before = demo_chain 7, sw_to_before = demo_chain 0,
      sw_facilitator = demo_settle_http, sw_settled_ms = 0, sw_deadline = 1000, sw_payer_read = (\<lambda>_. demo_chain 2),
      sw_read_ms = (\<lambda>_. 0), sw_to_read = (\<lambda>_. demo_chain 5), sw_elapsed = (\<lambda>_. [])\<rparr>"

lemma demo_settle_runs:
  "snd (settle_cmd demo_crypto demo_disk demo_common Testnet demo_settle_flags demo_settle_world) = Inr ()"
proof -
  let ?req = "exact_requirements Testnet (int_str 5) (address_string demo_crypto demo_payTo) 60"
  let ?n = "replicate 32 (1::byte)"
  have t: "rq_timeout ?req = 60" "rq_payTo ?req = address_string demo_crypto demo_payTo"
    "rq_amount ?req = int_str 5" by (simp_all add: exact_requirements_def)
  have a: "parse_address (address_string demo_crypto demo_payTo) = Inr demo_payTo"
    by (rule parse_address_string) simp
  have o: "payable_offer demo_wallet ?req"
    by (simp add: payable_offer_def exact_requirements_def demo_wallet_def transfer_method_def)
  have v: "parse_uint256 (int_str 5) = Inr 5" by (rule parse_uint256_int_str) (simp_all add: max_uint256_def)
  have b: "0 \<le> unix (0 + sign_window (rq_timeout ?req) 0)"
    "unix (0 + sign_window (rq_timeout ?req) 0) \<le> max_uint256"
    unfolding add_0 t demo_window by (simp_all add: max_uint256_def)
  have s: "\<exists>pp. sign demo_crypto demo_wallet ?req res 0 0 (Some ?n) = Inr pp" for res
  proof (rule sign_total [OF demo_laws o _ _ _ b, of demo_payTo 5 ?n res])
    show "parse_address (rq_payTo ?req) = Inr demo_payTo" unfolding t(2) by (rule a)
    show "parse_uint256 (rq_amount ?req) = Inr 5" unfolding t(3) by (rule v)
  qed (simp, rule exI)
  have ver: "\<exists>r. verify demo_crypto 0 ?req (wallet_domain demo_wallet) pp = Inr r"
    if "sign demo_crypto demo_wallet ?req res 0 0 (Some ?n) = Inr pp" for res pp
    by (rule sign_verifies [OF demo_laws that, where t = 0])
      (simp_all add: demo_window t accept_limit_def skew_allowance_def i64_id is_int64_def,
       simp_all add: unix_def demo_sign [simplified])
  have amt: "parse_sbc (format_sbc 5) = Inr 5" by (rule parse_format_sbc) (simp_all add: max_uint256_def)
  have wait: "settle_wait demo_crypto demo_settle_world p 2 0 = (1, Inr (2, 0))" for p
    by (subst settle_wait.simps) (simp add: demo_settle_world_def demo_chain_balance)
  have w: "sw_now demo_settle_world = 0" "sw_nonce demo_settle_world = Some ?n"
    "sw_payer_before demo_settle_world = demo_chain 7" "sw_to_before demo_settle_world = demo_chain 0"
    "sw_facilitator demo_settle_world = demo_settle_http" "sw_settled_ms demo_settle_world = 0"
    "sw_to_read demo_settle_world t = demo_chain 5" for t
    by (simp_all add: demo_settle_world_def)
  have f: "se_verify_only demo_settle_flags = False" "se_pay_to demo_settle_flags = address_string demo_crypto demo_payTo"
    "se_amount demo_settle_flags = format_sbc 5" "se_max_timeout demo_settle_flags = 60" "se_valid_for demo_settle_flags = 0"
    by (simp_all add: demo_settle_flags_def)
  have sp: "spends demo_common Testnet = Inr ()" by (simp add: spends_def Testnet_def Mainnet_def)
  have rem: "snd (settle_remote demo_crypto Testnet demo_settle_flags demo_settle_world p to 5 7 z req pp) = Inr ()" for p to z req pp
    using demo_settle_answers [of pp req] wait [of p]
    by (auto simp: settle_remote_def w f snd_bind_c demo_chain_balance)
  obtain pp where pp: "sign demo_crypto demo_wallet ?req (Some \<lparr>rs_url = ''urn:x402-buyer:settle'',
      rs_description = ''x402-buyer settle check'', rs_mimeType = [], rs_serviceName = [], rs_tags = [],
      rs_iconUrl = []\<rparr>) 0 0 (Some ?n) = Inr pp" using s by blast
  obtain r where r: "verify demo_crypto 0 ?req (wallet_domain demo_wallet) pp = Inr r" using ver [OF pp] by blast
  show ?thesis
    unfolding settle_cmd_def Let_def f w sp a amt demo_open
    by (simp add: snd_bind_c pp r demo_chain_balance rem)
qed

theorem settle_rests_on_the_chain_witness:
  "snd (settle_cmd demo_crypto demo_disk demo_common Testnet demo_settle_flags demo_settle_world) = Inr () \<and>
   (\<exists>w before after t0. snd (open_wallet demo_crypto demo_disk demo_common Testnet) = Inr w \<and>
    balance_of demo_crypto (sw_payer_before demo_settle_world) SBCAddress (wallet_address demo_crypto w) = Inr before \<and>
    balance_of demo_crypto (sw_payer_read demo_settle_world t0) SBCAddress (wallet_address demo_crypto w) = Inr after \<and>
    after < before)"
proof -
  have v: "\<not> se_verify_only demo_settle_flags" "parse_sbc (se_amount demo_settle_flags) = Inr 5"
    by (simp_all add: demo_settle_flags_def parse_format_sbc max_uint256_def)
  from settle_rests_on_the_chain [OF demo_settle_runs v(1)] v(2) demo_settle_runs
  show ?thesis by fastforce
qed

end
