(* ===== verification/BuyerMain.thy ===== *)
theory BuyerMain
  imports BuyerCmd
begin

text \<open>
  \<open>main\<close> of \<open>cmd/x402-buyer/main.go\<close>: from the command line to the exit code.  The flag sets of
  the commands with their defaults, the reading of the arguments, the dispatch on the
  command's name.  The text of an error message is not part of the output here.
\<close>

section \<open>Flag sets\<close>

text \<open>The flags every command has; a command's own flags are the second component.\<close>

definition common_flags :: "(common \<times> 'f) flagset" where
  "common_flags =
     [string_flag ''network'' (\<lambda>v. apfst (\<lambda>c. c\<lparr>co_network := v\<rparr>)),
      string_flag ''key'' (\<lambda>v. apfst (\<lambda>c. c\<lparr>co_key_file := v\<rparr>)),
      bool_flag ''allow-mainnet'' (\<lambda>b. apfst (\<lambda>c. c\<lparr>co_allow_mainnet := b\<rparr>)),
      duration_flag ''timeout'' (\<lambda>t. apfst (\<lambda>c. c\<lparr>co_timeout := t\<rparr>))]"

definition settle_flagset :: "(common \<times> settle_flags) flagset" where
  "settle_flagset = common_flags @
     [string_flag ''pay-to'' (\<lambda>v. apsnd (\<lambda>f. f\<lparr>se_pay_to := v\<rparr>)),
      string_flag ''amount'' (\<lambda>v. apsnd (\<lambda>f. f\<lparr>se_amount := v\<rparr>)),
      int_flag ''max-timeout'' (\<lambda>i. apsnd (\<lambda>f. f\<lparr>se_max_timeout := i\<rparr>)),
      duration_flag ''valid-for'' (\<lambda>t. apsnd (\<lambda>f. f\<lparr>se_valid_for := t\<rparr>)),
      bool_flag ''verify-only'' (\<lambda>b. apsnd (\<lambda>f. f\<lparr>se_verify_only := b\<rparr>))]"

definition default_settle :: settle_flags where
  "default_settle =
     \<lparr>se_pay_to = [], se_amount = ''0.001'', se_max_timeout = 300, se_valid_for = 0, se_verify_only = False\<rparr>"

definition sign_flagset :: "(common \<times> pay_flags) flagset" where
  "sign_flagset = common_flags @
     [string_flag ''X'' (\<lambda>v. apsnd (\<lambda>f. f\<lparr>py_method := v\<rparr>)),
      string_flag ''max'' (\<lambda>v. apsnd (\<lambda>f. f\<lparr>py_max := v\<rparr>)),
      duration_flag ''valid-for'' (\<lambda>t. apsnd (\<lambda>f. f\<lparr>py_valid_for := t\<rparr>))]"

definition data_flag :: "(common \<times> pay_flags) flag" where
  "data_flag = string_flag ''d'' (\<lambda>v. apsnd (\<lambda>f. f\<lparr>py_data := v\<rparr>))"

definition extra_header_flag :: "(common \<times> pay_flags) flag" where
  "extra_header_flag =
     \<lparr>fg_name = ''H'', fg_bool = False,
      fg_set = (\<lambda>v (c, f). case header_flag v (py_headers f) of
                  Inl _ \<Rightarrow> None
                | Inr hs \<Rightarrow> Some (c, f\<lparr>py_headers := hs\<rparr>))\<rparr>"

definition pay_flagset :: "(common \<times> pay_flags) flagset" where
  "pay_flagset = sign_flagset @ [data_flag, extra_header_flag]"

definition default_pay :: pay_flags where
  "default_pay =
     \<lparr>py_method = ''GET'', py_data = [], py_max = ''0.01'', py_valid_for = 0, py_headers = [], py_args = []\<rparr>"

text \<open>\<open>newCommon\<close>, the command's own flags, and \<open>parse\<close>\<close>

definition parse_command ::
  "(common \<times> 'f) flagset \<Rightarrow> 'f \<Rightarrow> string \<Rightarrow> string option \<Rightarrow> string list
     \<Rightarrow> (cmd_error, profile \<times> common \<times> 'f \<times> string list) result" where
  "parse_command F f0 key_env home args =
     bind_r (map_err FlagsRefused (parse_flags F args (default_common key_env, f0))) (\<lambda>((c, f), rest).
     bind_r (common_parse c home) (\<lambda>(p, c'). Inr (p, c', f, rest)))"

section \<open>Dispatch\<close>

text \<open>
  Everything outside the process: two environment values, the disk, the random key, and the
  answers of the exchanges of the one command that runs.  \<open>bw_context_ms\<close> is when the command's
  context starts, so its deadline follows from the \<open>-timeout\<close> flag (rounded up to a millisecond).
\<close>

record 'sk buyer_world =
  bw_key_env :: string
  bw_home :: "string option"
  bw_disk :: disk
  bw_random :: "'sk option"
  bw_faucet :: http
  bw_rpc :: http
  bw_settle :: settle_world
  bw_context_ms :: int
  bw_exchange :: exchange
  bw_now :: int
  bw_nonce :: "bytes option"
  bw_stdout_ok :: bool
  bw_version :: string

definition command_names :: "string list" where
  "command_names = [''keygen'', ''address'', ''drip'', ''balance'', ''settle'', ''pay'', ''sign'', ''version'']"

definition context_deadline :: "'sk buyer_world \<Rightarrow> common \<Rightarrow> int" where
  "context_deadline W c = bw_context_ms W - (- co_timeout c) div msec"

text \<open>A command's disk, output and error, and the payment header it sent.\<close>

definition buyer_run ::
  "('pk, 'sk) crypto \<Rightarrow> (json option \<Rightarrow> string) \<Rightarrow> 'sk buyer_world \<Rightarrow> string \<Rightarrow> string list
     \<Rightarrow> disk \<times> unit cmd \<times> string option" where
  "buyer_run C show_json W nm args =
     (let d = bw_disk W; key = bw_key_env W; home = bw_home W;
          plain = (\<lambda>k. case parse_command common_flags () key home args of
                        Inl e \<Rightarrow> (d, quiet (Inl e), None)
                      | Inr (p, c, _, rest) \<Rightarrow> (case k p c rest of (d', m) \<Rightarrow> (d', m, None)))
      in if nm = ''keygen'' then plain (\<lambda>p c _. keygen C d c p (bw_random W))
         else if nm = ''address'' then plain (\<lambda>p c _. (d, address_cmd C d c p))
         else if nm = ''drip'' then plain (\<lambda>p c _. (d, drip_cmd C d c p (bw_faucet W)))
         else if nm = ''balance'' then
           plain (\<lambda>p c rest. (d, balance_cmd C d c p (case rest of [] \<Rightarrow> None | a # _ \<Rightarrow> Some a) (bw_rpc W)))
         else if nm = ''settle'' then
           (case parse_command settle_flagset default_settle key home args of
              Inl e \<Rightarrow> (d, quiet (Inl e), None)
            | Inr (p, c, f, _) \<Rightarrow>
                (d, settle_cmd C d c p f ((bw_settle W)\<lparr>sw_deadline := context_deadline W c\<rparr>), None))
         else if nm = ''pay'' then
           (case parse_command pay_flagset default_pay key home args of
              Inl e \<Rightarrow> (d, quiet (Inl e), None)
            | Inr (p, c, f, rest) \<Rightarrow>
                (d, pay_cmd C show_json d c p (f\<lparr>py_args := rest\<rparr>) (bw_exchange W) (bw_now W)
                      (bw_nonce W) (bw_stdout_ok W)))
         else if nm = ''sign'' then
           (case parse_command sign_flagset default_pay key home args of
              Inl e \<Rightarrow> (d, quiet (Inl e), None)
            | Inr (p, c, f, rest) \<Rightarrow>
                (d, sign_cmd C d c p (f\<lparr>py_args := rest\<rparr>) (bw_exchange W) (bw_now W) (bw_nonce W), None))
         else (d, ([OutLine (bw_version W)], Inr ()), None))"

text \<open>\<open>main\<close>: the disk, the lines, the payment header sent, the exit code\<close>

definition buyer_main ::
  "('pk, 'sk) crypto \<Rightarrow> (json option \<Rightarrow> string) \<Rightarrow> 'sk buyer_world \<Rightarrow> string list
     \<Rightarrow> disk \<times> line list \<times> string option \<times> int" where
  "buyer_main C show_json W argv =
     (case argv of
        prog # nm # args \<Rightarrow>
          if nm \<notin> set command_names then (bw_disk W, [], None, 2)
          else (case buyer_run C show_json W nm args of
                  (d, (ls, r), sent) \<Rightarrow> (d, ls, sent, if is_ok r then 0 else 1))
      | _ \<Rightarrow> (bw_disk W, [], None, 2))"

section \<open>Lemmas: mainnet needs its flag\<close>

lemma common_flags_guard:
  "f \<in> set common_flags \<Longrightarrow> fg_name f \<noteq> ''allow-mainnet'' \<Longrightarrow> fg_set f v c = Some c' \<Longrightarrow>
     co_allow_mainnet (fst c') = co_allow_mainnet (fst c)"
  by (auto simp: common_flags_def flag_kinds)

interpretation settle_guard: flag_invariant settle_flagset "\<lambda>n. n \<noteq> ''allow-mainnet''" "\<lambda>c. \<not> co_allow_mainnet (fst c)"
  by unfold_locales (auto simp: settle_flagset_def flag_kinds dest: common_flags_guard)

interpretation sign_guard: flag_invariant sign_flagset "\<lambda>n. n \<noteq> ''allow-mainnet''" "\<lambda>c. \<not> co_allow_mainnet (fst c)"
  by unfold_locales (auto simp: sign_flagset_def flag_kinds dest: common_flags_guard)

interpretation pay_guard: flag_invariant pay_flagset "\<lambda>n. n \<noteq> ''allow-mainnet''" "\<lambda>c. \<not> co_allow_mainnet (fst c)"
  by unfold_locales
    (auto simp: pay_flagset_def data_flag_def extra_header_flag_def flag_kinds split: prod.splits sum.splits
      dest: sign_guard.set_keeps)

lemma parse_command_guarded:
  assumes "flag_invariant F (\<lambda>n. n \<noteq> ''allow-mainnet'') (\<lambda>c. \<not> co_allow_mainnet (fst c))"
    and "parse_command F f0 key home args = Inr (p, c, f, rest)" "flag_not_given ''allow-mainnet'' args"
  shows "\<not> co_allow_mainnet c \<and> p \<in> {Testnet, Mainnet}"
proof -
  obtain c0 where c0: "parse_flags F args (default_common key, f0) = Inr ((c0, f), rest)" "common_parse c0 home = Inr (p, c)"
    using assms(2) by (auto simp: parse_command_def result_simps)
  have "\<not> co_allow_mainnet (fst (c0, f))"
    by (rule flag_invariant.parse_keeps [OF assms(1) c0(1)])
      (simp_all add: default_common_def flag_not_given_name [OF assms(3)])
  moreover have "co_allow_mainnet c = co_allow_mainnet c0" "p \<in> {Testnet, Mainnet}"
    using c0(2) by (auto simp: common_parse_def result_simps split: if_splits option.splits dest: lookup_Inr)
  ultimately show ?thesis by simp
qed

text \<open>The three commands that spend, without the flag\<close>

lemma pay_guarded:
  assumes "flag_not_given ''allow-mainnet'' args" "buyer_run C show_json W ''pay'' args = (d, (ls, r), sent)"
  shows "sent = None \<and> ls = [] \<and> \<not> is_ok r \<or>
    (\<exists>c f rest. parse_command pay_flagset default_pay (bw_key_env W) (bw_home W) args = Inr (Testnet, c, f, rest))"
proof (cases "parse_command pay_flagset default_pay (bw_key_env W) (bw_home W) args")
  case (Inr x)
  obtain p c f rest where x: "x = (p, c, f, rest)" by (cases x)
  note g = parse_command_guarded [OF pay_guard.flag_invariant_axioms Inr [unfolded x] assms(1)]
  have p: "pay_cmd C show_json (bw_disk W) c p (f\<lparr>py_args := rest\<rparr>) (bw_exchange W) (bw_now W) (bw_nonce W)
      (bw_stdout_ok W) = ((ls, r), sent)"
    using assms(2) Inr x by (auto simp: buyer_run_def Let_def)
  show ?thesis
  proof (cases "p = Testnet")
    case False
    with g have "p_name p = p_name Mainnet" "\<not> co_allow_mainnet c" by auto
    from mainnet_ends_early [OF this] obtain e where "pay_cmd C show_json (bw_disk W) c p (f\<lparr>py_args := rest\<rparr>)
        (bw_exchange W) (bw_now W) (bw_nonce W) (bw_stdout_ok W) = (([], Inl e), None)" by blast
    with p show ?thesis by auto
  qed (use Inr x in simp)
qed (use assms(2) in \<open>auto simp: buyer_run_def quiet_def\<close>)

lemma sign_guarded:
  assumes "flag_not_given ''allow-mainnet'' args" "buyer_run C show_json W ''sign'' args = (d, (ls, r), sent)"
  shows "ls = [] \<and> \<not> is_ok r \<or>
    (\<exists>c f rest. parse_command sign_flagset default_pay (bw_key_env W) (bw_home W) args = Inr (Testnet, c, f, rest))"
proof (cases "parse_command sign_flagset default_pay (bw_key_env W) (bw_home W) args")
  case (Inr x)
  obtain p c f rest where x: "x = (p, c, f, rest)" by (cases x)
  note g = parse_command_guarded [OF sign_guard.flag_invariant_axioms Inr [unfolded x] assms(1)]
  have p: "sign_cmd C (bw_disk W) c p (f\<lparr>py_args := rest\<rparr>) (bw_exchange W) (bw_now W) (bw_nonce W) = (ls, r)"
    using assms(2) Inr x by (auto simp: buyer_run_def Let_def)
  show ?thesis
  proof (cases "p = Testnet")
    case False
    with g have "p_name p = p_name Mainnet" "\<not> co_allow_mainnet c" by auto
    from mainnet_ends_early [OF this] obtain e where "sign_cmd C (bw_disk W) c p (f\<lparr>py_args := rest\<rparr>)
        (bw_exchange W) (bw_now W) (bw_nonce W) = ([], Inl e)" by blast
    with p show ?thesis by auto
  qed (use Inr x in simp)
qed (use assms(2) in \<open>auto simp: buyer_run_def quiet_def\<close>)

lemma settle_guarded:
  assumes "flag_not_given ''allow-mainnet'' args" "buyer_run C show_json W ''settle'' args = (d, (ls, r), sent)"
  shows "ls = [] \<and> \<not> is_ok r \<or>
    (\<exists>p c f rest. parse_command settle_flagset default_settle (bw_key_env W) (bw_home W) args = Inr (p, c, f, rest) \<and>
       (p = Testnet \<or> se_verify_only f))"
proof (cases "parse_command settle_flagset default_settle (bw_key_env W) (bw_home W) args")
  case (Inr x)
  obtain p c f rest where x: "x = (p, c, f, rest)" by (cases x)
  note g = parse_command_guarded [OF settle_guard.flag_invariant_axioms Inr [unfolded x] assms(1)]
  have p: "settle_cmd C (bw_disk W) c p f ((bw_settle W)\<lparr>sw_deadline := context_deadline W c\<rparr>) = (ls, r)"
    using assms(2) Inr x by (auto simp: buyer_run_def Let_def)
  show ?thesis
  proof (cases "p = Testnet \<or> se_verify_only f")
    case False
    with g have "p_name p = p_name Mainnet" "\<not> co_allow_mainnet c" by auto
    from mainnet_ends_early [OF this] False have
      "settle_cmd C (bw_disk W) c p f ((bw_settle W)\<lparr>sw_deadline := context_deadline W c\<rparr>) =
        ([], Inl MainnetNotAllowed)" by (metis (no_types))
    with p show ?thesis by auto
  qed (use Inr x in simp)
qed (use assms(2) in \<open>auto simp: buyer_run_def quiet_def\<close>)

section \<open>Properties\<close>

text \<open>
  C34: real money needs the flag, from the command line on.  When no argument starts with
  \<open>-allow-mainnet\<close> or \<open>--allow-mainnet\<close>, a \<open>pay\<close> that sends a payment, prints a line or exits with 0 ran on the
  test network; so did a \<open>sign\<close>, and a \<open>settle\<close> unless it was told to stop after \<open>/verify\<close>.  No other
  command sends a payment.  Files, environment and network may answer anything.
\<close>

theorem mainnet_needs_the_flag:
  assumes "flag_not_given ''allow-mainnet'' args" "buyer_main C show_json W (prog # nm # args) = (d, ls, sent, status)"
  shows "(nm = ''pay'' \<longrightarrow> sent = None \<and> ls = [] \<and> status = 1 \<or>
      (\<exists>c f rest. parse_command pay_flagset default_pay (bw_key_env W) (bw_home W) args = Inr (Testnet, c, f, rest))) \<and>
    (nm = ''sign'' \<longrightarrow> ls = [] \<and> status = 1 \<or>
      (\<exists>c f rest. parse_command sign_flagset default_pay (bw_key_env W) (bw_home W) args = Inr (Testnet, c, f, rest))) \<and>
    (nm = ''settle'' \<longrightarrow> ls = [] \<and> status = 1 \<or>
      (\<exists>p c f rest. parse_command settle_flagset default_settle (bw_key_env W) (bw_home W) args = Inr (p, c, f, rest) \<and>
         (p = Testnet \<or> se_verify_only f))) \<and>
    (nm \<noteq> ''pay'' \<longrightarrow> sent = None)"
proof (cases "nm \<in> set command_names")
  case True
  then obtain r where r: "buyer_run C show_json W nm args = (d, (ls, r), sent)" "status = (if is_ok r then 0 else 1)"
    using assms(2) by (auto simp: buyer_main_def split: prod.splits)
  have "sent = None" if "nm \<noteq> ''pay''"
    using r(1) that by (auto simp: buyer_run_def Let_def split: if_splits sum.splits prod.splits)
  moreover have "\<not> is_ok r \<longleftrightarrow> status = 1" using r(2) by simp
  ultimately show ?thesis
    using pay_guarded [OF assms(1), of C show_json W d ls r sent] sign_guarded [OF assms(1), of C show_json W d ls r sent]
      settle_guarded [OF assms(1), of C show_json W d ls r sent] r(1) by (intro conjI impI) simp_all
next
  case False
  then show ?thesis using assms(2) by (auto simp: buyer_main_def command_names_def)
qed

definition demo_world :: "byte buyer_world" where
  "demo_world =
     \<lparr>bw_key_env = ''k'', bw_home = None, bw_disk = demo_disk, bw_random = None, bw_faucet = demo_chain 0,
      bw_rpc = demo_chain 0, bw_settle = demo_settle_world, bw_context_ms = 0,
      bw_exchange = (\<lambda>_ _ _ _ _. Inl (PlainError [])), bw_now = 0, bw_nonce = None, bw_stdout_ok = True,
      bw_version = ''dev''\<rparr>"

definition demo_pay_args :: "string list" where
  "demo_pay_args = [''-network=mainnet'', ''--max'', ''0.5'', ''http://api/'']"

lemma demo_pay_parse:
  "case parse_command pay_flagset default_pay ''k'' None demo_pay_args of Inl e \<Rightarrow> False | Inr x \<Rightarrow> p_name (fst x) = ''mainnet''"
  by code_simp

theorem mainnet_needs_the_flag_witness:
  "\<exists>d. buyer_main demo_crypto (\<lambda>_. []) demo_world ([''x402-buyer'', ''pay''] @ demo_pay_args) = (d, [], None, 1)"
proof -
  have n: "flag_not_given ''allow-mainnet'' demo_pay_args" by code_simp
  obtain d ls sent status where
    m: "buyer_main demo_crypto (\<lambda>_. []) demo_world (''x402-buyer'' # ''pay'' # demo_pay_args) = (d, ls, sent, status)"
    by (metis prod_cases4)
  have "parse_command pay_flagset default_pay (bw_key_env demo_world) (bw_home demo_world) demo_pay_args \<noteq>
      Inr (Testnet, c, f, rest)" for c f rest
    using demo_pay_parse by (auto simp: demo_world_def Testnet_def)
  with mainnet_needs_the_flag [OF n m] m show ?thesis by simp
qed

end
