(* ===== verification/Gateway.thy ===== *)
theory Gateway
  imports Extproc Settle
begin

text \<open>
  The gateway as one system: any number of Envoy streams, served by any number of filters that
  share a configuration, the settlers that drain the capture stream, and the balance reads
  that outlive their requests, all on one Redis.  A step is one handler of one of them, at
  the time Redis ran its calls, and the steps interleave in any order.  Every step is a run
  of the ledger (\<open>gateway_step_run\<close>), so what the ledger promises holds of the gateway.
\<close>

section \<open>Steps\<close>

type_synonym 'r gateway = "'r \<times> (nat \<Rightarrow> stream_state)"

datatype gateway_event =
    Opened nat
  | Received nat message phase stream_state "reply option"
  | Ended nat phase
  | Settling handling "nat \<times> fields" verdict
  | Delivered
  | Cached

inductive gateway_step ::
  "('pk, 'sk) crypto \<Rightarrow> 'r redis \<Rightarrow> (page_data \<Rightarrow> string option) \<Rightarrow> payments option \<Rightarrow> settler \<Rightarrow> int
     \<Rightarrow> 'r gateway \<Rightarrow> gateway_event \<Rightarrow> 'r gateway \<Rightarrow> bool"
  for C :: "('pk, 'sk) crypto" and R :: "'r redis" and page :: "page_data \<Rightarrow> string option"
    and pays :: "payments option" and S :: settler and t :: int
where
  gw_open: "gateway_step C R page pays S t (s, q) (Opened k) (s, q(k := new_request))"
| gw_message:
    "handle C R page pays ph m (q k) s = (s', st', r) \<Longrightarrow> ph_ms ph = t \<Longrightarrow>
       gateway_step C R page pays S t (s, q) (Received k m ph st' r) (s', q(k := st'))"
| gw_finish:
    "finish C R ph (q k) s = (s', st') \<Longrightarrow> ph_ms ph = t \<Longrightarrow>
       gateway_step C R page pays S t (s, q) (Ended k ph) (s', q(k := st'))"
| gw_settle:
    "handle_job C R S w msg s = (s', v) \<Longrightarrow> hw_release_ms w = t \<Longrightarrow>
       gateway_step C R page pays S t (s, q) (Settling w msg v) (s', q)"
| gw_read:
    "deliver f (\<lambda>s. rd_read R s t SettleStream (nat (count_of S))) s = (s', x) \<Longrightarrow>
       gateway_step C R page pays S t (s, q) Delivered (s', q)"
| gw_claim:
    "deliver f (\<lambda>s. rd_claim R s t SettleStream (millis (min_idle S)) start 100) s = (s', x) \<Longrightarrow>
       gateway_step C R page pays S t (s, q) Delivered (s', q)"
| gw_cache:
    "gateway_step C R page pays S t (s, q) Cached (cache_write C R cache f t payer bal at s, q)"

inductive_cases gateway_stepE: "gateway_step C R page pays S t g e g'"

inductive gateway_run ::
  "('pk, 'sk) crypto \<Rightarrow> 'r redis \<Rightarrow> (page_data \<Rightarrow> string option) \<Rightarrow> payments option \<Rightarrow> settler \<Rightarrow> int
     \<Rightarrow> 'r gateway \<Rightarrow> (int \<times> gateway_event) list \<Rightarrow> 'r gateway \<Rightarrow> bool"
  for C :: "('pk, 'sk) crypto" and R :: "'r redis" and page :: "page_data \<Rightarrow> string option"
    and pays :: "payments option" and S :: settler
where
  gw_nil: "gateway_run C R page pays S t g [] g"
| gw_cons: "t \<le> t' \<Longrightarrow> gateway_step C R page pays S t' g e g1 \<Longrightarrow> gateway_run C R page pays S t' g1 es g' \<Longrightarrow>
    gateway_run C R page pays S t g ((t', e) # es) g'"

inductive_simps gateway_run_Cons: "gateway_run C R page pays S t g ((t', e) # es) g'"
inductive_simps gateway_run_nil [simp]: "gateway_run C R page pays S t g [] g'"

section \<open>Lemmas: every step is a run of the ledger\<close>

text \<open>An admission is an accepted reserve of the payer and the nonce it verified.\<close>

definition gateway_trace :: "gateway_event \<Rightarrow> ledger_event list \<Rightarrow> bool" where
  "gateway_trace e es \<longleftrightarrow>
     (\<forall>k m ph st u. e = Received k m ph st (Some (ContinueRequest (Some u))) \<longrightarrow>
        (\<exists>res f a b rsv. q_res st = Some res \<and>
           es = [Reserved f (ph_reserve_at ph) (v_payer res) (a_nonce (v_auth res)) a b (v_expires res)
                   (Inr (OutOK, Some rsv))]))"

lemma quiet_step:
  assumes "\<And>k. ledger_key k \<Longrightarrow> rd_view R s' t k = rd_view R s t k"
    and "\<And>k m ph st u. e \<noteq> Received k m ph st (Some (ContinueRequest (Some u)))"
  shows "\<exists>es. ledger_run C R c t s (map (Pair t) es) s' \<and> gateway_trace e es"
  using ledger.run_one [OF step_elsewhere [OF assms(1)], of C c] assms(2)
  by (intro exI [of _ "[Elsewhere]"]) (simp add: gateway_trace_def)

lemma deliver_view:
  assumes "deliver f g s = (s', x)" "\<And>s. view (fst (g s)) = view s" shows "view s' = view s"
  using assms by (cases f) (auto split: prod.splits simp: prod.case_eq_if)

lemma read_view:
  assumes "stream_laws R" "deliver f (\<lambda>s. rd_read R s t k n) s = (s', x)" shows "rd_view R s' = rd_view R s"
  by (rule deliver_view [OF assms(2)], rule law_read(3) [OF assms(1)], rule prod.collapse [symmetric])

lemma claim_view:
  assumes "stream_laws R" "deliver f (\<lambda>s. rd_claim R s t k idle start n) s = (s', x)"
  shows "rd_view R s' = rd_view R s"
proof (rule deliver_view [OF assms(2)])
  fix s
  obtain s1 es nxt where "rd_claim R s t k idle start n = (s1, es, nxt)" using prod_cases3 by blast
  with law_claim(3) [OF assms(1) this] show "rd_view R (fst (rd_claim R s t k idle start n)) = rd_view R s" by simp
qed

text \<open>The handlers of a stream, from whatever state the stream is in\<close>

lemma release_stream_run:
  assumes "release_stream C R ph st s = (s', st')"
  shows "\<exists>es. ledger_run C R c (ph_ms ph) s (map (Pair (ph_ms ph)) es) s'"
proof (cases "q_rsv st")
  case None
  then show ?thesis using assms release_stream_none [of st C R ph s] by (intro exI [of _ "[]"]) (simp add: run_nil)
next
  case (Some rsv)
  obtain ok where "ledger_step C R c (ph_ms ph) s (Released (ph_release_fault ph) (rv_payer rsv) (rv_amount rsv) ok) s'"
    using release_stream_step(1) [OF assms Some] by blast
  from ledger.run_one [OF this] show ?thesis by (metis list.simps(8,9))
qed

lemma response_run:
  assumes L: "stream_laws R" and r: "response_headers C R ph h st s = (s', st', r, d)"
  shows "\<exists>es. ledger_run C R c (ph_ms ph) s (map (Pair (ph_ms ph)) es) s' \<and> (\<forall>u. r \<noteq> ContinueRequest u)"
proof (cases rule: response_cases [OF r, case_names Nothing Unserved Lost Captured])
  case Nothing
  then show ?thesis by (intro exI [of _ "[]"]) (simp add: run_nil)
next
  case Unserved
  then show ?thesis using release_stream_run by auto
next
  case (Lost rsv res e s1)
  obtain es where es: "ledger_run C R c (ph_ms ph) s1 (map (Pair (ph_ms ph)) es) s'"
    using release_stream_run [OF Lost(6)] by blast
  have "ledger_run C R c (ph_ms ph) s ((ph_ms ph, Elsewhere) # map (Pair (ph_ms ph)) es) s'"
    by (rule run_cons [OF order_refl capture_elsewhere [OF L Lost(5)] es])
  then show ?thesis using Lost by (intro exI [of _ "Elsewhere # es"]) simp
next
  case (Captured rsv res e i)
  have "r \<noteq> ContinueRequest u" for u
    using r Captured by (auto simp: response_headers_def Let_def split: if_splits prod.splits)
  then show ?thesis
    using ledger.run_one [OF capture_elsewhere [OF L Captured(5)]] by (intro exI [of _ "[Elsewhere]"]) simp
qed

lemma request_run:
  assumes r: "request_headers C R page pays ph attrs h st s = (s', st', r, d)"
    and c: "\<And>p. pays = Some p \<Longrightarrow> c = pm_reserve p"
  shows "\<exists>es. ledger_run C R c (ph_ms ph) s (map (Pair (ph_ms ph)) es) s' \<and>
    (\<forall>u. r = ContinueRequest (Some u) \<longrightarrow>
       (\<exists>res f a b rsv. q_res st' = Some res \<and>
          es = [Reserved f (ph_reserve_at ph) (v_payer res) (a_nonce (v_auth res)) a b (v_expires res)
                  (Inr (OutOK, Some rsv))]))"
proof (cases rule: request_effect [OF r, case_names Quiet Refused Admitted])
  case Quiet
  then show ?thesis by (intro exI [of _ "[]"]) (auto simp: run_nil dest: refusal_or_pass)
next
  case (Refused p a b rr res)
  from ledger.run_one [OF Refused(2)] c [OF Refused(1)] show ?thesis
    using Refused(7) by (intro exI [of _ "[_]"]) (auto dest: refusal_or_pass)
next
  case (Admitted p e pp res b rsv hdr)
  from ledger.run_one [OF Admitted(4)] c [OF Admitted(1)] show ?thesis
    using Admitted(8) by (intro exI [of _ "[_]"]) (auto simp: hold_def)
qed

lemma message_run:
  assumes L: "stream_laws R" and c: "\<And>p. pays = Some p \<Longrightarrow> c = pm_reserve p"
    and h: "handle C R page pays ph m st s = (s', st', r)"
  shows "\<exists>es. ledger_run C R c (ph_ms ph) s (map (Pair (ph_ms ph)) es) s' \<and> gateway_trace (Received k m ph st' r) es"
proof (cases "r = None \<or> m = OtherPhase")
  case True
  then have "s' = s" using h by (auto simp: handle_def split: message.splits prod.splits if_splits)
  then show ?thesis using True h by (intro exI [of _ "[]"]) (auto simp: run_nil gateway_trace_def handle_def)
next
  case False
  then obtain r' where r': "r = Some r'" by auto
  show ?thesis
  proof (cases m)
    case (RequestHeaders attrs hs)
    then obtain d where "request_headers C R page pays ph attrs (header_map hs) st s = (s', st', r', d)"
      using h r' by (auto simp: handle_def split: prod.splits if_splits)
    from request_run [OF this c] show ?thesis using r' by (auto simp: gateway_trace_def)
  next
    case (ResponseHeaders hs)
    then obtain d where "response_headers C R ph (header_map hs) st s = (s', st', r', d)"
      using h r' by (auto simp: handle_def split: prod.splits)
    from response_run [OF L this, of c] show ?thesis using r' by (auto simp: gateway_trace_def)
  qed (use False in simp)
qed

lemma finish_run:
  assumes "finish C R ph st s = (s', st')"
  shows "\<exists>es. ledger_run C R c (ph_ms ph) s (map (Pair (ph_ms ph)) es) s'"
proof (cases "q_rsv st \<noteq> None \<and> \<not> q_captured st \<and> \<not> q_released st")
  case True
  then show ?thesis using assms release_stream_run [of C R ph st s] by (auto simp: finish_def)
next
  case False
  then have "s' = s" using assms by (auto simp: finish_def)
  then show ?thesis by (intro exI [of _ "[]"]) (simp add: run_nil)
qed

lemma gateway_step_run:
  assumes K: "key_laws R" and L: "stream_laws R" and c: "\<And>p. pays = Some p \<Longrightarrow> c = pm_reserve p"
    and st: "gateway_step C R page pays S t g e g'"
  shows "\<exists>es. ledger_run C R c t (fst g) (map (Pair t) es) (fst g') \<and> gateway_trace e es"
  using st
proof cases
  case (gw_open s q k)
  then show ?thesis by (intro exI [of _ "[]"]) (simp add: run_nil gateway_trace_def)
next
  case (gw_message ph m q k s s' st' r)
  then show ?thesis using message_run [OF L c gw_message(4)] by auto
next
  case (gw_finish ph q k s s' st')
  then show ?thesis using finish_run [OF gw_finish(4), of c] by (auto simp: gateway_trace_def)
next
  case (gw_settle w msg s s' v q)
  then show ?thesis using handle_run [OF L gw_settle(4), of c] by (auto simp: gateway_trace_def)
next
  case (gw_read f s s' x q)
  then show ?thesis using read_view [OF L gw_read(4)] by (auto intro!: quiet_step)
next
  case (gw_claim f start s s' x q)
  then show ?thesis using claim_view [OF L gw_claim(4)] by (auto intro!: quiet_step)
next
  case (gw_cache s q cache f payer bal at)
  then have "ledger_step C R c t s Elsewhere (fst g')" by (simp add: cache_write_elsewhere [OF K])
  from ledger.run_one [OF this] show ?thesis
    using gw_cache by (intro exI [of _ "[Elsewhere]"]) (simp add: gateway_trace_def)
qed

text \<open>A run of the gateway is a run of the ledger, event by event.\<close>

interpretation gwsim: timed_simulation
  "gateway_step C R page pays S" "gateway_run C R page pays S" "ledger_step C R c" "ledger_run C R c"
  fst gateway_trace "key_laws R \<and> stream_laws R \<and> (\<forall>p. pays = Some p \<longrightarrow> c = pm_reserve p)"
  for C :: "('pk, 'sk) crypto" and R :: "'r redis" and page pays S c
proof unfold_locales
  fix t s e s'
  assume "key_laws R \<and> stream_laws R \<and> (\<forall>p. pays = Some p \<longrightarrow> c = pm_reserve p)"
    "gateway_step C R page pays S t s e s'"
  then show "\<exists>es. ledger_run C R c t (fst s) (map (Pair t) es) (fst s') \<and> gateway_trace e es"
    by (intro gateway_step_run) auto
qed (simp_all only: gateway_run_nil gateway_run_Cons split_paired_Ex)

lemma gateway_run_ledger:
  assumes "key_laws R" "stream_laws R" "\<And>p. pays = Some p \<Longrightarrow> c = pm_reserve p"
    and "gateway_run C R page pays S t g evs g'"
  shows "\<exists>ess. list_all2 (\<lambda>(t, e) es. gateway_trace e es) evs ess \<and>
    ledger_run C R c t (fst g) (run_events evs ess) (fst g')"
  using assms by (intro gwsim.run_simulates) auto

text \<open>Two admissions of one payer and nonce are two acceptances of the ledger.\<close>

lemma admitted_twice_apart:
  assumes K: "key_laws R" and L: "stream_laws R" and c: "\<And>p. pays = Some p \<Longrightarrow> c = pm_reserve p"
    and run: "gateway_run C R page pays S t0 g (pre @ (t1, Received k1 m1 ph1 st1 (Some (ContinueRequest (Some u1)))) #
      mid @ (t2, Received k2 m2 ph2 st2 (Some (ContinueRequest (Some u2)))) # post) g'"
    and r: "q_res st1 = Some res1" "q_res st2 = Some res2"
    and same: "v_payer res2 = v_payer res1" "a_nonce (v_auth res2) = a_nonce (v_auth res1)"
  shows "t1 + millis (nonce_ttl c (ph_reserve_at ph1) (v_expires res1)) \<le> t2"
proof -
  let ?x1 = "(t1, Received k1 m1 ph1 st1 (Some (ContinueRequest (Some u1))))"
  let ?x2 = "(t2, Received k2 m2 ph2 st2 (Some (ContinueRequest (Some u2))))"
  obtain t g1 where "gateway_run C R page pays S t g1 (?x1 # mid @ ?x2 # post) g'"
    using gwsim.low.run_drop [OF run] by blast
  from gateway_run_ledger [OF K L c this] obtain ess where
    ess: "list_all2 (\<lambda>(t, e) es. gateway_trace e es) (?x1 # mid @ ?x2 # post) ess"
    "ledger_run C R c t (fst g1) (run_events (?x1 # mid @ ?x2 # post) ess) (fst g')" by blast
  then obtain e1 em e2 ep where e: "ess = e1 # em @ e2 # ep" "gateway_trace (snd ?x1) e1" "gateway_trace (snd ?x2) e2"
    "list_all2 (\<lambda>(t, e) es. gateway_trace e es) mid em"
    by (auto simp: list_all2_Cons1 list_all2_append1)
  obtain f1 a1 b1 q1 where 1: "e1 = [Reserved f1 (ph_reserve_at ph1) (v_payer res1) (a_nonce (v_auth res1)) a1 b1
      (v_expires res1) (Inr (OutOK, Some q1))]"
    using e(2) r(1) by (auto simp: gateway_trace_def)
  obtain f2 a2 b2 q2 where 2: "e2 = [Reserved f2 (ph_reserve_at ph2) (v_payer res1) (a_nonce (v_auth res1)) a2 b2
      (v_expires res2) (Inr (OutOK, Some q2))]"
    using e(3) r(2) same by (auto simp: gateway_trace_def)
  have "length mid = length em" by (rule list_all2_lengthD [OF e(4)])
  with ess(2) have "ledger_run C R c t (fst g1) ((t1, Reserved f1 (ph_reserve_at ph1) (v_payer res1)
      (a_nonce (v_auth res1)) a1 b1 (v_expires res1) (Inr (OutOK, Some q1))) # run_events mid em @
      (t2, Reserved f2 (ph_reserve_at ph2) (v_payer res1) (a_nonce (v_auth res1)) a2 b2 (v_expires res2)
        (Inr (OutOK, Some q2))) # run_events post ep) (fst g')"
    by (simp add: e(1) 1 2)
  then show ?thesis by (rule accepted_twice_apart [OF K])
qed


section \<open>Lemmas: from the capture to the settlement\<close>

lemma entry_requirements_ok: "entry_ok C nets e \<Longrightarrow> ok_requirements (pe_requirements e)"
proof -
  assume "entry_ok C nets e"
  then obtain payTo where r: "pe_requirements e = exact_requirements (pe_network e) (int_str (pe_price e))
      (address_string C payTo) (r_timeout (pe_route e))"
    and t: "MinTimeoutSeconds \<le> r_timeout (pe_route e)" "r_timeout (pe_route e) \<le> MaxTimeoutSeconds"
    by (auto simp: entry_ok_def)
  have "ascii (nat_str n)" for n using ascii_int_str [of "int n"] by (simp add: int_str_def)
  then have "ascii (network p)" for p by (auto simp: network_def ascii_def)
  with t show ?thesis
    by (simp add: r exact_requirements_def ok_requirements_def ok_extra_def ascii_address_string ascii_int_str
        is_int64_def MinTimeoutSeconds_def MaxTimeoutSeconds_def)
      (simp add: ascii_code SchemeExact_def SBC_def TransferEIP3009_def SBCName_def SBCVersion_def)
qed

lemma unix_seconds: "unix (x * nsec) = x"
  by (simp add: unix_def)

lemma decoded_nonempty: "decode_payment_payload hdr = Inr pp \<Longrightarrow> hdr \<noteq> []"
proof
  assume "decode_payment_payload hdr = Inr pp" "hdr = []"
  moreover have "\<not> is_ok (decode_payment_payload [])" by code_simp
  ultimately show False by simp
qed

text \<open>The node is asked for the verified payer and nonce.\<close>

lemma used_on_chain_verified:
  assumes "verify C now route dm pp = Inr res"
  shows "used_on_chain C http pp =
    (case authorization_state C http SBCAddress (v_payer res) (a_nonce (v_auth res)) of
       Inl _ \<Rightarrow> None | Inr used \<Rightarrow> Some used)"
proof -
  from assms obtain raw where "eip3009_of pp = Inr raw" "parse_authorization (e_authorization raw) = Inr (v_auth res)"
    "v_payer res = a_from (v_auth res)"
    unfolding verify_Inr_iff by blast
  then show ?thesis by (simp add: used_on_chain_def)
qed

lemma request_held:
  assumes "request_headers C R page pays ph attrs h st s = (s', st', ContinueRequest (Some m), d)"
  obtains key e pp res rsv where "price_lookup (ph_table ph) key = Some e"
    "decode_payment_payload (hget h (to_lower HeaderPaymentSignature)) = Inr pp"
    "verify C (ph_verify_at ph) (pe_requirements e) (sbc_domain (pe_network e)) pp = Inr res"
    "st' = hold (st\<lparr>q_entry := Some e\<rparr>) res rsv (hget h (to_lower HeaderPaymentSignature))"
proof (cases rule: request_cases [OF assms, case_names Free Refused Accept])
  case (Accept key e p pw)
  show thesis
  proof (cases rule: accept_cases [OF Accept(6), case_names Early Reserve])
    case (Reserve pp res bal rr)
    then have "accepted rr" by auto
    with Reserve Accept(2) that show thesis by blast
  qed auto
qed auto

text \<open>The job of a paid response, as the settler reads it back\<close>

lemma captured_job:
  assumes "stream_laws R" "\<forall>k e. price_lookup (ph_table ph1) k = Some e \<longrightarrow> entry_ok C nets e"
    and "request_headers C R page pays ph1 attrs h1 st s = (s1, st1, ContinueRequest (Some m), d1)"
    and "response_headers C R ph2 h2 st1 s2 = (s3, st3, r, Some Paid)" "is_int64 (unix_milli (ph_served_at ph2))"
  obtains key e pp res vs j where "price_lookup (ph_table ph1) key = Some e"
    "decode_payment_payload (hget h1 (to_lower HeaderPaymentSignature)) = Inr pp"
    "verify C (ph_verify_at ph1) (pe_requirements e) (sbc_domain (pe_network e)) pp = Inr res"
    "vs \<in> snd ` set (sm_entries (rd_stream R s3 SettleStream))" "parse_job vs = Inr j"
    "decode_payment_payload (jb_payment j) = Inr pp" "jb_requirements j = pe_requirements e"
    "jb_network j = network (pe_network e)" "parse_address (jb_payer j) = Inr (v_payer res)"
    "big_set_string (jb_amount j) = Some (pe_price e)" "jb_validBefore j * nsec = v_expires res"
    "jb_validBefore j = a_before (v_auth res)"
proof (rule request_held [OF assms(3)])
  fix key e pp res rsv
  let ?hdr = "hget h1 (to_lower HeaderPaymentSignature)"
  assume p: "price_lookup (ph_table ph1) key = Some e" "decode_payment_payload ?hdr = Inr pp"
    "verify C (ph_verify_at ph1) (pe_requirements e) (sbc_domain (pe_network e)) pp = Inr res"
    and st: "st1 = hold (st\<lparr>q_entry := Some e\<rparr>) res rsv ?hdr"
  let ?j = "settlement_job C ph2 e res ?hdr"
  from assms(4) have q: "queued R s3 ?j"
  proof (cases rule: response_cases [consumes 1, case_names Nothing Unserved Lost Captured])
    case (Captured rsv' res' e' i)
    then show ?thesis using capture_effect(2) [OF assms(1) Captured(5)] st by (simp add: hold_def)
  qed simp_all
  have before: "v_expires res = a_before (v_auth res) * nsec" "is_int64 (a_before (v_auth res))"
    "is_address (v_payer res)"
    using p(3) verify_Inr_payer [OF p(3)] unfolding verify_Inr_iff terms_met_def by blast+
  have "ok_requirements (pe_requirements e)" using assms(2) p(1) entry_requirements_ok by blast
  then have "parse_job (job_fields ?j) = Inr (?j\<lparr>jb_servedAt := unix_milli (jb_servedAt ?j) * msec\<rparr>)"
    using before(2) assms(5) decoded_nonempty [OF p(2)]
    by (intro parse_job_fields) (simp_all add: settlement_job_def before(1) unix_seconds payment_id_def
        hex_0x_nonempty address_string_nonempty)
  from that [OF p(1-3) _ this] p(2) q before show thesis
    by (simp add: queued_def settlement_job_def unix_seconds parse_address_string)
qed

section \<open>Properties\<close>

text \<open>
  C1: one payment buys one request.  Whatever the streams, the settlers and the retries do in
  between, once a request was let through on a payment, no request on any stream of any
  filter is let through on the same payer's nonce while the signature lives, provided the
  filters' clocks stay within the nonce margin of the Redis server's.
\<close>

theorem no_payment_is_admitted_twice:
  assumes "key_laws R" "stream_laws R" "pays = Some p" "c = pm_reserve p"
    and "gateway_run C R page pays S t0 g (pre @ (t1, Received k1 m1 ph1 st1 (Some (ContinueRequest (Some u1)))) #
      mid @ (t2, Received k2 m2 ph2 st2 r2) # post) g'"
    and "q_res st1 = Some res1"
    and "is_int64 (v_expires res1 - ph_reserve_at ph1)" "is_int64 (v_expires res1 - ph_reserve_at ph1 + nonce_margin c)"
    and "\<bar>ph_reserve_at ph1 - t1 * msec\<bar> \<le> da" "\<bar>ph_reserve_at ph2 - t2 * msec\<bar> \<le> db"
    and "da + db + msec \<le> nonce_margin c" "ph_reserve_at ph2 < v_expires res1"
  shows "\<not> (\<exists>u2 res2. r2 = Some (ContinueRequest (Some u2)) \<and> q_res st2 = Some res2 \<and>
      v_payer res2 = v_payer res1 \<and> a_nonce (v_auth res2) = a_nonce (v_auth res1))"
proof clarify
  fix u2 res2
  assume r2: "r2 = Some (ContinueRequest (Some u2))" "q_res st2 = Some res2" "v_payer res2 = v_payer res1"
    "a_nonce (v_auth res2) = a_nonce (v_auth res1)"
  have "\<And>q. pays = Some q \<Longrightarrow> c = pm_reserve q" using assms(3,4) by simp
  from admitted_twice_apart [OF assms(1,2) this assms(5) [unfolded r2(1)] assms(6) r2(2-4)]
  have "(t1 + millis (nonce_ttl c (ph_reserve_at ph1) (v_expires res1))) * msec \<le> t2 * msec" by simp
  moreover have "nonce_ttl c (ph_reserve_at ph1) (v_expires res1) <
      (millis (nonce_ttl c (ph_reserve_at ph1) (v_expires res1)) + 1) * msec"
    by (rule millis_lower) (simp add: nonce_ttl_def)
  moreover have "v_expires res1 - ph_reserve_at ph1 + nonce_margin c \<le> nonce_ttl c (ph_reserve_at ph1) (v_expires res1)"
    by (rule nonce_ttl_lower [OF assms(7,8)])
  ultimately have "t1 * msec + (v_expires res1 - ph_reserve_at ph1) + nonce_margin c < t2 * msec + msec"
    by (simp add: algebra_simps)
  with assms(9-12) show False by linarith
qed

theorem no_payment_is_admitted_twice_witness:
  "\<exists>hdr g' st1 u1 res1 st2 r2. gateway_run demo_crypto mem_redis (\<lambda>_. None) (Some demo_payments) demo_settler 0
       (empty_mem, \<lambda>_. new_request)
       [(0, Received 0 (RequestHeaders demo_attrs [(''payment-signature'', hdr, [])]) demo_phase st1
              (Some (ContinueRequest (Some u1)))),
        (0, Received 1 (RequestHeaders demo_attrs [(''payment-signature'', hdr, [])]) demo_phase st2 r2)] g' \<and>
     q_res st1 = Some res1 \<and>
     \<not> (\<exists>u2 res2. r2 = Some (ContinueRequest (Some u2)) \<and> q_res st2 = Some res2 \<and>
          v_payer res2 = v_payer res1 \<and> a_nonce (v_auth res2) = a_nonce (v_auth res1))"
proof -
  obtain hdr s1 rsv res m where a: "request_headers demo_crypto mem_redis (\<lambda>_. None) (Some demo_payments) demo_phase
      demo_attrs [(''payment-signature'', hdr)] new_request empty_mem =
     (s1, new_request\<lparr>q_entry := Some demo_entry, q_res := Some res, q_rsv := Some rsv, q_payment := hdr\<rparr>,
      ContinueRequest (Some m), PaymentAccepted)" and x: "v_expires res = 60 * nsec"
    by (rule demo_admitted)
  let ?st1 = "new_request\<lparr>q_entry := Some demo_entry, q_res := Some res, q_rsv := Some rsv, q_payment := hdr\<rparr>"
  let ?m = "RequestHeaders demo_attrs [(''payment-signature'', hdr, [])]"
  have map: "header_map [(''payment-signature'', hdr, [])] = [(''payment-signature'', hdr)]"
    by (simp add: header_map_def to_lower_def to_lower_char_def is_upper_def)
  have 1: "handle demo_crypto mem_redis (\<lambda>_. None) (Some demo_payments) demo_phase ?m new_request empty_mem =
      (s1, ?st1, Some (ContinueRequest (Some m)))"
    using a by (simp add: handle_def map) (simp add: demo_phase_def)
  obtain s2 st2 r2 where 2: "handle demo_crypto mem_redis (\<lambda>_. None) (Some demo_payments) demo_phase ?m new_request s1 =
      (s2, st2, r2)" using prod_cases3 by blast
  have ms: "ph_ms demo_phase = 0" "ph_reserve_at demo_phase = 0" by (simp_all add: demo_phase_def)
  let ?q1 = "(\<lambda>_. new_request)(0 := ?st1)"
  have step1: "gateway_step demo_crypto mem_redis (\<lambda>_. None) (Some demo_payments) demo_settler 0 (empty_mem, \<lambda>_. new_request)
      (Received 0 ?m demo_phase ?st1 (Some (ContinueRequest (Some m)))) (s1, ?q1)"
    by (rule gw_message [OF 1 ms(1)])
  have step2: "gateway_step demo_crypto mem_redis (\<lambda>_. None) (Some demo_payments) demo_settler 0 (s1, ?q1)
      (Received 1 ?m demo_phase st2 r2) (s2, ?q1(1 := st2))"
    by (rule gw_message) (simp_all add: 2 ms)
  have run: "gateway_run demo_crypto mem_redis (\<lambda>_. None) (Some demo_payments) demo_settler 0
      (empty_mem, \<lambda>_. new_request) ([] @ (0, Received 0 ?m demo_phase ?st1 (Some (ContinueRequest (Some m)))) #
      [] @ (0, Received 1 ?m demo_phase st2 r2) # []) (s2, ?q1(1 := st2))"
    unfolding append_Nil by (rule gw_cons [OF order_refl step1 gw_cons [OF order_refl step2 gw_nil]])
  have "\<not> (\<exists>u2 res2. r2 = Some (ContinueRequest (Some u2)) \<and> q_res st2 = Some res2 \<and>
      v_payer res2 = v_payer res \<and> a_nonce (v_auth res2) = a_nonce (v_auth res))"
    by (rule no_payment_is_admitted_twice [OF mem_laws refl refl run, where da = 0 and db = 0])
      (simp_all add: ms x demo_payments_def demo_cfg_def nonce_margin_def DefaultNonceMargin_def is_int64_def)
  with run show ?thesis
    by (intro exI [of _ hdr] exI [of _ "(s2, ?q1(1 := st2))"] exI [of _ ?st1] exI [of _ m] exI [of _ res]
        exI [of _ st2] exI [of _ r2]) simp
qed

lemma demo_paid:
  obtains hdr s1 st1 m d1 s3 st3 r where
    "request_headers demo_crypto mem_redis (\<lambda>_. None) (Some demo_payments) demo_phase demo_attrs
       [(''payment-signature'', hdr)] new_request empty_mem = (s1, st1, ContinueRequest (Some m), d1)"
    "response_headers demo_crypto mem_redis demo_phase [('':status'', ''200'')] st1 s1 = (s3, st3, r, Some Paid)"
proof (rule demo_admitted)
  fix hdr s1 rsv res m
  let ?st1 = "new_request\<lparr>q_entry := Some demo_entry, q_res := Some res, q_rsv := Some rsv, q_payment := hdr\<rparr>"
  assume a: "request_headers demo_crypto mem_redis (\<lambda>_. None) (Some demo_payments) demo_phase demo_attrs
      [(''payment-signature'', hdr)] new_request empty_mem = (s1, ?st1, ContinueRequest (Some m), PaymentAccepted)"
  obtain s3 st3 r where "response_headers demo_crypto mem_redis demo_phase [('':status'', ''200'')] ?st1 s1
      = (s3, st3, r, Some Paid)"
    by (cases "response_headers demo_crypto mem_redis demo_phase [('':status'', ''200'')] ?st1 s1")
      (auto simp: response_headers_def hget_def demo_status capture_def demo_phase_def Let_def split: prod.splits)
  with a show thesis by (rule that)
qed

lemma demo_table_ok: "\<forall>k e. price_lookup (ph_table demo_phase) k = Some e \<longrightarrow> entry_ok demo_crypto [Testnet] e"
  using demo_entry_ok by (simp add: demo_phase_def price_lookup_def split: if_splits)

lemma demo_served_at: "is_int64 (unix_milli (ph_served_at demo_phase))"
  by (simp add: demo_phase_def is_int64_def unix_milli_def)

text \<open>
  C2: what is settled is what was verified.  When a paid request was served, the capture
  stream holds a job from which the settler reads back the very payload the filter verified
  and the requirements it verified it against; the payer and the amount to release are those
  of the reservation, the deadline is the signature's, and the nonce it asks the chain about
  is the verified one.
\<close>

theorem settled_payment_is_the_verified_one:
  assumes "stream_laws R" "\<forall>k e. price_lookup (ph_table ph1) k = Some e \<longrightarrow> entry_ok C nets e"
    and "request_headers C R page pays ph1 attrs h1 st s = (s1, st1, ContinueRequest (Some m), d1)"
    and "response_headers C R ph2 h2 st1 s2 = (s3, st3, r, Some Paid)" "is_int64 (unix_milli (ph_served_at ph2))"
  shows "\<exists>key e pp res vs j. price_lookup (ph_table ph1) key = Some e \<and>
    decode_payment_payload (hget h1 (to_lower HeaderPaymentSignature)) = Inr pp \<and>
    verify C (ph_verify_at ph1) (pe_requirements e) (sbc_domain (pe_network e)) pp = Inr res \<and>
    vs \<in> snd ` set (sm_entries (rd_stream R s3 SettleStream)) \<and> parse_job vs = Inr j \<and>
    decode_payment_payload (jb_payment j) = Inr pp \<and> jb_requirements j = pe_requirements e \<and>
    jb_network j = network (pe_network e) \<and> parse_address (jb_payer j) = Inr (v_payer res) \<and>
    big_set_string (jb_amount j) = Some (pe_price e) \<and> jb_validBefore j * nsec = v_expires res \<and>
    (\<forall>http. used_on_chain C http pp =
       (case authorization_state C http SBCAddress (v_payer res) (a_nonce (v_auth res)) of
          Inl _ \<Rightarrow> None | Inr used \<Rightarrow> Some used))"
proof (rule captured_job [OF assms])
  fix key e pp res vs j
  assume p: "price_lookup (ph_table ph1) key = Some e"
    "decode_payment_payload (hget h1 (to_lower HeaderPaymentSignature)) = Inr pp"
    "verify C (ph_verify_at ph1) (pe_requirements e) (sbc_domain (pe_network e)) pp = Inr res"
    and j: "vs \<in> snd ` set (sm_entries (rd_stream R s3 SettleStream))" "parse_job vs = Inr j"
    "decode_payment_payload (jb_payment j) = Inr pp" "jb_requirements j = pe_requirements e"
    "jb_network j = network (pe_network e)" "parse_address (jb_payer j) = Inr (v_payer res)"
    "big_set_string (jb_amount j) = Some (pe_price e)" "jb_validBefore j * nsec = v_expires res"
  show ?thesis
    by (intro exI conjI allI, (rule p j used_on_chain_verified [OF p(3)])+)
qed

theorem settled_payment_is_the_verified_one_witness:
  "\<exists>hdr s1 st1 m d1 s3 st3 r pp vs j. request_headers demo_crypto mem_redis (\<lambda>_. None) (Some demo_payments) demo_phase
       demo_attrs [(''payment-signature'', hdr)] new_request empty_mem = (s1, st1, ContinueRequest (Some m), d1) \<and>
     response_headers demo_crypto mem_redis demo_phase [('':status'', ''200'')] st1 s1 = (s3, st3, r, Some Paid) \<and>
     decode_payment_payload hdr = Inr pp \<and>
     vs \<in> snd ` set (sm_entries (rd_stream mem_redis s3 SettleStream)) \<and> parse_job vs = Inr j \<and>
     decode_payment_payload (jb_payment j) = Inr pp"
proof (rule demo_paid)
  fix hdr s1 st1 m d1 s3 st3 r
  assume a: "request_headers demo_crypto mem_redis (\<lambda>_. None) (Some demo_payments) demo_phase demo_attrs
      [(''payment-signature'', hdr)] new_request empty_mem = (s1, st1, ContinueRequest (Some m), d1)"
    and b: "response_headers demo_crypto mem_redis demo_phase [('':status'', ''200'')] st1 s1 = (s3, st3, r, Some Paid)"
  have low: "to_lower HeaderPaymentSignature = ''payment-signature''"
    by (simp add: HeaderPaymentSignature_def to_lower_def to_lower_char_def is_upper_def)
  have "\<exists>pp vs j. decode_payment_payload hdr = Inr pp \<and>
     vs \<in> snd ` set (sm_entries (rd_stream mem_redis s3 SettleStream)) \<and> parse_job vs = Inr j \<and>
     decode_payment_payload (jb_payment j) = Inr pp"
    using settled_payment_is_the_verified_one [OF mem_laws(2) demo_table_ok a b demo_served_at]
    by (simp add: low hget_def) blast
  with a b show ?thesis by blast
qed

text \<open>
  C4: a payment that was served can be settled.  The job a paid response queued is one a settler
  finishes: when the network is one it serves, the signature is still valid, the delivery is
  within the limit, the facilitator settles the very payload and requirements the filter
  verified, and Redis answers, the job is acknowledged as settled, leaves the pending list,
  and takes the price, and nothing else, off what the payer has in flight.
\<close>

theorem served_payment_is_settled:
  assumes "key_laws R" "stream_laws R" "\<forall>k e. price_lookup (ph_table ph1) k = Some e \<longrightarrow> entry_ok C nets e"
    and "request_headers C R page pays ph1 attrs h1 st s = (s1, st1, ContinueRequest (Some m), d1)"
    and "response_headers C R ph2 h2 st1 s2 = (s3, st3, r, Some Paid)" "is_int64 (unix_milli (ph_served_at ph2))"
  shows "\<exists>key e pp res vs. price_lookup (ph_table ph1) key = Some e \<and>
    decode_payment_payload (hget h1 (to_lower HeaderPaymentSignature)) = Inr pp \<and>
    verify C (ph_verify_at ph1) (pe_requirements e) (sbc_domain (pe_network e)) pp = Inr res \<and>
    vs \<in> snd ` set (sm_entries (rd_stream R s3 SettleStream)) \<and>
    (\<forall>S w i s4 resp s5 v.
       let net = network (pe_network e); t = hw_release_ms w; k = inflight_key C (v_payer res) in
       net \<in> set (sl_facilitators S) \<and> net \<in> set (sl_rpcs S) \<and> deliveries R w i s4 \<le> max_deliveries S \<and>
       unix (hw_clock w) < a_before (v_auth res) \<and>
       fac_settle (hw_facilitator w net) pp (pe_requirements e) = (resp, None) \<and> sr_success resp \<and>
       hw_release_fault w = Answered \<and> hw_ack_fault w = Answered \<and> counter_ok (rd_view R s4 t) k \<and>
       handle_job C R S w (i, vs) s4 = (s5, v) \<longrightarrow>
       v = Acked Settled \<and> sm_deliveries i (rd_stream R s5 SettleStream) = None \<and>
       inflight_of (rd_view R s5 t) k = max 0 (inflight_of (rd_view R s4 t) k - pe_price e))"
proof (rule captured_job [OF assms(2-6)])
  fix key e pp res vs j
  assume p: "price_lookup (ph_table ph1) key = Some e"
    "decode_payment_payload (hget h1 (to_lower HeaderPaymentSignature)) = Inr pp"
    "verify C (ph_verify_at ph1) (pe_requirements e) (sbc_domain (pe_network e)) pp = Inr res"
    "vs \<in> snd ` set (sm_entries (rd_stream R s3 SettleStream))"
    and j: "parse_job vs = Inr j" "decode_payment_payload (jb_payment j) = Inr pp" "jb_requirements j = pe_requirements e"
    "jb_network j = network (pe_network e)" "parse_address (jb_payer j) = Inr (v_payer res)"
    "big_set_string (jb_amount j) = Some (pe_price e)" "jb_validBefore j = a_before (v_auth res)"
  have a: "0 < pe_price e" "pe_price e \<le> MaxExact"
    using assms(3) p(1) by (auto simp: entry_ok_def MaxPrice_def MaxExact_def)
  show ?thesis
    by (rule exI [of _ key], rule exI [of _ e], rule exI [of _ pp], rule exI [of _ res], rule exI [of _ vs],
        unfold Let_def, intro conjI allI impI p, (elim conjE, rule live_job_is_settled
          [OF assms(1,2) j(1,2) _ _ _ _ _ _ _ _ j(5,6) a, unfolded j(3,4,7)], assumption+)+)
qed

definition demo_settling :: handling where
  "demo_settling = demo_handling\<lparr>hw_facilitator := (\<lambda>_. demo_settle_http)\<rparr>"

theorem served_payment_is_settled_witness:
  "\<exists>hdr s1 st1 m d1 s3 st3 r vs s5. request_headers demo_crypto mem_redis (\<lambda>_. None) (Some demo_payments) demo_phase
       demo_attrs [(''payment-signature'', hdr)] new_request empty_mem = (s1, st1, ContinueRequest (Some m), d1) \<and>
     response_headers demo_crypto mem_redis demo_phase [('':status'', ''200'')] st1 s1 = (s3, st3, r, Some Paid) \<and>
     vs \<in> snd ` set (sm_entries (rd_stream mem_redis s3 SettleStream)) \<and>
     handle_job demo_crypto mem_redis demo_settler demo_settling (0, vs) empty_mem = (s5, Acked Settled)"
proof (rule demo_paid)
  fix hdr s1 st1 m d1 s3 st3 r
  assume a: "request_headers demo_crypto mem_redis (\<lambda>_. None) (Some demo_payments) demo_phase demo_attrs
      [(''payment-signature'', hdr)] new_request empty_mem = (s1, st1, ContinueRequest (Some m), d1)"
    and b: "response_headers demo_crypto mem_redis demo_phase [('':status'', ''200'')] st1 s1 = (s3, st3, r, Some Paid)"
  obtain key e pp res vs where p: "price_lookup (ph_table demo_phase) key = Some e"
    "verify demo_crypto (ph_verify_at demo_phase) (pe_requirements e) (sbc_domain (pe_network e)) pp = Inr res"
    "vs \<in> snd ` set (sm_entries (rd_stream mem_redis s3 SettleStream))"
    and all: "\<And>S w i s4 resp s5 v.
       let net = network (pe_network e); t = hw_release_ms w; k = inflight_key demo_crypto (v_payer res) in
       net \<in> set (sl_facilitators S) \<and> net \<in> set (sl_rpcs S) \<and> deliveries mem_redis w i s4 \<le> max_deliveries S \<and>
       unix (hw_clock w) < a_before (v_auth res) \<and>
       fac_settle (hw_facilitator w net) pp (pe_requirements e) = (resp, None) \<and> sr_success resp \<and>
       hw_release_fault w = Answered \<and> hw_ack_fault w = Answered \<and> counter_ok (rd_view mem_redis s4 t) k \<and>
       handle_job demo_crypto mem_redis S w (i, vs) s4 = (s5, v) \<longrightarrow>
       v = Acked Settled \<and> sm_deliveries i (rd_stream mem_redis s5 SettleStream) = None \<and>
       inflight_of (rd_view mem_redis s5 t) k = max 0 (inflight_of (rd_view mem_redis s4 t) k - pe_price e)"
    using served_payment_is_settled [OF mem_laws demo_table_ok a b demo_served_at] by blast
  have e: "network (pe_network e) = ''eip155:72344''"
    using p(1) by (auto simp: demo_phase_def price_lookup_def demo_entry_def network_testnet split: if_splits)
  have live: "unix 0 < a_before (v_auth res)"
    using p(2) unfolding verify_Inr_iff terms_met_def by (auto simp: demo_phase_def)
  obtain resp where f: "fac_settle demo_settle_http pp (pe_requirements e) = (resp, None)" "sr_success resp"
    using demo_settle_answers(2) by blast
  obtain s5 v where h: "handle_job demo_crypto mem_redis demo_settler demo_settling (0, vs) empty_mem = (s5, v)"
    by fastforce
  have n: "deliveries mem_redis demo_settling 0 empty_mem \<le> max_deliveries demo_settler"
    using mem_laws(2) by (simp add: deliveries_def demo_settling_def demo_handling_def mem_redis_def empty_mem_def
        empty_stream_def sm_deliveries_def max_deliveries_def demo_settler_def)
  have "v = Acked Settled"
    using all [where S = demo_settler and w = demo_settling and i = 0 and ?s4.0 = empty_mem and resp = resp and ?s5.0 = s5
        and v = v] e live f h n
    by (simp add: demo_settling_def demo_handling_def demo_settler_def empty_mem_view counter_ok_def Let_def)
  with a b p(3) h show ?thesis by blast
qed

end
