(* ===== verification/HtmlPage.thy ===== *)
theory HtmlPage
  imports Paywall
begin

text \<open>
  The HTML page of a 402 (\<open>internal/paywall/page.html\<close>, executed by \<open>Render\<close> for a browser).  The
  template is written out as a function of its data; each value goes through the escapers
  that \<open>html/template\<close> picks for its place: \<open>html_escape\<close> in text, and \<open>attr_url\<close> in the one link.  A
  string is its bytes, so the runes above 127 that the escapers leave alone need no decoding.
\<close>

section \<open>Escapers\<close>

text \<open>\<open>htmlReplacementTable\<close>\<close>

definition html_entity :: "char \<Rightarrow> string" where
  "html_entity c =
     (if c = CHR 0x00 then [CHR 0xEF, CHR 0xBF, CHR 0xBD]
      else if c = CHR 0x22 then ''&#34;'' else if c = CHR ''&'' then ''&amp;''
      else if c = CHR 0x27 then ''&#39;'' else if c = CHR ''+'' then ''&#43;''
      else if c = CHR ''<'' then ''&lt;'' else if c = CHR ''>'' then ''&gt;'' else [c])"

definition html_escape :: "string \<Rightarrow> string" where
  "html_escape s = concat (map html_entity s)"

text \<open>
  \<open>urlfilter\<close>: a URL with a scheme other than http, https and mailto is replaced.  Unicode
  folding makes the long s, two bytes, an s.
\<close>

definition safe_scheme :: "string \<Rightarrow> bool" where
  "safe_scheme p \<longleftrightarrow>
     equal_fold p ''http'' \<or> equal_fold p ''https'' \<or> equal_fold p ''mailto'' \<or>
     (length p = 6 \<and> equal_fold (take 4 p) ''http'' \<and> drop 4 p = [CHR 0xC5, CHR 0xBF])"

definition url_filter :: "string \<Rightarrow> string" where
  "url_filter s =
     (case cut_at (CHR '':'') s of
        (p, r, found) \<Rightarrow> if found \<and> CHR ''/'' \<notin> set p \<and> \<not> safe_scheme p then ''#ZgotmplZ'' else s)"

text \<open>\<open>urlnormalizer\<close>\<close>

definition url_plain :: "char \<Rightarrow> bool" where
  "url_plain c \<longleftrightarrow> is_digit c \<or> is_lower c \<or> is_upper c \<or> c \<in> set ''-._~!#$&*+,/:;=?@[]''"

definition percent :: "char \<Rightarrow> string" where
  "percent c = [CHR ''%'', hex_char (code c div 16), hex_char (code c mod 16)]"

definition hex_pair :: "string \<Rightarrow> bool" where
  "hex_pair s \<longleftrightarrow> (case s of h # l # _ \<Rightarrow> hex_val h \<noteq> None \<and> hex_val l \<noteq> None | _ \<Rightarrow> False)"

fun url_normalize :: "string \<Rightarrow> string" where
  "url_normalize [] = []"
| "url_normalize (c # s) =
     (if url_plain c \<or> c = CHR ''%'' \<and> hex_pair s then [c] else percent c) @ url_normalize s"

definition attr_url :: "string \<Rightarrow> string" where
  "attr_url s = html_escape (url_normalize (url_filter s))"

section \<open>The page\<close>

definition lines_of :: "string list \<Rightarrow> string" where
  "lines_of ls = concat (map (\<lambda>l. l @ [CHR 0x0A]) ls)"

definition page_head :: "string list" where
  "page_head =
     [''<!doctype html>'',
      ''<html lang=\"en\">'',
      ''<head>'',
      ''<meta charset=\"utf-8\">'',
      ''<meta name=\"viewport\" content=\"width=device-width, initial-scale=1\">'',
      ''<title>Payment required</title>'',
      ''<style>'',
      ''  :root { color-scheme: light dark; --fg: #1a1a1a; --muted: #5c5c5c; --bg: #fafafa; --card: #ffffff; --line: #e2e2e2; --code: #f1f1f1; }'',
      ''  @media (prefers-color-scheme: dark) { :root { --fg: #ececec; --muted: #a3a3a3; --bg: #141414; --card: #1d1d1d; --line: #2f2f2f; --code: #262626; } }'',
      ''  body { margin: 0; background: var(--bg); color: var(--fg); font: 16px/1.5 system-ui, -apple-system, sans-serif; }'',
      ''  main { max-width: 40rem; margin: 3rem auto; padding: 0 1rem; }'',
      ''  .card { background: var(--card); border: 1px solid var(--line); border-radius: 12px; padding: 1.5rem; }'',
      ''  h1 { font-size: 1.4rem; margin: 0 0 .25rem; }'',
      ''  .price { font-size: 2rem; font-weight: 600; margin: .75rem 0; }'',
      ''  .muted { color: var(--muted); }'',
      ''  dl { display: grid; grid-template-columns: max-content 1fr; gap: .25rem 1rem; margin: 1rem 0; }'',
      ''  dt { color: var(--muted); }'',
      ''  dd { margin: 0; overflow-wrap: anywhere; }'',
      ''  h2 { font-size: 1rem; margin: 1.5rem 0 .5rem; }'',
      ''  ol { padding-left: 1.25rem; } li { margin: .5rem 0; } li .muted { font-size: .875rem; }'',
      ''  pre { background: var(--code); border-radius: 8px; padding: .75rem; overflow-x: auto; white-space: pre-wrap; overflow-wrap: anywhere; font-size: .875rem; margin: .25rem 0; }'',
      ''  a { color: inherit; }'',
      ''</style>'',
      ''</head>'',
      ''<body>'',
      ''<main>'',
      ''  <div class=\"card\">'',
      ''    <h1>Payment required</h1>'']"

definition page_step :: "pay_step \<Rightarrow> string" where
  "page_step s =
     ''<li><pre>'' @ html_escape (sp_run s) @ ''</pre>''
       @ (if sp_note s = [] then [] else ''<span class=\"muted\">'' @ html_escape (sp_note s) @ ''</span>'')
       @ ''</li>'' @ [CHR 0x0A] @ ''      ''"

definition html_page :: "page_data \<Rightarrow> string" where
  "html_page d =
     (let h = pg_how d; e = html_escape in
      lines_of page_head
      @ lines_of
        [''    <p class=\"muted\">This resource is paid per request with x402.''
           @ (if hp_description h = [] then [] else '' '' @ e (hp_description h)) @ ''</p>'',
         ''    <div class=\"price\">'' @ e (hp_price h) @ '' '' @ e (hp_asset h) @ ''</div>'',
         ''    <dl>'',
         ''      <dt>Network</dt><dd>'' @ e (hp_network h) @ ''</dd>'',
         ''      <dt>Pay to</dt><dd><code>'' @ e (hp_payTo h) @ ''</code></dd>'',
         ''      <dt>Resource</dt><dd><code>'' @ e (pg_url d) @ ''</code></dd>'',
         ''    </dl>'',
         ''    '' @ (if hp_message h = [] then [] else ''<p>'' @ e (hp_message h) @ ''</p>''),
         [],
         ''    <h2>Pay from a terminal or an agent</h2>'',
         ''    <ol>'',
         ''      '' @ concat (map page_step (hp_steps h)),
         ''    </ol>'',
         [],
         ''    <h2>Pay from code</h2>'',
         ''    <p>Use <code>'' @ e (sd_entry (hp_sdk h)) @ ''</code> from <code>'' @ e (sd_import (hp_sdk h))
           @ ''</code> (package <code>'' @ e (sd_package (hp_sdk h)) @ ''</code>): '' @ e (sd_note (hp_sdk h)) @ ''.</p>'',
         ''    <p><a href=\"'' @ attr_url (hp_docs h) @ ''\">x402 on Radius: documentation</a></p>'',
         ''  </div>'', ''</main>'', ''</body>'', ''</html>''])"

text \<open>Executing the template never fails.\<close>

definition page_renderer :: "page_data \<Rightarrow> string option" where
  "page_renderer d = Some (html_page d)"

section \<open>Lemmas: how a browser reads it\<close>

text \<open>The tags of a document: what stands between the brackets, in order\<close>

fun tags :: "string option \<Rightarrow> string \<Rightarrow> string list" where
  "tags None [] = []"
| "tags None (c # s) = (if c = CHR ''<'' then tags (Some []) s else tags None s)"
| "tags (Some t) [] = [t]"
| "tags (Some t) (c # s) = (if c = CHR ''>'' then t # tags None s else tags (Some (t @ [c])) s)"

lemma tags_text: "CHR ''<'' \<notin> set t \<Longrightarrow> tags None (t @ s) = tags None s"
  by (induction t) auto

lemma tags_inside: "CHR ''>'' \<notin> set u \<Longrightarrow> tags (Some t) (u @ s) = tags (Some (t @ u)) s"
  by (induction u arbitrary: t) auto

lemma html_escape_inert: "set (html_escape s) \<inter> {CHR ''<'', CHR ''>'', CHR 0x22, CHR 0x27} = {}"
  by (auto simp: html_escape_def html_entity_def split: if_splits)

lemma html_escape_brackets [simp]: "CHR ''<'' \<notin> set (html_escape s)" "CHR ''>'' \<notin> set (html_escape s)"
  using html_escape_inert [of s] by blast+

lemmas tags_escaped = tags_text [OF html_escape_brackets(1)]

lemma tags_attr: "tags (Some t) (attr_url u @ s) = tags (Some (t @ attr_url u)) s"
  by (simp add: attr_url_def tags_inside)

text \<open>A line that ends outside a tag is read by itself.\<close>

fun closed :: "bool \<Rightarrow> string \<Rightarrow> bool" where
  "closed inside [] \<longleftrightarrow> \<not> inside"
| "closed inside (c # s) = closed (if inside then c \<noteq> CHR ''>'' else c = CHR ''<'') s"

lemma tags_closed: "closed (t \<noteq> None) l \<Longrightarrow> tags t (l @ s) = tags t l @ tags None s"
  by (induction t l rule: tags.induct) (auto split: if_splits)

lemma tags_lines:
  "list_all (closed False) ls \<Longrightarrow> tags None (lines_of ls @ s) = concat (map (tags None) ls) @ tags None s"
  by (induction ls) (simp_all add: lines_of_def tags_closed)

text \<open>The character references of the escapers, as a browser decodes them\<close>

definition references :: "(string \<times> char) list" where
  "references = [(''&#34;'', CHR 0x22), (''&amp;'', CHR ''&''), (''&#39;'', CHR 0x27), (''&#43;'', CHR ''+''),
     (''&lt;'', CHR ''<''), (''&gt;'', CHR ''>'')]"

function html_unescape :: "string \<Rightarrow> string" where
  "html_unescape [] = []"
| "html_unescape (c # s) =
     (case find (\<lambda>(r, x). prefix r (c # s)) references of
        Some (r, x) \<Rightarrow> x # html_unescape (drop (length r - 1) s)
      | None \<Rightarrow> c # html_unescape s)"
  by pat_completeness auto
termination by (relation "measure length") auto

lemma unescape_entity:
  "html_unescape (html_entity c @ s) = (if c = CHR 0x00 then [CHR 0xEF, CHR 0xBF, CHR 0xBD] else [c]) @ html_unescape s"
  by (auto simp: html_entity_def references_def)

lemma unescape_escape:
  "html_unescape (html_escape s) = concat (map (\<lambda>c. if c = CHR 0x00 then [CHR 0xEF, CHR 0xBF, CHR 0xBD] else [c]) s)"
  by (induction s) (simp_all add: html_escape_def unescape_entity)

text \<open>The tags the template has: which parts are there, a flag per step for its note, and the link\<close>

definition head_tags :: "string list" where
  "head_tags =
     [''!doctype html'', ''html lang=\"en\"'', ''head'', ''meta charset=\"utf-8\"'',
      ''meta name=\"viewport\" content=\"width=device-width, initial-scale=1\"'', ''title'', ''/title'',
      ''style'', ''/style'', ''/head'', ''body'', ''main'', ''div class=\"card\"'', ''h1'', ''/h1'']"

definition step_tags :: "bool \<Rightarrow> string list" where
  "step_tags note =
     [''li'', ''pre'', ''/pre''] @ (if note then [''span class=\"muted\"'', ''/span''] else []) @ [''/li'']"

definition page_tags :: "bool \<Rightarrow> bool list \<Rightarrow> string \<Rightarrow> string list" where
  "page_tags message notes link =
     head_tags
     @ [''p class=\"muted\"'', ''/p'', ''div class=\"price\"'', ''/div'', ''dl'', ''dt'', ''/dt'', ''dd'', ''/dd'',
        ''dt'', ''/dt'', ''dd'', ''code'', ''/code'', ''/dd'', ''dt'', ''/dt'', ''dd'', ''code'', ''/code'', ''/dd'', ''/dl'']
     @ (if message then [''p'', ''/p''] else [])
     @ [''h2'', ''/h2'', ''ol''] @ concat (map step_tags notes)
     @ [''/ol'', ''h2'', ''/h2'', ''p'', ''code'', ''/code'', ''code'', ''/code'', ''code'', ''/code'', ''/p'', ''p'',
        ''a href=\"'' @ link @ ''\"'', ''/a'', ''/p'', ''/div'', ''/main'', ''/body'', ''/html'']"

lemma tags_head: "tags None (lines_of page_head @ s) = head_tags @ tags None s"
proof -
  have "list_all (closed False) page_head" "concat (map (tags None) page_head) = head_tags" by code_simp+
  then show ?thesis by (simp add: tags_lines)
qed

lemma tags_step: "tags None (page_step p @ s) = step_tags (sp_note p \<noteq> []) @ tags None s"
  by (simp add: page_step_def step_tags_def tags_escaped)

lemma tags_steps: "tags None (concat (map page_step ps) @ s) = concat (map (\<lambda>p. step_tags (sp_note p \<noteq> [])) ps) @ tags None s"
  by (induction ps) (simp_all add: tags_step)

section \<open>Properties\<close>

text \<open>
  C28: nothing a caller or a policy writes becomes markup.  Whatever the data, the tags of the
  page are those of the template, the one link's address apart; that address has no quote and
  no bracket; and the text in between is decoded by a browser to the value itself, a NUL as the
  replacement character.
\<close>

theorem page_markup_is_the_templates:
  "tags None (html_page d) =
     page_tags (hp_message (pg_how d) \<noteq> []) (map (\<lambda>s. sp_note s \<noteq> []) (hp_steps (pg_how d))) (attr_url (hp_docs (pg_how d))) \<and>
   set (attr_url (hp_docs (pg_how d))) \<inter> {CHR ''<'', CHR ''>'', CHR 0x22, CHR 0x27} = {} \<and>
   html_unescape (html_escape s) = concat (map (\<lambda>c. if c = CHR 0x00 then [CHR 0xEF, CHR 0xBF, CHR 0xBD] else [c]) s)"
proof -
  have "tags None (html_page d) =
     page_tags (hp_message (pg_how d) \<noteq> []) (map (\<lambda>s. sp_note s \<noteq> []) (hp_steps (pg_how d))) (attr_url (hp_docs (pg_how d)))"
    unfolding html_page_def Let_def tags_head page_tags_def
    by (simp add: lines_of_def tags_escaped tags_steps tags_attr comp_def)
  then show ?thesis using html_escape_inert unescape_escape by (simp add: attr_url_def)
qed

end
