(* ===== verification/EndToEnd.thy ===== *)
theory EndToEnd
  imports Gateway HtmlPage
begin

text \<open>
  The buyer, Envoy and the filter together.  \<open>via_filter\<close> is one HTTP exchange through the
  filter: the request phase of a stream (\<open>handle\<close>), the backend when the request passes, the
  response phase, the end of the stream.  \<open>exchanges\<close> are the two requests of the buyer's \<open>Pay\<close>.
  Envoy is a parameter, the record \<open>envoy\<close>: what it sends the filter for a client's request
  and for a backend's response, and what it makes of the filter's answers; \<open>envoy_laws\<close> is its
  documented behaviour.
\<close>

section \<open>Envoy between the buyer and the filter\<close>

record envoy =
  ev_request :: "(string \<times> string) list \<Rightarrow> wire_headers"
  ev_immediate :: "int \<Rightarrow> headers \<Rightarrow> string \<Rightarrow> http_response"
  ev_status :: "http_response \<Rightarrow> wire_headers"
  ev_respond :: "mutation option \<Rightarrow> http_response \<Rightarrow> http_response"

definition envoy_laws :: "envoy \<Rightarrow> bool" where
  "envoy_laws E \<longleftrightarrow>
     hget (header_map (ev_request E [])) (to_lower HeaderPaymentSignature) = [] \<and>
     (\<forall>v. hget (header_map (ev_request E [(HeaderPaymentSignature, v)])) (to_lower HeaderPaymentSignature) = v) \<and>
     (\<forall>status hs body. hr_status (ev_immediate E status hs body) = status \<and>
        (\<forall>k v. map_of hs (to_lower k) = Some v \<longrightarrow> header_get (hr_headers (ev_immediate E status hs body)) k = v)) \<and>
     (\<forall>r. hget (header_map (ev_status E r)) '':status'' = int_str (hr_status r)) \<and>
     (\<forall>m r. hr_status (ev_respond E m r) = hr_status r \<and> hr_body (ev_respond E m r) = hr_body r) \<and>
     (\<forall>m r k v. map_of (mu_set m) (to_lower k) = Some v \<longrightarrow> header_get (hr_headers (ev_respond E (Some m) r)) k = v)"

lemma envoy_lawsD:
  assumes "envoy_laws E"
  shows "hget (header_map (ev_request E [])) (to_lower HeaderPaymentSignature) = []"
    "hget (header_map (ev_request E [(HeaderPaymentSignature, v)])) (to_lower HeaderPaymentSignature) = v"
    "hr_status (ev_immediate E status hs body) = status"
    "map_of hs (to_lower k) = Some v \<Longrightarrow> header_get (hr_headers (ev_immediate E status hs body)) k = v"
    "hget (header_map (ev_status E r)) '':status'' = int_str (hr_status r)"
    "hr_status (ev_respond E mo r) = hr_status r" "hr_body (ev_respond E mo r) = hr_body r"
    "map_of (mu_set m) (to_lower k) = Some v \<Longrightarrow> header_get (hr_headers (ev_respond E (Some m) r)) k = v"
  using assms unfolding envoy_laws_def by blast+

text \<open>One exchange: the request phase, the backend, the response phase, the end of the stream.\<close>

definition via_filter ::
  "('pk, 'sk) crypto \<Rightarrow> 'r redis \<Rightarrow> (page_data \<Rightarrow> string option) \<Rightarrow> payments option \<Rightarrow> envoy
     \<Rightarrow> (string \<times> (string \<times> attr_value) list) list \<Rightarrow> (mutation option \<Rightarrow> http_response)
     \<Rightarrow> phase \<times> phase \<times> phase \<Rightarrow> (string \<times> string) list \<Rightarrow> 'r \<Rightarrow> 'r \<times> (http_error, http_response) result" where
  "via_filter C R page pays E attrs backend phs extra s =
     (case phs of (ph, rph, eph) \<Rightarrow>
       (case handle C R page pays ph (RequestHeaders attrs (ev_request E extra)) new_request s of
          (s1, st1, Some (Immediate status hs body details)) \<Rightarrow>
            (fst (finish C R eph st1 s1), Inr (ev_immediate E status hs body))
        | (s1, st1, Some (ContinueRequest m)) \<Rightarrow>
            (case handle C R page pays rph (ResponseHeaders (ev_status E (backend m))) st1 s1 of
               (s2, st2, Some (ContinueResponse m')) \<Rightarrow>
                 (fst (finish C R eph st2 s2), Inr (ev_respond E m' (backend m)))
             | (s2, st2, _) \<Rightarrow> (fst (finish C R eph st2 s2), Inl (PlainError ''stream failed'')))
        | (s1, st1, _) \<Rightarrow> (fst (finish C R eph st1 s1), Inl (PlainError ''stream failed''))))"

text \<open>What the filter reads of a request\<close>

definition asked :: "headers \<Rightarrow> pay_request" where
  "asked h =
     \<lparr>pq_method = hget h '':method'', pq_url = public_url h, pq_accept = hget h ''accept'',
      pq_userAgent = hget h ''user-agent'', pq_refused = []\<rparr>"

text \<open>What the filter offers for the buyer's request.\<close>

definition offered :: "envoy \<Rightarrow> entry \<Rightarrow> payment_required" where
  "offered E e = payment_required_of e (asked (header_map (ev_request E [])))"

text \<open>The buyer's two requests: each in its own phases, from the state Redis is in at that moment.\<close>

definition exchanges ::
  "('pk, 'sk) crypto \<Rightarrow> 'r redis \<Rightarrow> (page_data \<Rightarrow> string option) \<Rightarrow> payments option \<Rightarrow> envoy
     \<Rightarrow> (string \<times> (string \<times> attr_value) list) list \<Rightarrow> (mutation option \<Rightarrow> http_response)
     \<Rightarrow> (phase \<times> phase \<times> phase) \<times> 'r \<Rightarrow> (phase \<times> phase \<times> phase) \<times> 'r
     \<Rightarrow> (string \<times> string) list \<Rightarrow> (http_error, http_response) result" where
  "exchanges C R page pays E attrs backend first second extra =
     (case (if extra = [] then first else second) of
        (phs, s) \<Rightarrow> snd (via_filter C R page pays E attrs backend phs extra s))"

section \<open>Lemmas: terms and streams\<close>

text \<open>A checked price's own terms are ASCII and short.\<close>

lemma entry_ok_terms:
  assumes "entry_ok C nets e"
  shows "ok_requirements (pe_requirements e)" "json_size (enc_requirements (pe_requirements e)) \<le> 2400"
    "rq_scheme (pe_requirements e) = SchemeExact" "rq_network (pe_requirements e) = network (pe_network e)"
    "rq_asset (pe_requirements e) = SBC" "rq_timeout (pe_requirements e) = r_timeout (pe_route e)"
    "30 \<le> r_timeout (pe_route e)" "r_timeout (pe_route e) \<le> 600"
proof -
  obtain payTo where p: "is_address payTo" "pe_requirements e = exact_requirements (pe_network e) (int_str (pe_price e))
      (address_string C payTo) (r_timeout (pe_route e))"
    "0 < pe_price e" "pe_price e \<le> MaxPrice" "30 \<le> r_timeout (pe_route e)" "r_timeout (pe_route e) \<le> 600"
    using assms by (auto simp: entry_ok_def MinTimeoutSeconds_def MaxTimeoutSeconds_def)
  have digits: "length (int_str (pe_price e)) \<le> 16" "length (int_str (r_timeout (pe_route e))) \<le> 3"
    using p(3-6) by (auto intro!: length_int_str simp: MaxPrice_def)
  note net = network_text(1) [of "pe_network e"]
  show "ok_requirements (pe_requirements e)" by (rule entry_requirements_ok [OF assms])
  show "json_size (enc_requirements (pe_requirements e)) \<le> 2400"
    using digits net length_address_string [OF p(1), of C]
    by (simp add: p(2) exact_requirements_def enc_requirements_def enc_extra_def omit_empty_def jint_def
        SchemeExact_def SBC_def TransferEIP3009_def SBCName_def SBCVersion_def)
qed (use assms in \<open>auto simp: entry_ok_def exact_requirements_def MinTimeoutSeconds_def MaxTimeoutSeconds_def\<close>)

text \<open>It is a stream of the filter.\<close>


lemma via_filter_process:
  assumes "ph_sent ph" "ph_sent rph"
  obtains ms where "envoy_messages ms" "snd ` set ms \<subseteq> {ph, rph}"
    "fst (process C R page pays ms eph s) = fst (via_filter C R page pays E attrs backend (ph, rph, eph) extra s)"
proof -
  obtain s1 st1 o1 where h: "handle C R page pays ph (RequestHeaders attrs (ev_request E extra)) new_request s
      = (s1, st1, o1)" by (cases "handle C R page pays ph (RequestHeaders attrs (ev_request E extra)) new_request s")
  show thesis
  proof (cases "\<exists>m. o1 = Some (ContinueRequest m)")
    case False
    then show thesis
      by (intro that [of "[(RequestHeaders attrs (ev_request E extra), ph)]"])
        (auto simp: envoy_messages_def via_filter_def process_def h assms split: option.splits reply.splits prod.splits)
  next
    case True
    then obtain m where m: "o1 = Some (ContinueRequest m)" by blast
    obtain s2 st2 o2 where h2: "handle C R page pays rph (ResponseHeaders (ev_status E (backend m))) st1 s1
        = (s2, st2, o2)" by (cases "handle C R page pays rph (ResponseHeaders (ev_status E (backend m))) st1 s1")
    show thesis
      by (rule that [of "[(RequestHeaders attrs (ev_request E extra), ph), (ResponseHeaders (ev_status E (backend m)), rph)]"])
        (auto simp: envoy_messages_def via_filter_def process_def h h2 m assms split: option.splits reply.splits prod.splits)
  qed
qed

section \<open>Lemmas: the two exchanges\<close>

lemma request_offers:
  assumes "route_key (route_attribute attrs) = Some key" "price_lookup (ph_table ph) key = Some e"
    and "hget h (to_lower HeaderPaymentSignature) = []"
  shows "request_headers C R page pays ph attrs h st s =
    (s, st\<lparr>q_entry := Some e\<rparr>, paywall_reply page e (asked h) PaymentRequired)"
  using assms by (cases "ph_table ph") (simp_all add: request_headers_def price_lookup_def asked_def Let_def)

lemma first_exchange:
  assumes "envoy_laws E" "route_key (route_attribute attrs) = Some key" "price_lookup (ph_table ph) key = Some e"
    and "ph_waited ph" "\<And>d. page d \<noteq> None"
  obtains r where "via_filter C R page pays E attrs backend (ph, rph, eph) [] s = (s, Inr r)" "hr_status r = 402"
    "header_get (hr_headers r) HeaderPaymentRequired =
       encode_payment_required (payment_required_of e (asked (header_map (ev_request E []))))"
proof -
  let ?h = "header_map (ev_request E [])"
  have "render page e (asked ?h) \<noteq> None" using assms(5) by (simp add: render_def Let_def)
  then obtain rp where rp: "render page e (asked ?h) = Some rp" by blast
  obtain ctype where p: "rp_status rp = 402" "rp_headers rp =
       [(HeaderPaymentRequired, encode_payment_required (payment_required_of e (asked ?h))),
        (''Cache-Control'', ''no-store''), (''Vary'', ''Accept, User-Agent''),
        (''Link'', ''<'' @ hp_docs (how_to_pay e (asked ?h)) @ ''>; rel='' @ [CHR 0x22] @ ''help'' @ [CHR 0x22]),
        (''Access-Control-Expose-Headers'', HeaderPaymentRequired), (''Content-Type'', ctype)]"
    by (rule render_Some [OF rp])
  have "handle C R page pays ph (RequestHeaders attrs (ev_request E [])) new_request s =
      (s, new_request\<lparr>q_entry := Some e\<rparr>, Some (Immediate 402 (set_headers (rp_headers rp)) (rp_body rp)
         (''x402_'' @ decision_str PaymentRequired)))"
    using request_offers [OF assms(2,3) envoy_lawsD(1) [OF assms(1)], of C R page pays new_request s] assms(4) p(1)
    by (simp add: handle_def paywall_reply_def rp immediate_def)
  then have v: "via_filter C R page pays E attrs backend (ph, rph, eph) [] s =
      (s, Inr (ev_immediate E 402 (set_headers (rp_headers rp)) (rp_body rp)))"
    by (simp add: via_filter_def finish_def new_request_def)
  have "map_of (set_headers (rp_headers rp)) (to_lower HeaderPaymentRequired) =
      Some (encode_payment_required (payment_required_of e (asked ?h)))"
    by (simp add: p(2) set_headers_def)
  with that [OF v] envoy_lawsD(3,4) [OF assms(1)] show thesis by simp
qed

lemma request_accepts:
  assumes "route_key (route_attribute attrs) = Some key" "price_lookup (ph_table ph) key = Some e"
    and "hget h (to_lower HeaderPaymentSignature) = hdr" "hdr \<noteq> []"
    and "decode_payment_payload hdr = Inr pp"
    and "verify C (ph_verify_at ph) (pe_requirements e) (sbc_domain (pe_network e)) pp = Inr res"
    and "map_of (pm_balances p) (network (pe_network e)) = Some cache"
    and "fst (balance_get C R cache (ph_read_fault ph) (ph_read_ms ph) (ph_cache_at ph) (v_payer res) (ph_arrival ph) s)
           = Inr bal"
    and "reserve C R (pm_reserve p) (ph_reserve_fault ph) (ph_reserve_at ph) (ph_ms ph)
           (v_payer res) (a_nonce (v_auth res)) (pe_price e) (bl_value bal) (v_expires res) s = (s', Inr (OutOK, Some rsv))"
  shows "request_headers C R page (Some p) ph attrs h st s =
    (s', hold (st\<lparr>q_entry := Some e\<rparr>) res rsv hdr, ContinueRequest (Some (admission C res)), PaymentAccepted)"
  using assms
  by (cases "ph_table ph") (simp_all add: request_headers_def price_lookup_def Let_def accept_payment_def hold_def admission_def)

lemma pending_receipt_decodes:
  assumes "length net \<le> 27" "length payer = 42" "length i = 66" "ascii net" "ascii payer" "ascii i"
  shows "decode_settle_response (encode_settle_response (pending_receipt net payer i)) = Inr (pending_receipt net payer i)"
proof (rule settle_roundtrip)
  have a: "ascii SettlementExtension" "ascii ''status''" "ascii ''paymentId''" "ascii ''pending''"
    by (simp_all add: ascii_code SettlementExtension_def)
  then show ok: "ok_settle (pending_receipt net payer i)"
    using assms by (simp add: ok_settle_def pending_receipt_def ok_members_def ascii_code [of "[]"])
  have "length (encode_settle_response (pending_receipt net payer i)) \<le>
      2 * json_size (enc_settle_response (pending_receipt net payer i)) + 2"
    unfolding encode_settle_response_def by (rule length_encode_header [OF wf_enc_settle [OF ok]])
  also have "\<dots> \<le> max_header_bytes"
    using assms by (simp add: pending_receipt_def enc_settle_response_def omit_empty_def omit_map_def max_header_bytes_def
        SettlementExtension_def)
  finally show "length (encode_settle_response (pending_receipt net payer i)) \<le> max_header_bytes" .
qed

lemma response_captures:
  assumes "serves h" "q_rsv st = Some rsv" "q_res st = Some res" "q_entry st = Some e" "ph_capture_fault ph = Answered"
  obtains s1 m where "response_headers C R ph h st s = (s1, st\<lparr>q_captured := True\<rparr>, ContinueResponse (Some m), Some Paid)"
    "map_of (mu_set m) (to_lower HeaderPaymentResponse) = Some (encode_settle_response
       (pending_receipt (network (pe_network e)) (address_string C (v_payer res)) (payment_id res)))"
    "\<exists>i. capture R Answered (ph_ms ph) (settlement_job C ph e res (q_payment st)) s = (s1, Some i)"
proof -
  obtain s1 i where c: "capture R Answered (ph_ms ph) (settlement_job C ph e res (q_payment st)) s = (s1, Some i)"
    by (cases "rd_xadd R s (ph_ms ph) SettleStream (Some StreamMaxLen)
        (job_fields (settlement_job C ph e res (q_payment st)))") (simp add: capture_def)
  have n: "\<not> (atoi (hget h '':status'') < 200 \<or> 299 < atoi (hget h '':status''))"
    using assms(1) by (simp add: serves_def)
  let ?m = "\<lparr>mu_remove = [], mu_set = set_headers
     [(''cache-control'', ''private, no-store''),
      (to_lower HeaderPaymentResponse, encode_settle_response
         (pending_receipt (network (pe_network e)) (address_string C (v_payer res)) (payment_id res))),
      (''access-control-expose-headers'', HeaderPaymentResponse)]\<rparr>"
  have "response_headers C R ph h st s = (s1, st\<lparr>q_captured := True\<rparr>, ContinueResponse (Some ?m), Some Paid)"
    using n c assms(2-5) by (simp add: response_headers_def Let_def)
  moreover have "map_of (mu_set ?m) (to_lower HeaderPaymentResponse) = Some (encode_settle_response
       (pending_receipt (network (pe_network e)) (address_string C (v_payer res)) (payment_id res)))"
    by (simp add: set_headers_def HeaderPaymentResponse_def to_lower_def to_lower_char_def is_upper_def)
  ultimately show thesis using c by (intro that) auto
qed


lemma atoi_nat: "0 \<le> x \<Longrightarrow> is_int64 x \<Longrightarrow> atoi (int_str x) = x"
  by (simp add: atoi_def int_str_def signed_dec_digits sat64_id)

lemma decode_nonempty_settle: "decode_settle_response h = Inr r \<Longrightarrow> h \<noteq> []"
  by (auto simp: decode_settle_response_def decode_header_def bind_r_eq_Inr trim_space_def trim_left_def trim_right_def
      split: if_splits)

text \<open>The buyer's half: it reads the offer, signs it, and its header decodes and verifies.\<close>

lemma window_of: "30 \<le> x \<Longrightarrow> x \<le> 600 \<Longrightarrow> sign_window x 0 = x * nsec"
  by (simp add: sign_window_def Let_def i64_id is_int64_def)

lemma buyer_pays_offer:
  assumes C: "crypto_laws C" and e: "entry_ok C nets e" and w: "wa_network w = pe_network e" and n: "length n = 32"
    and v: "\<And>h. length h = 32 \<Longrightarrow> hd (sign_compact C (wa_key w) h) \<in> {27, 28}"
    and res: "ok_resource rs" "json_size (enc_resource rs) \<le> 1600"
    and t: "0 \<le> now" "now < 2 ^ 63" "0 \<le> unix t" "unix now \<le> unix t + skew_allowance"
      "unix t < unix now + r_timeout (pe_route e)"
  obtains pp r where "sign C w (pe_requirements e) (Some rs) now 0 (Some n) = Inr pp"
    "decode_payment_payload (encode_payment_payload pp) = Inr pp"
    "verify C t (pe_requirements e) (sbc_domain (pe_network e)) pp = Inr r"
    "v_payer r = wallet_address C w" "a_nonce (v_auth r) = n"
proof -
  let ?r = "pe_requirements e"
  note terms = entry_ok_terms [OF e]
  obtain payTo where route: "payable_route ?r (pe_price e) payTo" by (rule entry_ok_payable [OF e])
  have offer: "payable_offer w ?r" "parse_address (rq_payTo ?r) = Inr payTo" "parse_uint256 (rq_amount ?r) = Inr (pe_price e)"
    using route terms(3-5) w by (simp_all add: payable_offer_def payable_route_def)
  have un: "0 \<le> unix now" "unix now \<le> 2 ^ 62" using t(1,2) by (simp_all add: unix_def)
  have win: "sign_window (rq_timeout ?r) 0 = rq_timeout ?r * nsec"
    unfolding terms(6) by (rule window_of [OF terms(7,8)])
  have before: "unix (now + sign_window (rq_timeout ?r) 0) = unix now + r_timeout (pe_route e)"
    using win terms(6) by (simp add: unix_def)
  have b: "0 \<le> unix now + r_timeout (pe_route e)" "unix now + r_timeout (pe_route e) \<le> 2 ^ 62 + 600"
    using un terms(7,8) by simp_all
  obtain pp where s: "sign C w ?r (Some rs) now 0 (Some n) = Inr pp"
    by (rule sign_total [OF C offer n, of now 0 "Some rs"]) (use before b in \<open>simp_all add: max_uint256_def\<close>)
  have echo: "pp\<lparr>pp_accepted := ?r\<rparr> = pp" using s by (rule sign_Inr) simp
  have "decode_payment_payload (encode_payment_payload (pp\<lparr>pp_accepted := ?r\<rparr>)) = Inr (pp\<lparr>pp_accepted := ?r\<rparr>)"
  proof (rule signed_header_roundtrip [OF C s n _ terms(1)])
    show "length (int_str (unix (now + sign_window (rq_timeout ?r) 0))) \<le> 80"
      unfolding before by (rule length_int_str) (use b in simp_all)
    show "length (int_str a) \<le> 80" if "parse_uint256 (rq_amount ?r) = Inr a" for a
      using parse_uint256_bounds [OF that] by (intro length_int_str) (simp_all add: max_uint256_def)
  qed (use res terms in \<open>simp_all add: SchemeExact_def network_def\<close>)
  then have d: "decode_payment_payload (encode_payment_payload pp) = Inr pp" by (simp add: echo)
  have dm: "sbc_domain (pe_network e) = wallet_domain w" by (simp add: sbc_domain_def wallet_domain_def w)
  show thesis
  proof (rule sign_verifies [OF C s n v])
    show "unix t < unix (now + sign_window (rq_timeout ?r) 0)" unfolding before by (rule t(5))
    show "unix (now + sign_window (rq_timeout ?r) 0) \<le> accept_limit t ?r"
      unfolding before accept_limit_def using t(4) terms(6-8) by (simp add: skew_allowance_def i64_id is_int64_def)
    show "is_int64 (unix (now + sign_window (rq_timeout ?r) 0))" unfolding before using b by (simp add: is_int64_def)
  qed (use t(3) that [OF s d] dm in simp_all)
qed

lemma sole_offer_chosen:
  assumes "entry_ok C nets e" "wa_network w = pe_network e" "pr_accepts pr = [pe_requirements e]"
    and "\<And>m. limit = Some m \<Longrightarrow> pe_price e \<le> m"
  shows "choose_offer w pr limit = Inr (pe_requirements e)"
proof -
  obtain payTo where "payable_route (pe_requirements e) (pe_price e) payTo" by (rule entry_ok_payable [OF assms(1)])
  then show ?thesis using entry_ok_terms(3-5) [OF assms(1)] assms(2-4)
    by (auto simp: choose_offer_def payable_offer_def payable_route_def split: option.split)
qed

lemma receipt_decodes:
  assumes "crypto_laws C" "length n = 32"
  shows "decode_settle_response (encode_settle_response
      (pending_receipt (network p) (address_string C (wallet_address C w)) (hex_0x n))) =
    Inr (pending_receipt (network p) (address_string C (wallet_address C w)) (hex_0x n))"
  by (rule pending_receipt_decodes) (use network_text [of p] assms in
    \<open>simp_all add: length_hex_0x ascii_hex_0x ascii_address_string wallet_address_def
      length_address_string key_address_is_address\<close>)

text \<open>The filter's half: a payment that verifies and is covered is served and captured.\<close>

lemma paid_exchange:
  assumes R: "key_laws R" "stream_laws R" and E: "envoy_laws E"
    and route: "route_key (route_attribute attrs) = Some key" "price_lookup (ph_table ph) key = Some e" "entry_ok C nets e"
    and sig: "decode_payment_payload sig = Inr pp"
      "verify C (ph_verify_at ph) (pe_requirements e) (sbc_domain (pe_network e)) pp = Inr res"
    and funds: "map_of (pm_balances p) (network (pe_network e)) = Some cache"
      "fst (balance_get C R cache (ph_read_fault ph) (ph_read_ms ph) (ph_cache_at ph) (v_payer res) (ph_arrival ph) s) = Inr bal"
      "counter_ok (rd_view R s (ph_ms ph)) (inflight_key C (v_payer res))"
      "inflight_of (rd_view R s (ph_ms ph)) (inflight_key C (v_payer res)) + pe_price e \<le> min (bl_value bal) MaxExact"
      "rd_view R s (ph_ms ph) (nonce_key C (v_payer res) (a_nonce (v_auth res))) = None"
      "msec \<le> inflight_ttl (pm_reserve p)"
    and live: "ph_waited ph" "ph_reserve_fault ph = Answered" "ph_capture_fault rph = Answered"
    and served: "200 \<le> hr_status (backend (Some (admission C res)))" "hr_status (backend (Some (admission C res))) \<le> 299"
  obtains s' r where "via_filter C R page (Some p) E attrs backend (ph, rph, eph) [(HeaderPaymentSignature, sig)] s = (s', Inr r)"
    "hr_status r = hr_status (backend (Some (admission C res)))" "hr_body r = hr_body (backend (Some (admission C res)))"
    "header_get (hr_headers r) HeaderPaymentResponse = encode_settle_response
       (pending_receipt (network (pe_network e)) (address_string C (v_payer res)) (payment_id res))"
    "queued R s' (settlement_job C rph e res sig)"
    "inflight_of (rd_view R s' (ph_ms ph)) (inflight_key C (v_payer res)) =
       inflight_of (rd_view R s (ph_ms ph)) (inflight_key C (v_payer res)) + pe_price e"
proof -
  let ?h = "header_map (ev_request E [(HeaderPaymentSignature, sig)])"
  let ?b = "backend (Some (admission C res))"
  have price: "0 < pe_price e" "pe_price e \<le> MaxExact"
    using route(3) by (auto simp: entry_ok_def MaxPrice_def MaxExact_def)
  have ne: "sig \<noteq> []" by (rule decoded_nonempty [OF sig(1)])
  obtain s1 rsv where rsv: "reserve C R (pm_reserve p) Answered (ph_reserve_at ph) (ph_ms ph) (v_payer res)
      (a_nonce (v_auth res)) (pe_price e) (bl_value bal) (v_expires res) s = (s1, Inr (OutOK, Some rsv))"
    "inflight_of (rd_view R s1 (ph_ms ph)) (inflight_key C (v_payer res)) =
       inflight_of (rd_view R s (ph_ms ph)) (inflight_key C (v_payer res)) + pe_price e"
    by (rule reserve_accepts [OF R(1) funds(3) price funds(6,5,4)]) blast
  let ?st = "hold (new_request\<lparr>q_entry := Some e\<rparr>) res rsv sig"
  have req: "request_headers C R page (Some p) ph attrs ?h new_request s =
      (s1, ?st, ContinueRequest (Some (admission C res)), PaymentAccepted)"
    by (rule request_accepts [OF route(1,2) envoy_lawsD(2) [OF E] ne sig funds(1,2)]) (simp add: live rsv(1))
  have "atoi (int_str (hr_status ?b)) = hr_status ?b" using served by (intro atoi_nat) (simp_all add: is_int64_def)
  then have srv: "serves (header_map (ev_status E ?b))" using served by (simp add: serves_def envoy_lawsD(5) [OF E])
  have st: "q_rsv ?st = Some rsv" "q_res ?st = Some res" "q_entry ?st = Some e" "q_payment ?st = sig"
    by (simp_all add: hold_def)
  obtain s2 m where resp: "response_headers C R rph (header_map (ev_status E ?b)) ?st s1 =
      (s2, ?st\<lparr>q_captured := True\<rparr>, ContinueResponse (Some m), Some Paid)"
    "map_of (mu_set m) (to_lower HeaderPaymentResponse) = Some (encode_settle_response
       (pending_receipt (network (pe_network e)) (address_string C (v_payer res)) (payment_id res)))"
    "\<exists>i. capture R Answered (ph_ms rph) (settlement_job C rph e res (q_payment ?st)) s1 = (s2, Some i)"
    by (rule response_captures [OF srv st(1-3) live(3)])
  then obtain i where cap: "capture R Answered (ph_ms rph) (settlement_job C rph e res sig) s1 = (s2, Some i)"
    unfolding st(4) by blast
  have "via_filter C R page (Some p) E attrs backend (ph, rph, eph) [(HeaderPaymentSignature, sig)] s =
      (s2, Inr (ev_respond E (Some m) ?b))"
    using live(1) req resp(1) by (simp add: via_filter_def handle_def finish_resolved)
  moreover have "queued R s2 (settlement_job C rph e res sig)" "rd_view R s2 = rd_view R s1"
    using capture_effect(1,2) [OF R(2) cap] by simp_all
  ultimately show thesis
    using that envoy_lawsD(6-8) [OF E] resp(2) rsv(2) by metis
qed

section \<open>A concrete buyer, proxy and backend\<close>

definition lower_only :: "headers \<Rightarrow> headers" where
  "lower_only hs = filter (\<lambda>(k, v). to_lower k = k) hs"

definition demo_envoy :: envoy where
  "demo_envoy =
     \<lparr>ev_request = (\<lambda>extra. [('':method'', ''GET'', []), ('':authority'', ''a'', []), ('':path'', ''/b'', [])]
        @ map (\<lambda>(k, v). (k, v, [])) extra),
      ev_immediate = (\<lambda>status hs body. \<lparr>hr_status = status, hr_headers = lower_only hs, hr_body = body\<rparr>),
      ev_status = (\<lambda>r. [('':status'', int_str (hr_status r), [])]),
      ev_respond = (\<lambda>m r. r\<lparr>hr_headers := (case m of None \<Rightarrow> [] | Some m \<Rightarrow> lower_only (mu_set m)) @ hr_headers r\<rparr>)\<rparr>"

lemma lower_only_get: "map_of hs (to_lower k) = Some v \<Longrightarrow> header_get (lower_only hs @ rest) k = v"
  by (induction hs) (auto simp: lower_only_def header_get_def to_lower_idem split: if_splits)

lemma demo_envoy_laws: "envoy_laws demo_envoy"
  using lower_only_get [where rest = "[]"] lower_only_get
  by (auto simp: envoy_laws_def demo_envoy_def header_map_def hget_def HeaderPaymentSignature_def
      to_lower_def to_lower_char_def is_upper_def)

text \<open>The 402 of the example\<close>

lemma demo_hint:
  "ascii (hint (how_to_pay demo_entry demo_request) demo_request)"
  "length (hint (how_to_pay demo_entry demo_request) demo_request) \<le> 300"
proof -
  have f: "format_sbc 1000 = ''0.001''" by code_simp
  have u: "pq_refused demo_request = []" "length (pq_url demo_request) \<le> max_url_in_hint"
    by (simp_all add: demo_request_def max_url_in_hint_def)
  show "ascii (hint (how_to_pay demo_entry demo_request) demo_request)"
    "length (hint (how_to_pay demo_entry demo_request) demo_request) \<le> 300"
    unfolding hint_text [OF u]
    by (simp_all add: demo_entry_def demo_request_def f DisplayAsset_def cli_command_def cli_env_def Testnet_def Mainnet_def
        or_get_def shell_quote_def quote_def ascii_code to_lower_def to_lower_char_def is_upper_def)
qed

lemma demo_asked: "asked (header_map (ev_request demo_envoy [])) = demo_request"
  by (simp add: asked_def demo_envoy_def header_map_def hget_def demo_request_def public_url_def Let_def
      to_lower_def to_lower_char_def is_upper_def)

lemma demo_offered:
  "ok_required (offered demo_envoy demo_entry)"
  "length (encode_payment_required (offered demo_envoy demo_entry)) \<le> max_header_bytes"
  "json_size (enc_resource (pr_resource (offered demo_envoy demo_entry))) \<le> 1600"
proof -
  let ?pr = "offered demo_envoy demo_entry"
  note terms = entry_ok_terms [OF demo_entry_ok]
  have pr: "pr_resource ?pr = zero_resource\<lparr>rs_url := ''http://a/b''\<rparr>" "pr_accepts ?pr = [pe_requirements demo_entry]"
    "pr_extensions ?pr = []" "pr_version ?pr = 2" "pr_error ?pr = hint (how_to_pay demo_entry demo_request) demo_request"
    unfolding offered_def demo_asked
    by (simp_all add: payment_required_of_def demo_request_def x402_version_def demo_entry_def demo_route_def zero_route_def
        zero_resource_def)
  show small: "json_size (enc_resource (pr_resource ?pr)) \<le> 1600"
    by (simp add: pr enc_resource_def zero_resource_def omit_empty_def)
  show ok: "ok_required ?pr"
    using demo_hint(1) terms(1)
    by (simp add: ok_required_def pr ok_members_def is_int64_def ok_resource_def zero_resource_def ascii_code)
  have "length (encode_payment_required ?pr) \<le> 2 * json_size (enc_payment_required ?pr) + 2"
    unfolding encode_payment_required_def by (rule length_encode_header [OF wf_enc_required [OF ok]])
  also have "\<dots> \<le> max_header_bytes"
    using demo_hint(2) terms(2) small
    by (simp add: enc_payment_required_def pr omit_empty_def omit_map_def jint_def int_str_def nat_str.simps max_header_bytes_def)
  finally show "length (encode_payment_required ?pr) \<le> max_header_bytes" .
qed

text \<open>What a request in ASCII is answered is text, whatever the price and the route.\<close>

lemma ascii_simps:
  "ascii []" "ascii (c # s) \<longleftrightarrow> code c < 128 \<and> ascii s" "ascii (a @ b) \<longleftrightarrow> ascii a \<and> ascii b"
  by (auto simp: ascii_def)

lemma ascii_subset: "set s \<subseteq> set t \<Longrightarrow> ascii t \<Longrightarrow> ascii s"
  by (auto simp: ascii_def)

lemma ascii_replace_first: "ascii s \<Longrightarrow> ascii new \<Longrightarrow> ascii (replace_first s old new)"
proof (induction s)
  case (Cons c s)
  have "ascii (drop (length old) (c # s))" by (rule ascii_subset [OF set_drop_subset Cons.prems(1)])
  with Cons show ?case by (simp add: ascii_simps)
qed (simp add: ascii_def)

lemma ascii_format_sbc: "ascii (format_sbc v)"
proof -
  have "ascii (trim_right s cs)" if "ascii s" for s cs
    using that by (auto simp: ascii_def trim_right_def dest: set_dropWhileD)
  moreover have "ascii (take n s)" "ascii (drop n s)" if "ascii s" for n s
    using that by (auto simp: ascii_def dest: in_set_takeD in_set_dropD)
  moreover have "ascii (replicate n (CHR ''0''))" for n by (auto simp: ascii_def)
  ultimately show ?thesis by (simp add: format_sbc_def Let_def ascii_int_str ascii_simps)
qed

lemma ascii_to_lower: "ascii s \<Longrightarrow> ascii (to_lower s)"
proof -
  have "code c < 128 \<Longrightarrow> code (to_lower_char c) < 128" for c
    using to_lower_char_code [of c] by (auto simp: is_upper_def to_lower_char_def)
  then show "ascii s \<Longrightarrow> ascii (to_lower s)" by (auto simp: ascii_def to_lower_def)
qed

lemma ascii_shell_quote: "ascii s \<Longrightarrow> ascii (shell_quote s)"
  by (auto simp: shell_quote_def quote_def ascii_def)

lemma ascii_hint:
  assumes "ascii (pq_method req)" "ascii (pq_url req)" "ascii (pq_refused req)" "pe_network e \<in> {Testnet, Mainnet}"
  shows "ascii (hint (how_to_pay e req) req)"
proof -
  have net: "ascii (p_name (pe_network e))" "ascii (cli_env (pe_network e))"
    using assms(4) by (auto simp: Testnet_def Mainnet_def cli_env_def ascii_simps)
  have "ascii (to_lower (or_get (pq_method req)))"
    using assms(1) by (intro ascii_to_lower) (simp add: or_get_def ascii_simps)
  then have pay: "ascii (cli_command (cli_env (pe_network e)) (pq_method req) (pq_url req) (format_sbc (pe_price e)))"
    using net(2) ascii_shell_quote [OF assms(2)] ascii_format_sbc by (simp add: cli_command_def ascii_simps)
  then show ?thesis
    using assms(3) net(1) ascii_format_sbc
    by (simp add: hint_def how_to_pay_def Let_def ascii_simps ascii_replace_first quote_def DisplayAsset_def)
qed

lemma text_required:
  assumes "entry_ok C nets e" "set nets \<subseteq> {Testnet, Mainnet}"
    and "ascii (pq_method req)" "ascii (pq_url req)" "ascii (pq_refused req)"
    and "utf8_text (r_description (pe_route e))" "utf8_text (r_mimeType (pe_route e))"
  shows "ok_required (payment_required_of e req)"
proof -
  have "pe_network e \<in> {Testnet, Mainnet}" using assms(1,2) by (auto simp: entry_ok_def)
  with assms show ?thesis
    using entry_ok_terms(1) [OF assms(1)]
    by (simp add: ok_required_def payment_required_of_def ok_members_def ok_resource_def zero_resource_def is_int64_def
        x402_version_def ascii_hint)
qed

definition demo_phases :: "phase \<times> phase \<times> phase" where
  "demo_phases = (demo_phase, demo_phase, demo_phase)"

definition demo_backend :: "mutation option \<Rightarrow> http_response" where
  "demo_backend m = \<lparr>hr_status = 200, hr_headers = [], hr_body = ''data''\<rparr>"

section \<open>Properties\<close>

text \<open>
  C3: a client that pays is served.  Let the route be priced, the 402 be UTF-8 and within the
  header limit, the wallet be on the route's network with a threshold that allows the price,
  the clocks agree within the allowance, the balance read cover the price on top of what is
  in flight, the nonce be unused, and Redis answer.  Then \<open>Pay\<close> ends without an error: asking
  changed nothing, the buyer gets the backend's status, the first 8 MiB of its body and a receipt that names it
  and its nonce, the price is in flight, and the job that settles the payment is queued.
\<close>

theorem paying_client_is_served:
  assumes laws: "crypto_laws C" "key_laws R" "stream_laws R" "envoy_laws E"
    and price: "route_key (route_attribute attrs) = Some key" "price_lookup (ph_table ph1) key = Some e"
      "price_lookup (ph_table ph2) key = Some e" "entry_ok C nets e"
    and offer: "\<And>d. page d \<noteq> None" "ok_required (offered E e)" "length (encode_payment_required (offered E e)) \<le> max_header_bytes"
      "json_size (enc_resource (pr_resource (offered E e))) \<le> 1600"
    and wallet: "wa_network w = pe_network e" "\<And>m. limit = Some m \<Longrightarrow> pe_price e \<le> m" "length n = 32"
      "\<And>h. length h = 32 \<Longrightarrow> hd (sign_compact C (wa_key w) h) \<in> {27, 28}"
    and clocks: "0 \<le> now" "now < 2 ^ 63" "0 \<le> unix (ph_verify_at ph2)"
      "unix now \<le> unix (ph_verify_at ph2) + skew_allowance"
      "unix (ph_verify_at ph2) < unix now + r_timeout (pe_route e)"
    and funds: "map_of (pm_balances pays) (network (pe_network e)) = Some cache"
      "fst (balance_get C R cache (ph_read_fault ph2) (ph_read_ms ph2) (ph_cache_at ph2) (wallet_address C w)
         (ph_arrival ph2) s2) = Inr bal"
      "counter_ok (rd_view R s2 (ph_ms ph2)) (inflight_key C (wallet_address C w))"
      "inflight_of (rd_view R s2 (ph_ms ph2)) (inflight_key C (wallet_address C w)) + pe_price e \<le> min (bl_value bal) MaxExact"
      "rd_view R s2 (ph_ms ph2) (nonce_key C (wallet_address C w) n) = None"
      "msec \<le> inflight_ttl (pm_reserve pays)"
    and live: "ph_waited ph1" "ph_waited ph2" "ph_reserve_fault ph2 = Answered" "ph_capture_fault rph2 = Answered"
    and served: "\<And>m. 200 \<le> hr_status (backend m) \<and> hr_status (backend m) \<le> 299"
  shows "\<exists>out sig res m s'.
    pay C w (exchanges C R page (Some pays) E attrs backend ((ph1, rph1, eph1), s1) ((ph2, rph2, eph2), s2))
      limit now 0 (Some n) = (out, None, Some sig) \<and>
    fst (via_filter C R page (Some pays) E attrs backend (ph1, rph1, eph1) [] s1) = s1 \<and>
    fst (via_filter C R page (Some pays) E attrs backend (ph2, rph2, eph2) [(HeaderPaymentSignature, sig)] s2) = s' \<and>
    po_status out = hr_status (backend m) \<and> po_body out = take read_limit (hr_body (backend m)) \<and>
    po_paid out = Some (pe_requirements e) \<and>
    po_settlement out = Some (pending_receipt (network (pe_network e)) (address_string C (wallet_address C w)) (hex_0x n)) \<and>
    v_payer res = wallet_address C w \<and> a_nonce (v_auth res) = n \<and>
    queued R s' (settlement_job C rph2 e res sig) \<and>
    inflight_of (rd_view R s' (ph_ms ph2)) (inflight_key C (wallet_address C w)) =
      inflight_of (rd_view R s2 (ph_ms ph2)) (inflight_key C (wallet_address C w)) + pe_price e"
proof -
  let ?visit = "via_filter C R page (Some pays) E attrs backend"
  let ?pr = "offered E e"
  have shape: "pr_version ?pr = x402_version" "pr_accepts ?pr = [pe_requirements e]"
    by (simp_all add: offered_def payment_required_of_def)
  obtain r1 where r1: "?visit (ph1, rph1, eph1) [] s1 = (s1, Inr r1)" "hr_status r1 = 402"
    "header_get (hr_headers r1) HeaderPaymentRequired = encode_payment_required ?pr"
    unfolding offered_def by (rule first_exchange [OF laws(4) price(1,2) live(1) offer(1)])
  have dec: "decode_payment_required (encode_payment_required ?pr) = Inr ?pr"
    by (rule required_roundtrip [OF offer(2)]) (simp_all add: shape offer(3))
  have res_ok: "ok_resource (pr_resource ?pr)" using offer(2) by (simp add: ok_required_def)
  obtain pp res where pp: "sign C w (pe_requirements e) (Some (pr_resource ?pr)) now 0 (Some n) = Inr pp"
    "decode_payment_payload (encode_payment_payload pp) = Inr pp"
    "verify C (ph_verify_at ph2) (pe_requirements e) (sbc_domain (pe_network e)) pp = Inr res"
    "v_payer res = wallet_address C w" "a_nonce (v_auth res) = n"
    by (rule buyer_pays_offer [OF laws(1) price(4) wallet(1,3,4) res_ok offer(4) clocks])
  let ?sig = "encode_payment_payload pp" and ?m = "Some (admission C res)"
  have choice: "choose_offer w ?pr limit = Inr (pe_requirements e)"
    by (rule sole_offer_chosen [OF price(4) wallet(1) shape(2) wallet(2)])
  obtain s' r2 where r2: "?visit (ph2, rph2, eph2) [(HeaderPaymentSignature, ?sig)] s2 = (s', Inr r2)"
    "hr_status r2 = hr_status (backend ?m)" "hr_body r2 = hr_body (backend ?m)"
    "header_get (hr_headers r2) HeaderPaymentResponse = encode_settle_response
       (pending_receipt (network (pe_network e)) (address_string C (wallet_address C w)) (hex_0x n))"
    "queued R s' (settlement_job C rph2 e res ?sig)"
    "inflight_of (rd_view R s' (ph_ms ph2)) (inflight_key C (wallet_address C w)) =
       inflight_of (rd_view R s2 (ph_ms ph2)) (inflight_key C (wallet_address C w)) + pe_price e"
    using paid_exchange [OF laws(2-4) price(1,3,4) pp(2,3) funds(1), unfolded pp(4,5) payment_id_def, OF funds(2-6) live(2-4),
        where backend = backend and page = page and eph = eph2] served [of ?m] by metis
  have receipt: "decode_settle_response (header_get (hr_headers r2) HeaderPaymentResponse) =
      Inr (pending_receipt (network (pe_network e)) (address_string C (wallet_address C w)) (hex_0x n))"
    unfolding r2(4) by (rule receipt_decodes [OF laws(1) wallet(3)])
  have some: "encode_payment_required ?pr \<noteq> []" "header_get (hr_headers r2) HeaderPaymentResponse \<noteq> []"
    using encode_nonempty [OF dec] decode_nonempty_settle [OF receipt] by blast+
  let ?out = "zero_outcome\<lparr>po_required := Some ?pr, po_paid := Some (pe_requirements e), po_status := hr_status r2,
      po_body := read_body r2, po_headers := hr_headers r2,
      po_settlement := Some (pending_receipt (network (pe_network e)) (address_string C (wallet_address C w)) (hex_0x n))\<rparr>"
  have "pay C w (exchanges C R page (Some pays) E attrs backend ((ph1, rph1, eph1), s1) ((ph2, rph2, eph2), s2))
      limit now 0 (Some n) = (?out, None, Some ?sig)"
    using r1 r2(1) dec choice pp(1) receipt some by (simp add: pay_def exchanges_def)
  with r1(1) r2 pp(4,5) show ?thesis
    by (intro exI [of _ ?out] exI [of _ ?sig] exI [of _ res] exI [of _ ?m] exI [of _ s']) (simp add: read_body_def)
qed

theorem paying_client_is_served_witness:
  "\<exists>out sig res m s'.
    pay demo_crypto demo_wallet (exchanges demo_crypto mem_redis page_renderer (Some demo_payments) demo_envoy demo_attrs
       demo_backend (demo_phases, empty_mem) (demo_phases, empty_mem)) (Some 1000) 0 0 (Some (replicate 32 1))
       = (out, None, Some sig) \<and>
    fst (via_filter demo_crypto mem_redis page_renderer (Some demo_payments) demo_envoy demo_attrs demo_backend demo_phases
      [(HeaderPaymentSignature, sig)] empty_mem) = s' \<and>
    po_status out = 200 \<and> po_body out = ''data'' \<and> po_paid out = Some (pe_requirements demo_entry) \<and>
    v_payer res = wallet_address demo_crypto demo_wallet \<and>
    queued mem_redis s' (settlement_job demo_crypto demo_phase demo_entry res sig)"
proof -
  have key: "route_key (route_attribute demo_attrs) = Some ''httproute/a/b''"
    using demo_route_key by (simp add: demo_attrs_def route_attribute_def)
  have ph: "price_lookup (ph_table demo_phase) ''httproute/a/b'' = Some demo_entry" "ph_verify_at demo_phase = 0"
    "ph_ms demo_phase = 0" "ph_waited demo_phase" "ph_reserve_fault demo_phase = Answered"
    "ph_capture_fault demo_phase = Answered" "ph_read_fault demo_phase = Answered" "ph_read_ms demo_phase = 0"
    "ph_cache_at demo_phase = 0" "ph_arrival demo_phase = Some (Inr 5000)"
    by (simp_all add: demo_phase_def price_lookup_def)
  have en: "pe_price demo_entry = 1000" "network (pe_network demo_entry) = ''eip155:72344''" "pe_network demo_entry = Testnet"
    "r_timeout (pe_route demo_entry) = 60"
    by (simp_all add: demo_entry_def network_testnet demo_route_def)
  let ?pays = "Some demo_payments"
  have "\<exists>out sig res m s'.
    pay demo_crypto demo_wallet (exchanges demo_crypto mem_redis page_renderer ?pays demo_envoy demo_attrs
       demo_backend ((demo_phase, demo_phase, demo_phase), empty_mem) ((demo_phase, demo_phase, demo_phase), empty_mem))
       (Some 1000) 0 0 (Some (replicate 32 1)) = (out, None, Some sig) \<and>
    fst (via_filter demo_crypto mem_redis page_renderer ?pays demo_envoy demo_attrs demo_backend
      (demo_phase, demo_phase, demo_phase) [] empty_mem) = empty_mem \<and>
    fst (via_filter demo_crypto mem_redis page_renderer ?pays demo_envoy demo_attrs demo_backend
      (demo_phase, demo_phase, demo_phase) [(HeaderPaymentSignature, sig)] empty_mem) = s' \<and>
    po_status out = hr_status (demo_backend m) \<and> po_body out = take read_limit (hr_body (demo_backend m)) \<and>
    po_paid out = Some (pe_requirements demo_entry) \<and>
    po_settlement out = Some (pending_receipt (network (pe_network demo_entry))
      (address_string demo_crypto (wallet_address demo_crypto demo_wallet)) (hex_0x (replicate 32 1))) \<and>
    v_payer res = wallet_address demo_crypto demo_wallet \<and> a_nonce (v_auth res) = replicate 32 1 \<and>
    queued mem_redis s' (settlement_job demo_crypto demo_phase demo_entry res sig) \<and>
    inflight_of (rd_view mem_redis s' (ph_ms demo_phase)) (inflight_key demo_crypto (wallet_address demo_crypto demo_wallet)) =
      inflight_of (rd_view mem_redis empty_mem (ph_ms demo_phase))
        (inflight_key demo_crypto (wallet_address demo_crypto demo_wallet)) + pe_price demo_entry"
  proof (rule paying_client_is_served [OF demo_laws mem_keys mem_streams demo_envoy_laws key ph(1) ph(1) demo_entry_ok _
       demo_offered, where cache = demo_cache and bal = "\<lparr>bl_value = 5000, bl_age = 0, bl_source = SourceFetched\<rparr>"])
    show "wa_network demo_wallet = pe_network demo_entry" by (simp add: demo_wallet_def en)
    show "hd (sign_compact demo_crypto (wa_key demo_wallet) h) \<in> {27, 28}" for h by (rule demo_sign)
    show "map_of (pm_balances demo_payments) (network (pe_network demo_entry)) = Some demo_cache"
      by (simp add: en(2) demo_payments_def)
    show "msec \<le> inflight_ttl (pm_reserve demo_payments)" using demo_cfg_ttl by (simp add: demo_payments_def)
  qed (simp_all add: ph en demo_balance unix_def skew_allowance_def empty_mem_view counter_ok_def inflight_of_def
      MaxExact_def demo_backend_def page_renderer_def)
  moreover have "take read_limit ''data'' = ''data''" by (simp add: read_limit_def)
  ultimately show ?thesis unfolding demo_phases_def demo_backend_def by (elim exE conjE) (intro exI conjI, assumption+, simp_all)
qed

text \<open>
  C27: every 402, in every format, carries the offer.  Let the entry be a loaded price, its
  description and MIME type UTF-8, and the request ASCII.  Then the status is 402, no cache may
  keep it, and its \<open>PAYMENT-REQUIRED\<close> header, which is there, decodes, when it is within the header
  limit, to the route's one offer with the requested URL, the route's description, the hint and
  no extension.
\<close>

theorem every_402_carries_the_offer:
  assumes "render page e req = Some r" "entry_ok C nets e" "set nets \<subseteq> {Testnet, Mainnet}"
    and "ascii (pq_method req)" "ascii (pq_url req)" "ascii (pq_refused req)"
    and "utf8_text (r_description (pe_route e))" "utf8_text (r_mimeType (pe_route e))"
    and "\<And>h. map_of (rp_headers r) HeaderPaymentRequired = Some h \<Longrightarrow> length h \<le> max_header_bytes"
  shows "rp_status r = 402 \<and> map_of (rp_headers r) ''Cache-Control'' = Some ''no-store'' \<and>
    (\<exists>h pr. map_of (rp_headers r) HeaderPaymentRequired = Some h \<and> decode_payment_required h = Inr pr \<and>
       pr_version pr = x402_version \<and> pr_accepts pr = [pe_requirements e] \<and> rs_url (pr_resource pr) = pq_url req \<and>
       rs_description (pr_resource pr) = r_description (pe_route e) \<and>
       pr_error pr = hint (how_to_pay e req) req \<and> pr_extensions pr = [])"
proof -
  let ?pr = "payment_required_of e req"
  obtain ctype where r: "rp_status r = 402" "rp_headers r =
       [(HeaderPaymentRequired, encode_payment_required ?pr),
        (''Cache-Control'', ''no-store''), (''Vary'', ''Accept, User-Agent''),
        (''Link'', ''<'' @ hp_docs (how_to_pay e req) @ ''>; rel='' @ [CHR 0x22] @ ''help'' @ [CHR 0x22]),
        (''Access-Control-Expose-Headers'', HeaderPaymentRequired), (''Content-Type'', ctype)]"
    by (rule render_Some [OF assms(1)])
  have "decode_payment_required (encode_payment_required ?pr) = Inr ?pr"
    by (rule required_roundtrip [OF text_required [OF assms(2-8)]])
      (use r(2) assms(9) in \<open>simp_all add: payment_required_of_def\<close>)
  with r show ?thesis
    by (intro conjI exI [of _ "encode_payment_required ?pr"] exI [of _ ?pr])
      (simp_all add: HeaderPaymentRequired_def payment_required_of_def)
qed

theorem every_402_carries_the_offer_witness:
  "\<exists>r h pr. render page_renderer demo_entry demo_request = Some r \<and>
    map_of (rp_headers r) HeaderPaymentRequired = Some h \<and> decode_payment_required h = Inr pr \<and>
    pr_accepts pr = [pe_requirements demo_entry] \<and> rs_url (pr_resource pr) = ''http://a/b''"
proof -
  obtain r where r: "render page_renderer demo_entry demo_request = Some r"
    by (simp add: render_def Let_def is_browser_def demo_request_def)
  have e: "payment_required_of demo_entry demo_request = offered demo_envoy demo_entry" by (simp add: offered_def demo_asked)
  have len: "length h \<le> max_header_bytes" if "map_of (rp_headers r) HeaderPaymentRequired = Some h" for h
    by (rule render_Some [OF r]) (use that demo_offered(2) e in \<open>auto simp: HeaderPaymentRequired_def\<close>)
  have "pq_url demo_request = ''http://a/b''" "ascii (pq_method demo_request)" "ascii (pq_url demo_request)"
    "ascii (pq_refused demo_request)" "utf8_text (r_description (pe_route demo_entry))"
    "utf8_text (r_mimeType (pe_route demo_entry))"
    by (simp_all add: demo_request_def ascii_simps demo_entry_def demo_route_def zero_route_def)
  with every_402_carries_the_offer [OF r demo_entry_ok _ _ _ _ _ _ len] r show ?thesis by auto
qed

end
