(* ===== verification/StreamTypes.thy ===== *)
theory StreamTypes
  imports Extproc
begin

text \<open>
  The state of a stream (\<open>request\<close> of \<open>internal/extproc/server.go\<close>) as a typed value: which of its
  fields are set together at which stage of the stream, and what every handler keeps of it.
\<close>

section \<open>Stages and types\<close>

datatype stage = AtStart | AtBackend | AtEnd

fun stage_after :: "stage \<Rightarrow> message \<Rightarrow> stage option" where
  "stage_after AtStart (RequestHeaders attrs hs) = Some AtBackend"
| "stage_after AtBackend (ResponseHeaders hs) = Some AtEnd"
| "stage_after g m = None"

text \<open>The reservation, the verified payment, the header it came in and the price belong together.\<close>

definition holds_payment :: "('pk, 'sk) crypto \<Rightarrow> profile list \<Rightarrow> stream_state \<Rightarrow> reservation \<Rightarrow> bool" where
  "holds_payment C nets st rsv \<longleftrightarrow>
     (\<exists>e res pp now. q_entry st = Some e \<and> q_res st = Some res \<and> entry_ok C nets e \<and>
        decode_payment_payload (q_payment st) = Inr pp \<and>
        verify C now (pe_requirements e) (sbc_domain (pe_network e)) pp = Inr res \<and>
        rv_payer rsv = v_payer res \<and> rv_nonce rsv = a_nonce (v_auth res) \<and> rv_amount rsv = pe_price e)"

definition holds_nothing :: "stream_state \<Rightarrow> bool" where
  "holds_nothing st \<longleftrightarrow> q_res st = None \<and> q_payment st = [] \<and> \<not> q_captured st \<and> \<not> q_released st"

fun stream_type :: "('pk, 'sk) crypto \<Rightarrow> profile list \<Rightarrow> stage \<Rightarrow> stream_state \<Rightarrow> bool" where
  "stream_type C nets AtStart st \<longleftrightarrow> st = new_request"
| "stream_type C nets AtBackend st \<longleftrightarrow>
     (case q_rsv st of None \<Rightarrow> holds_nothing st
      | Some rsv \<Rightarrow> holds_payment C nets st rsv \<and> \<not> q_captured st \<and> \<not> q_released st)"
| "stream_type C nets AtEnd st \<longleftrightarrow>
     (case q_rsv st of None \<Rightarrow> holds_nothing st
      | Some rsv \<Rightarrow> holds_payment C nets st rsv \<and> (q_captured st \<noteq> q_released st))"

fun reply_type :: "message \<Rightarrow> reply \<Rightarrow> bool" where
  "reply_type (RequestHeaders attrs hs) r \<longleftrightarrow> is_refusal r \<or> passes_request r"
| "reply_type (ResponseHeaders hs) r \<longleftrightarrow> (\<exists>m. r = ContinueResponse m)"
| "reply_type OtherPhase r \<longleftrightarrow> False"

definition tables_ok :: "('pk, 'sk) crypto \<Rightarrow> profile list \<Rightarrow> phase \<Rightarrow> bool" where
  "tables_ok C nets ph \<longleftrightarrow> (\<forall>k e. price_lookup (ph_table ph) k = Some e \<longrightarrow> entry_ok C nets e)"

section \<open>Lemmas\<close>

lemma holds_payment_flags [simp]:
  "holds_payment C nets (st\<lparr>q_captured := b\<rparr>) rsv = holds_payment C nets st rsv"
  "holds_payment C nets (st\<lparr>q_released := b\<rparr>) rsv = holds_payment C nets st rsv"
  by (simp_all add: holds_payment_def)

lemma new_request_typed: "stream_type C nets g new_request"
  by (cases g) (simp_all add: new_request_def holds_nothing_def)

text \<open>What a release does to the type, from the backend stage\<close>

lemma release_typed:
  assumes "stream_type C nets AtBackend st" "q_rsv st \<noteq> None" "release_stream C R ph st s = (s', st')"
  shows "stream_type C nets AtEnd st'"
  using assms by (auto simp: release_stream_def)

lemma request_typed:
  assumes "request_headers C R page pays ph attrs h new_request s = (s', st', r, d)"
    and "\<And>k e. price_lookup (ph_table ph) k = Some e \<Longrightarrow> entry_ok C nets e"
  shows "stream_type C nets AtBackend st' \<and> (is_refusal r \<or> passes_request r)"
proof (cases rule: request_cases [OF assms(1), case_names Free Refused Accept])
  case Free
  then show ?thesis using new_request_typed [of C nets AtBackend] by simp
next
  case (Refused e)
  then show ?thesis by (auto simp: new_request_def holds_nothing_def)
next
  case (Accept key e p pw)
  note e = assms(2) [OF Accept(2)]
  show ?thesis
  proof (cases rule: accept_cases [OF Accept(6), case_names Early Reserve])
    case Early
    then show ?thesis by (simp add: new_request_def holds_nothing_def)
  next
    case (Reserve pp res bal rr)
    show ?thesis
    proof (cases "accepted rr")
      case False
      with Reserve(6) show ?thesis by (simp add: new_request_def holds_nothing_def)
    next
      case True
      with Reserve(5) obtain rsv where q: "rr = Inr (OutOK, Some rsv)"
        "st' = hold (new_request\<lparr>q_entry := Some e\<rparr>) res rsv (hget h (to_lower HeaderPaymentSignature))"
        "passes_request r" by auto
      from reserve_ok [OF Reserve(3) [unfolded q(1)]] have "rv_payer rsv = v_payer res"
        "rv_nonce rsv = a_nonce (v_auth res)" "rv_amount rsv = pe_price e" by auto
      with q(2,3) Reserve(1,2) e show ?thesis
        by (auto simp: hold_def holds_payment_def new_request_def)
    qed
  qed
qed

lemma response_typed:
  assumes "response_headers C R ph h st s = (s', st', r, d)" "stream_type C nets AtBackend st"
  shows "stream_type C nets AtEnd st' \<and> (\<exists>m. r = ContinueResponse m)"
proof (cases rule: response_cases [OF assms(1), case_names Nothing Unserved Lost Captured])
  case Nothing
  then show ?thesis using assms(2) by (auto simp: holds_payment_def split: option.splits)
next
  case Unserved
  have "q_rsv st \<noteq> None"
  proof
    assume "q_rsv st = None"
    from response_nothing_held [OF this, of C R ph h s] assms(1) Unserved(4) show False by simp
  qed
  with release_typed [OF assms(2) _ Unserved(2)] Unserved(3) show ?thesis by simp
next
  case (Lost rsv res e s1)
  with release_typed [OF assms(2) _ Lost(6)] show ?thesis by simp
next
  case (Captured rsv res e i)
  from assms(1) Captured have "\<exists>m. r = ContinueResponse m"
    by (auto simp: response_headers_def Let_def serves_def)
  with Captured assms(2) show ?thesis by simp
qed

lemma finish_typed:
  assumes "stream_type C nets g st" "finish C R ph st s = (s', st')"
  shows "stream_type C nets AtEnd st'"
proof (cases g)
  case AtStart
  with assms show ?thesis using new_request_typed [of C nets AtEnd] by (auto simp: finish_def new_request_def)
next
  case AtBackend
  show ?thesis
  proof (cases "q_rsv st")
    case None
    with AtBackend assms finish_nothing_held [OF None, of C R ph s] show ?thesis by auto
  next
    case (Some rsv)
    with AtBackend assms have "release_stream C R ph st s = (s', st')" by (auto simp: finish_def)
    moreover have "stream_type C nets AtBackend st" "q_rsv st \<noteq> None" using AtBackend assms(1) Some by simp_all
    ultimately show ?thesis by (rule release_typed [rotated 2])
  qed
next
  case AtEnd
  have "finish C R ph st s = (s, st)"
  proof (cases "q_rsv st")
    case (Some rsv)
    with AtEnd assms(1) have "q_captured st \<or> q_released st" by auto
    then show ?thesis by (rule finish_resolved)
  qed (rule finish_nothing_held)
  with AtEnd assms show ?thesis by auto
qed

lemma handle_typed:
  assumes "stream_type C nets g st" "stage_after g m = Some g'" "tables_ok C nets ph"
    and "handle C R page pays ph m st s = (s', st', reply)"
  shows "stream_type C nets g' st' \<and> (case reply of None \<Rightarrow> g = AtStart \<and> \<not> ph_waited ph | Some r \<Rightarrow> reply_type m r)"
  proof (cases rule: stage_after.cases [of "(g, m)"])
    case (1 attrs hs)
    obtain s1 st1 r1 d1 where q: "request_headers C R page pays ph attrs (header_map hs) new_request s = (s1, st1, r1, d1)"
      by (cases "request_headers C R page pays ph attrs (header_map hs) new_request s")
    from request_typed [OF q, of nets] assms 1 q show ?thesis
      using new_request_typed [of C nets AtBackend] by (auto simp: handle_def tables_ok_def simp del: stream_type.simps(2) split: if_splits)
  next
    case (2 hs)
    obtain s1 st1 r1 d1 where q: "response_headers C R ph (header_map hs) st s = (s1, st1, r1, d1)"
      by (cases "response_headers C R ph (header_map hs) st s")
    from response_typed [OF q] assms 2 q show ?thesis
      by (auto simp: handle_def simp del: stream_type.simps)
  qed (use assms(2) in auto)

text \<open>A stream that ends, at whatever point, ends with its reservation resolved once.\<close>

fun in_order :: "stage \<Rightarrow> (message \<times> phase) list \<Rightarrow> bool" where
  "in_order g [] \<longleftrightarrow> True"
| "in_order g ((m, ph) # ms) \<longleftrightarrow> (case stage_after g m of None \<Rightarrow> False | Some g' \<Rightarrow> in_order g' ms)"

lemma envoy_in_order: "envoy_messages ms \<Longrightarrow> in_order AtStart ms"
  by (rule envoy_messages_cases) auto

lemma serve_typed:
  assumes "serve C R page pays ms st s = (s', st', rs)" "stream_type C nets g st" "in_order g ms"
    and "\<forall>(m, ph) \<in> set ms. tables_ok C nets ph"
  shows "\<exists>g'. stream_type C nets g' st'"
  using assms
proof (induction ms arbitrary: g st s rs)
  case (Cons x ms)
  obtain m ph where x: "x = (m, ph)" by (cases x)
  obtain g1 where g1: "stage_after g m = Some g1" "in_order g1 ms" using Cons.prems(3) x by (auto split: option.splits)
  obtain s1 st1 o1 where h: "handle C R page pays ph m st s = (s1, st1, o1)"
    by (cases "handle C R page pays ph m st s")
  have t: "stream_type C nets g1 st1"
    using handle_typed [OF Cons.prems(2) g1(1) _ h] Cons.prems(4) x by simp
  show ?case
  proof (cases "o1 = None \<or> \<not> ph_sent ph")
    case True
    with Cons.prems(1) x h t show ?thesis by (auto split: option.splits)
  next
    case False
    with Cons.prems(1) x h obtain rs1 where "serve C R page pays ms st1 s1 = (s', st', rs1)"
      by (auto split: prod.splits)
    from Cons.IH [OF this t g1(2)] Cons.prems(4) show ?thesis by simp
  qed
qed auto

lemma process_typed:
  assumes "process C R page pays ms eph s = (s', st', rs)" "envoy_messages ms"
    and "\<forall>(m, ph) \<in> set ms. tables_ok C nets ph"
  shows "stream_type C nets AtEnd st'"
proof -
  obtain s1 st1 where v: "serve C R page pays ms new_request s = (s1, st1, rs)" "finish C R eph st1 s1 = (s', st')"
    using assms(1) by (auto simp: process_def split: prod.splits)
  then obtain g where "stream_type C nets g st1"
    using serve_typed [OF v(1) new_request_typed [of C nets AtStart] envoy_in_order [OF assms(2)] assms(3)] by blast
  from finish_typed [OF this v(2)] show ?thesis .
qed

section \<open>Properties\<close>

text \<open>
  C8: a stream's state keeps its type.  A handler called with a message its stage allows takes
  a well-typed state to a well-typed state of the next stage, and answers with a reply of that
  message's kind; only a request whose wait was cut short gets none.  At the backend stage a
  reservation therefore always comes with the price, the verified payment and the header it
  was made for, so the response phase never meets a missing entry, and wherever the stream
  ends its reservation is captured or released and not both.
\<close>

theorem streams_keep_their_type:
  assumes "stream_type C nets g st" "stage_after g m = Some g'" "tables_ok C nets ph"
    and "handle C R page pays ph m st s = (s', st', reply)"
  shows "stream_type C nets g' st' \<and>
    (case reply of None \<Rightarrow> g = AtStart \<and> \<not> ph_waited ph | Some r \<Rightarrow> reply_type m r) \<and>
    stream_type C nets AtEnd (snd (finish C R ph' st' s'))"
proof -
  note t = handle_typed [OF assms]
  with finish_typed [of C nets g' st' R ph' s'] show ?thesis by (cases "finish C R ph' st' s'") auto
qed

theorem streams_keep_their_type_witness:
  "\<exists>hdr s' st' reply. handle demo_crypto mem_redis (\<lambda>_. None) (Some demo_payments) demo_phase
      (RequestHeaders demo_attrs [(''payment-signature'', hdr, [])]) new_request empty_mem = (s', st', Some reply) \<and>
    q_rsv st' \<noteq> None \<and> stream_type demo_crypto [Testnet] AtBackend st' \<and>
    stream_type demo_crypto [Testnet] AtEnd (snd (finish demo_crypto mem_redis demo_phase st' s'))"
proof -
  obtain hdr s' rsv res m where a: "request_headers demo_crypto mem_redis (\<lambda>_. None) (Some demo_payments) demo_phase
      demo_attrs [(''payment-signature'', hdr)] new_request empty_mem =
     (s', new_request\<lparr>q_entry := Some demo_entry, q_res := Some res, q_rsv := Some rsv, q_payment := hdr\<rparr>,
      ContinueRequest (Some m), PaymentAccepted)" by (rule demo_admitted)
  have m: "header_map [(''payment-signature'', hdr, [])] = [(''payment-signature'', hdr)]"
    by (simp add: header_map_def to_lower_def to_lower_char_def is_upper_def)
  let ?st = "new_request\<lparr>q_entry := Some demo_entry, q_res := Some res, q_rsv := Some rsv, q_payment := hdr\<rparr>"
  have h: "handle demo_crypto mem_redis (\<lambda>_. None) (Some demo_payments) demo_phase
      (RequestHeaders demo_attrs [(''payment-signature'', hdr, [])]) new_request empty_mem
      = (s', ?st, Some (ContinueRequest (Some m)))"
    by (simp add: handle_def m a demo_phase_def [THEN arg_cong [where f = ph_waited]])
  have "tables_ok demo_crypto [Testnet] demo_phase"
    using demo_entry_ok by (simp add: tables_ok_def demo_phase_def price_lookup_def split: if_splits)
  from streams_keep_their_type [OF new_request_typed [of demo_crypto "[Testnet]" AtStart] _ this h,
      of AtBackend demo_phase] h show ?thesis
    by (intro exI [of _ hdr] exI [of _ s'] exI [of _ ?st]) auto
qed

end
