(* ===== verification/Spec2Isabelle.thy ===== *)
theory Spec2Isabelle
  imports Timing Watches BuyerMain EndToEnd StreamTypes
begin

text \<open>
  A verification library of the x402 payment gateway.

  The program.  An Envoy proxy calls a filter for each request to a priced route.  Without a
  payment the filter answers 402 with the terms; with one it verifies the signature locally,
  reads the payer's balance, reserves the price in Redis, and lets the request through.  When
  the backend has served it, the filter appends a settle job to a Redis stream; otherwise it
  releases the reservation.  A settler drains the stream through a facilitator and releases
  the reservation.  A controller turns PaymentPolicy objects into the price table that the
  filter watches.  A buyer command pays.

  What models what.
  \<^item> \<open>Prelude\<close>, \<open>GoText\<close>, \<open>GoUrl\<close>, \<open>GoFlag\<close>: results, Go's integers and durations, and what the
    sources use of \<open>strings\<close>, \<open>strconv\<close>, \<open>encoding/hex\<close>, \<open>net/url\<close>, \<open>time.ParseDuration\<close> and \<open>flag\<close>.  A Go string is a char list, binary data
    a list of 8-bit words, a Go map with JSON order an association list, \<open>int64\<close> an \<open>int\<close> with its
    range checked or wrapped where the code depends on it, a chain id a 64-bit word.
  \<^item> \<open>Json\<close>, \<open>JsonIndent\<close>: \<open>encoding/json\<close> as used, with printer, parser and round trips; the
    locale \<open>json_codec\<close>, which \<open>header_codec\<close> extends to the base64 headers of \<open>Codec\<close>.  The round
    trips are for text in UTF-8 (\<open>utf8_text\<close>); an object that Go marshals from a map keeps the order
    of the list that stands for the map, where Go sorts the keys.
  \<^item> \<open>Runs\<close>: the locales of the state machines (\<open>step_invariant\<close>, \<open>timed_run\<close>, \<open>timed_simulation\<close>);
    \<open>flag_invariant\<close> in \<open>GoFlag\<close> is what parsing a command line keeps.
  \<^item> \<open>Evm\<close> (\<open>internal/evm/evm.go\<close>), \<open>Eip3009\<close> (\<open>internal/x402/eip3009/eip3009.go\<close>), \<open>Codec\<close> and \<open>X402\<close>
    (\<open>internal/x402/codec.go\<close>, \<open>types.go\<close>) with the round trips in \<open>X402_Codec\<close>, \<open>Verify\<close>
    (\<open>internal/x402/verify/verify.go\<close>), \<open>Radius\<close> (\<open>internal/radius/radius.go\<close>, \<open>rpc.go\<close>).
  \<^item> \<open>Pricing\<close> (\<open>internal/pricing/pricing.go\<close>, \<open>watch.go\<close>): \<open>parse_table\<close> is \<open>Parse\<close>, the record \<open>store\<close> is
    \<open>Store\<close>, \<open>watch_step\<close> is one event of the watcher; \<open>selects\<close> in \<open>Wiring\<close> is the one object, by
    namespace and name, that its list and watch are for.
  \<^item> \<open>Paywall\<close> (\<open>internal/paywall/paywall.go\<close>): the 402.  \<open>HtmlPage\<close>: the page a browser gets, the template
    \<open>page.html\<close> with the escapers of \<open>html/template\<close>; the handlers hold for any page function.
  \<^item> \<open>Redis\<close>: the commands the sources send, as a parameter with laws.  \<open>Reserve\<close>
    (\<open>internal/reserve/reserve.go\<close>): both Lua scripts command by command, \<open>Reserve\<close>, \<open>Release\<close>,
    \<open>Capture\<close>, \<open>ParseJob\<close>, and the ledger as a transition system (\<open>ledger_step\<close>, \<open>ledger_run\<close>), in which a
    call's second run by the client's retry is a step of its own kind.
    \<open>Balance\<close> (\<open>internal/balance/balance.go\<close>): the cache policy.
  \<^item> \<open>Extproc\<close> (\<open>internal/extproc/server.go\<close>): \<open>request_headers\<close>, \<open>response_headers\<close>, \<open>handle\<close>, \<open>finish\<close> and
    \<open>process\<close> are the handlers and the stream loop; the record \<open>stream_state\<close> is \<open>request\<close>.
    \<open>StreamTypes\<close> types that state by the stage of its stream.  \<open>Timing\<close> gives the steps of a phase
    their durations and derives what \<open>Extproc\<close> takes as given: the contexts, \<open>wait\<close>, what arrives
    in time, and when the phase is over.
  \<^item> \<open>Facilitator\<close> (\<open>internal/facilitator/client.go\<close>) and \<open>Settle\<close> (\<open>internal/settle/settle.go\<close>): \<open>handle_job\<close> is
    one job, \<open>step\<close>, \<open>claim\<close> and \<open>run_loop\<close> the loops.
  \<^item> \<open>Gateway\<close>: streams, settlers and detached balance reads interleaved on one Redis
    (\<open>gateway_step\<close>, \<open>gateway_run\<close>), and a served payment's way through the settler.
  \<^item> \<open>EndToEnd\<close>: the buyer's \<open>Pay\<close> against the filter, through a proxy that is a parameter, and what
    a 402 says when it is decoded.
  \<^item> \<open>Controller\<close> (\<open>internal/controller/project.go\<close>, \<open>reconciler.go\<close>, \<open>api/v1alpha1/paymentpolicy_types.go\<close>);
    \<open>Watches\<close> (\<open>SetupWithManager\<close>: which requests an event queues); \<open>Wiring\<close> (\<open>run\<close> of
    \<open>cmd/x402-filter\<close>, \<open>cmd/x402-settler\<close>, \<open>cmd/x402-controller\<close>, readiness, keepalive); \<open>Deploy\<close> (the
    three \<open>main\<close>s with their flags, the Redis clients of \<open>internal/rdb/rdb.go\<close>, the filter's drain).
  \<^item> \<open>Buyer\<close> (\<open>internal/buyer/buyer.go\<close>), \<open>BuyerCmd\<close> and \<open>BuyerMain\<close> (\<open>cmd/x402-buyer/main.go\<close>: the
    commands, and the command line with its exit codes).
  \<^item> \<open>Samples\<close>: the concrete parameters the witnesses use.

  Parameters.  Third-party code and the world are arguments: the record \<open>crypto\<close> (Keccak-256,
  secp256k1; laws \<open>crypto_laws\<close>), the record \<open>redis\<close> (laws \<open>key_laws\<close>, \<open>stream_laws\<close>, met by \<open>mem_redis\<close>),
  Envoy (the record \<open>envoy\<close>, laws \<open>envoy_laws\<close>), HTTP exchanges as functions from a body to an
  answer, the IP-literal parser \<open>ip\<close>, the API server (\<open>cluster\<close>), the disk, clocks and random nonces.  A call to Redis carries its
  fate (\<open>fault\<close>): answered, lost before or after the server ran it, or run twice by the
  client's retry; the ambiguity of a lost answer is thereby explicit.

  Errors and loops.  Each raise and early return is a constructor of an error type and a branch
  of a result; the one possible panic of an ABI word is \<open>Panicked\<close> or \<open>None\<close>, and shown
  unreachable.  The JSON parser takes the length of its text as fuel, which the round trip
  shows to be enough for every printed value.  The settler's passes recurse over the world's
  answers, the claim scan over the pending list with a decreasing count, and the buyer's wait
  over the time left to its deadline.

  What the lemmas show.  Codecs and text: printing and parsing are inverse, encodings are
  injective, bounds on lengths; \<open>HtmlPage\<close>: the tags of the page are the template's, whatever the
  data, and escaped text decodes to itself.  \<open>Verify\<close>: acceptance is exactly the conjunction of the checks.
  \<open>Reserve\<close>: what one script does to the keys, which keys a call can change, that a nonce stays
  claimed for its time to live, and that the in-flight sum bounds what is held, over runs of any
  length in which the key is renewed in time (\<open>kept_alive\<close>) and but for what releases that ran
  twice took off (\<open>released_twice\<close>).  \<open>Extproc\<close>: the
  cases of each handler, and that a stream is a run of the ledger that ends closed.
  \<open>Settle\<close>: what the end of a job does, what a pass over the pending list keeps, and that an
  entry leaves it; a job whose acknowledgement is lost is followed to its redelivery by a claim
  at a later time.  \<open>Gateway\<close>: the composed system is simulated by the ledger (\<open>gwsim\<close>), so a
  payment is admitted once however the steps interleave, and the job of a served payment is
  one the settler finishes.  \<open>StreamTypes\<close>: preservation of the state's type by every handler.
  \<open>Timing\<close>: bounds on both phases against the timeout Envoy is given.  \<open>EndToEnd\<close>: the honest run
  exists, so the safety results are not about a filter that refuses everybody.  \<open>Controller\<close>,
  \<open>Watches\<close> and \<open>Wiring\<close>: the projected table is accepted by the filter and prices what the
  policies say, and no event that changes it goes unnoticed; and a policy the schema admits is
  refused for one of seven reasons only.  \<open>GoFlag\<close>, \<open>Deploy\<close>, \<open>BuyerMain\<close>: what a
  command line without a flag leaves at its default.

  Not modelled: the texts of logs, usage and errors, and build information; the gRPC and HTTP
  servers and signals, which are library calls; which concurrent reads single flight joins, of
  which the result is an argument; the Kubernetes informer and the manager that deliver
  events; the timeouts of the HTTP transport; the generated deep copies and the scheme
  registration; JSON nesting limits and invalid UTF-8.
\<close>

end
